(* ===== verification/Go_Prelude.thy ===== *)
theory Go_Prelude
  imports Main "HOL-Library.Sublist" "HOL-Library.Multiset"
begin

text \<open>
  Shared vocabulary of the development: the error values of the storage library, Go's
  multi-value returns as sums, the binary search of the standard library that the
  interval sets call, and generic facts on lists and partial maps.

  Conventions used throughout.
  \<^item> A Go function that returns \<open>(T, error)\<close> yields \<open>go_error + T\<close>; \<open>Inl\<close> is the
    error. A panic is the error \<open>Panic\<close>.
  \<^item> A Go map is a partial function; a missing key is \<open>None\<close>.
  \<^item> A Go slice is a list. Where the code tells \<open>nil\<close> from an empty slice the model uses
    an option; elsewhere both are the empty list.
\<close>

named_theorems go_simps \<open>unfolding rules for the error plumbing of the models\<close>

section \<open>Errors\<close>

text \<open>
  The sentinel errors of \<open>storage/types/errors.go\<close>, those of the identifier index, the
  failures of the operating system (\<open>ErrIO\<close>, with \<open>os.ErrNotExist\<close> apart), errors made
  with \<open>fmt.Errorf\<close> that wrap no sentinel (\<open>ErrFmt\<close>) and panics. An error built with
  \<open>%w\<close> is modelled by the sentinel it wraps, which is what \<open>errors.Is\<close> observes.
\<close>

datatype go_error =
    ErrContainerUnknown
  | ErrDigestUnknown
  | ErrDuplicateID
  | ErrDuplicateImageNames
  | ErrDuplicateLayerNames
  | ErrDuplicateName
  | ErrImageUnknown
  | ErrImageUsedByContainer
  | ErrInvalidBigDataName
  | ErrLayerHasChildren
  | ErrLayerNotMounted
  | ErrLayerUnknown
  | ErrLayerUsedByContainer
  | ErrLayerUsedByImage
  | ErrNotAContainer
  | ErrNotALayer
  | ErrNotAnID
  | ErrNotAnImage
  | ErrParentIsContainer
  | ErrSizeUnknown
  | ErrStoreIsReadOnly
  | ErrNotSupported
  | ErrInvalidMappings
  | ErrNoAvailableIDs
  | ErrEmptyPrefix
  | ErrIllegalChar
  | ErrNotExist
  | ErrAmbiguousPrefix
  | ErrIO
  | ErrFmt string
  | Panic string

type_synonym 'a res = "go_error + 'a"

text \<open>\<open>if err != nil \<open>{\<close> return err \<open>}\<close>\<close>: run the continuation on success only.\<close>

definition and_then :: "'a res \<Rightarrow> ('a \<Rightarrow> 'b res) \<Rightarrow> 'b res" where
  "and_then r f = (case r of Inl e \<Rightarrow> Inl e | Inr x \<Rightarrow> f x)"

lemma and_then_simps [simp, go_simps]:
  "and_then (Inl e) f = Inl e"
  "and_then (Inr x) f = f x"
  by (simp_all add: and_then_def)

lemma and_then_Inr_iff:
  "and_then r f = Inr y \<longleftrightarrow> (\<exists>x. r = Inr x \<and> f x = Inr y)"
  by (cases r) auto

lemma and_then_Inl_iff:
  "and_then r f = Inl e \<longleftrightarrow> r = Inl e \<or> (\<exists>x. r = Inr x \<and> f x = Inl e)"
  by (cases r) auto

section \<open>Sorting\<close>

text \<open>
  \<open>slices.SortFunc\<close> with a comparison of integer keys: some permutation in ascending order
  of the keys. The sort is not stable, so the order of equal keys stays open; the models
  take the sorting function as an argument with this contract.
\<close>

definition sorts_by :: "('a \<Rightarrow> int) \<Rightarrow> ('a list \<Rightarrow> 'a list) \<Rightarrow> bool" where
  "sorts_by key sorter \<longleftrightarrow> (\<forall>xs. mset (sorter xs) = mset xs \<and> sorted (map key (sorter xs)))"

lemma sorts_by_sort_key: "sorts_by key (sort_key key)"
  by (simp add: sorts_by_def)

lemma sorts_byD:
  assumes "sorts_by key sorter"
  shows "mset (sorter xs) = mset xs" and "set (sorter xs) = set xs" and "sorted (map key (sorter xs))"
    and "length (sorter xs) = length xs" and "distinct (sorter xs) \<longleftrightarrow> distinct xs"
  using assms by (auto simp: sorts_by_def dest: mset_eq_setD mset_eq_length mset_eq_imp_distinct_iff)

section \<open>Binary search\<close>

text \<open>
  \<open>sort.Search(n, f)\<close> of the Go standard library: the loop keeps \<open>[i, j)\<close> and halves it.
\<close>

function sort_Search_loop :: "(nat \<Rightarrow> bool) \<Rightarrow> nat \<Rightarrow> nat \<Rightarrow> nat" where
  "sort_Search_loop f i j =
     (if i < j then
        (let h = (i + j) div 2
         in if \<not> f h then sort_Search_loop f (Suc h) j else sort_Search_loop f i h)
      else i)"
  by pat_completeness auto
termination
  by (relation "measure (\<lambda>(f, i, j). j - i)") auto

declare sort_Search_loop.simps [simp del]

definition sort_Search :: "nat \<Rightarrow> (nat \<Rightarrow> bool) \<Rightarrow> nat" where
  "sort_Search n f = sort_Search_loop f 0 n"

lemma sort_Search_loop_correct:
  assumes "i \<le> j" and mono: "\<forall>k l. k \<le> l \<and> l < n \<and> f k \<longrightarrow> f l" and "j \<le> n"
    and "\<forall>k<i. \<not> f k" and "\<forall>k. j \<le> k \<and> k < n \<longrightarrow> f k"
  shows "sort_Search_loop f i j \<le> n
    \<and> (\<forall>k < sort_Search_loop f i j. \<not> f k)
    \<and> (\<forall>k. sort_Search_loop f i j \<le> k \<and> k < n \<longrightarrow> f k)"
  using assms(1,3-5)
proof (induction "j - i" arbitrary: i j rule: less_induct)
  case less
  show ?case
  proof (cases "i < j")
    case False
    then have "i = j" using less.prems(1) by simp
    with less.prems show ?thesis by (simp add: sort_Search_loop.simps [of f j j])
  next
    case True
    define h where "h = (i + j) div 2"
    have h: "i \<le> h" "h < j" using True by (auto simp: h_def)
    show ?thesis
    proof (cases "f h")
      case fh: True
      have "sort_Search_loop f i j = sort_Search_loop f i h"
        using True fh by (subst sort_Search_loop.simps) (simp add: Let_def h_def [symmetric])
      moreover have "\<forall>k. h \<le> k \<and> k < n \<longrightarrow> f k" using mono fh by blast
      moreover have "h - i < j - i" "h \<le> n" using h True less.prems(2) by auto
      ultimately show ?thesis using less.hyps [of h i, OF _ h(1) _ less.prems(3)] by metis
    next
      case nfh: False
      have "sort_Search_loop f i j = sort_Search_loop f (Suc h) j"
        using True nfh by (subst sort_Search_loop.simps) (simp add: Let_def h_def [symmetric])
      moreover have "\<forall>k<Suc h. \<not> f k"
      proof (intro allI impI notI)
        fix k
        assume "k < Suc h" "f k"
        moreover have "h < n" using h less.prems(2) by simp
        ultimately show False using mono nfh by (auto simp: less_Suc_eq_le)
      qed
      moreover have "j - Suc h < j - i" using h True by auto
      ultimately show ?thesis
        using less.hyps [of j "Suc h", OF _ Suc_leI [OF h(2)] less.prems(2) _ less.prems(4)] by metis
    qed
  qed
qed

lemma sort_Search_correct:
  assumes "\<forall>k l. k \<le> l \<and> l < n \<and> f k \<longrightarrow> f l"
  shows "sort_Search n f \<le> n \<and> (\<forall>k < sort_Search n f. \<not> f k)
    \<and> (\<forall>k. sort_Search n f \<le> k \<and> k < n \<longrightarrow> f k)"
  unfolding sort_Search_def
  by (rule sort_Search_loop_correct) (use assms in auto)

end
