(* ===== verification/Go_Strings.thy ===== *)
theory Go_Strings
  imports Go_Prelude
begin

text \<open>
  The functions of the Go packages \<open>strings\<close>, \<open>strconv\<close> and \<open>fmt\<close> that the modelled
  code calls on byte strings: splitting at a one-byte separator, trimming ASCII space,
  parsing and printing numbers in a base up to ten. The results show that printing and
  parsing, and joining and splitting, are inverse to each other.
\<close>

section \<open>Splitting and trimming\<close>

text \<open>\<open>strings.Split(s, sep)\<close> for a separator of one byte; \<open>Split("", sep)\<close> is \<open>[""]\<close>.\<close>

fun strings_Split :: "string \<Rightarrow> char \<Rightarrow> string list" where
  "strings_Split [] c = [[]]"
| "strings_Split (x # xs) c =
     (if x = c then [] # strings_Split xs c
      else (case strings_Split xs c of
              [] \<Rightarrow> [[x]]
            | y # ys \<Rightarrow> (x # y) # ys))"

text \<open>\<open>strings.Join\<close>.\<close>

fun strings_Join :: "string list \<Rightarrow> string \<Rightarrow> string" where
  "strings_Join [] sep = []"
| "strings_Join [x] sep = x"
| "strings_Join (x # y # ys) sep = x @ sep @ strings_Join (y # ys) sep"

text \<open>\<open>strings.TrimSpace\<close> on ASCII text.\<close>

definition is_space :: "char \<Rightarrow> bool" where
  "is_space c \<longleftrightarrow> c \<in> set [CHR '' '', CHR 0x09, CHR 0x0A, CHR 0x0B, CHR 0x0C, CHR 0x0D]"

definition strings_TrimSpace :: "string \<Rightarrow> string" where
  "strings_TrimSpace s = rev (dropWhile is_space (rev (dropWhile is_space s)))"

definition strings_HasPrefix :: "string \<Rightarrow> string \<Rightarrow> bool" where
  "strings_HasPrefix s p \<longleftrightarrow> prefix p s"

lemma strings_Split_not_Nil [simp]: "strings_Split s c \<noteq> []"
  by (induction s) (auto split: list.splits)

lemma strings_Split_no_sep [simp]: "c \<notin> set s \<Longrightarrow> strings_Split s c = [s]"
  by (induction s) auto

lemma strings_Split_append [simp]:
  "c \<notin> set s \<Longrightarrow> strings_Split (s @ c # t) c = s # strings_Split t c"
  by (induction s) auto

lemma strings_Join_Cons:
  "xs \<noteq> [] \<Longrightarrow> strings_Join (x # xs) sep = x @ sep @ strings_Join xs sep"
  by (cases xs) auto

lemma strings_Split_Join:
  assumes "xs \<noteq> []" and "\<forall>x \<in> set xs. c \<notin> set x"
  shows "strings_Split (strings_Join xs [c]) c = xs"
  using assms
proof (induction xs)
  case (Cons x xs)
  then show ?case by (cases "xs = []") (simp_all add: strings_Join_Cons)
qed simp

lemma strings_Join_Split: "strings_Join (strings_Split s c) [c] = s"
proof (induction s)
  case (Cons x xs)
  then show ?case
    by (cases "strings_Split xs c"; cases "tl (strings_Split xs c)") (auto simp: strings_Join_Cons)
qed simp

section \<open>Numbers\<close>

text \<open>
  \<open>strconv.ParseUint(s, base, bits)\<close> for a base of at most ten: no sign, no underscore,
  at least one digit, and a value that fits; \<open>None\<close> stands for the \<open>NumError\<close>.
\<close>

definition digit_val :: "nat \<Rightarrow> char \<Rightarrow> nat option" where
  "digit_val base c =
     (let n = of_char c :: nat
      in if 48 \<le> n \<and> n < 58 \<and> n - 48 < base then Some (n - 48) else None)"

fun parse_digits :: "nat \<Rightarrow> nat \<Rightarrow> string \<Rightarrow> nat option" where
  "parse_digits base n [] = Some n"
| "parse_digits base n (c # cs) =
     (case digit_val base c of
        None \<Rightarrow> None
      | Some d \<Rightarrow> parse_digits base (n * base + d) cs)"

definition strconv_ParseUint :: "string \<Rightarrow> nat \<Rightarrow> nat \<Rightarrow> nat option" where
  "strconv_ParseUint s base bits =
     (if s = [] then None
      else case parse_digits base 0 s of
        None \<Rightarrow> None
      | Some n \<Rightarrow> if n < 2 ^ bits then Some n else None)"

text \<open>\<open>strconv.Atoi\<close> with a 64-bit \<open>int\<close>: an optional sign, then decimal digits.\<close>

definition strconv_Atoi :: "string \<Rightarrow> int option" where
  "strconv_Atoi s =
     (case s of
        [] \<Rightarrow> None
      | c # cs \<Rightarrow>
          (let neg = (c = CHR ''-'');
               body = (if c = CHR ''-'' \<or> c = CHR ''+'' then cs else s)
           in case strconv_ParseUint body 10 64 of
                None \<Rightarrow> None
              | Some n \<Rightarrow>
                  if neg then (if n \<le> 2 ^ 63 then Some (- int n) else None)
                  else if n < 2 ^ 63 then Some (int n) else None))"

text \<open>\<open>%d\<close> and \<open>%o\<close> of \<open>fmt\<close>, with the zero padding of \<open>%04o\<close>.\<close>

definition digit_char :: "nat \<Rightarrow> char" where
  "digit_char d = char_of (48 + d)"

function format_nat :: "nat \<Rightarrow> nat \<Rightarrow> string" where
  "format_nat base n =
     (if base < 2 \<or> n < base then [digit_char n]
      else format_nat base (n div base) @ [digit_char (n mod base)])"
  by pat_completeness auto
termination
  by (relation "measure snd") auto

declare format_nat.simps [simp del]

definition format_int :: "int \<Rightarrow> string" where
  "format_int i = (if i < 0 then CHR ''-'' # format_nat 10 (nat (- i)) else format_nat 10 (nat i))"

definition pad_zero :: "nat \<Rightarrow> string \<Rightarrow> string" where
  "pad_zero w s = replicate (w - length s) (CHR ''0'') @ s"

subsection \<open>Printing, then parsing\<close>

lemma digit_val_char: "d < base \<Longrightarrow> base \<le> 10 \<Longrightarrow> digit_val base (digit_char d) = Some d"
  by (simp add: digit_val_def digit_char_def)

lemma parse_digits_append:
  "parse_digits base n (xs @ ys) =
     (case parse_digits base n xs of None \<Rightarrow> None | Some m \<Rightarrow> parse_digits base m ys)"
  by (induction xs arbitrary: n) (auto split: option.splits)

lemma parse_digits_zeros: "2 \<le> base \<Longrightarrow> parse_digits base 0 (replicate k (CHR ''0'')) = Some 0"
  by (induction k) (simp_all add: digit_val_def)

lemma format_nat_not_Nil [simp]: "format_nat base n \<noteq> []"
  by (subst format_nat.simps) auto

lemma parse_format_nat:
  assumes "2 \<le> base" and "base \<le> 10"
  shows "parse_digits base 0 (format_nat base n) = Some n"
  using assms
proof (induction base n rule: format_nat.induct)
  case (1 base n)
  show ?case
  proof (cases "n < base")
    case True
    then show ?thesis using 1 by (subst format_nat.simps) (simp add: digit_val_char)
  next
    case False
    have "format_nat base n = format_nat base (n div base) @ [digit_char (n mod base)]"
      using False 1(2) by (subst format_nat.simps) simp
    moreover have "parse_digits base 0 (format_nat base (n div base)) = Some (n div base)"
      using 1 False by simp
    moreover have "n mod base < base" using 1(2) by simp
    ultimately show ?thesis using 1(2,3) by (simp add: parse_digits_append digit_val_char)
  qed
qed

lemma ParseUint_format:
  "2 \<le> base \<Longrightarrow> base \<le> 10 \<Longrightarrow> n < 2 ^ bits \<Longrightarrow>
     strconv_ParseUint (format_nat base n) base bits = Some n"
  by (simp add: strconv_ParseUint_def parse_format_nat)

lemma ParseUint_pad:
  assumes "2 \<le> base" and "base \<le> 10" and "n < 2 ^ bits"
  shows "strconv_ParseUint (pad_zero w (format_nat base n)) base bits = Some n"
  using assms
  by (simp add: strconv_ParseUint_def pad_zero_def parse_digits_append parse_digits_zeros parse_format_nat)

lemma format_nat_chars:
  assumes "base \<le> 10" and "2 \<le> base" and "c \<in> set (format_nat base n)"
  shows "48 \<le> (of_char c :: nat) \<and> (of_char c :: nat) < 58"
  using assms
proof (induction base n rule: format_nat.induct)
  case (1 base n)
  have digit: "48 \<le> (of_char (digit_char d) :: nat) \<and> (of_char (digit_char d) :: nat) < 58" if "d < 10" for d
    using that by (simp add: digit_char_def)
  show ?case
  proof (cases "n < base")
    case True
    then show ?thesis using 1 digit [of n] format_nat.simps [of base n] by simp
  next
    case False
    then have "c \<in> set (format_nat base (n div base)) \<or> c = digit_char (n mod base)"
      using 1(3,4) format_nat.simps [of base n] by auto
    moreover have "n mod base < 10"
      using 1(2,3) by (metis mod_less_divisor order_less_le_trans zero_less_numeral)
    ultimately show ?thesis using 1 False digit by auto
  qed
qed

lemma format_nat_no_sep:
  assumes "base \<le> 10" and "2 \<le> base" and "of_char c < (48::nat) \<or> 58 \<le> (of_char c :: nat)"
  shows "c \<notin> set (format_nat base n)" and "c \<noteq> CHR ''0'' \<Longrightarrow> c \<notin> set (pad_zero w (format_nat base n))"
  using format_nat_chars [OF assms(1,2)] assms(3) by (fastforce simp: pad_zero_def)+

lemma Atoi_format_nat: "n < 2 ^ 63 \<Longrightarrow> strconv_Atoi (format_nat 10 n) = Some (int n)"
proof -
  assume n: "n < 2 ^ 63"
  obtain c cs where cs: "format_nat 10 n = c # cs" by (cases "format_nat 10 n") auto
  then have "c \<in> set (format_nat 10 n)" by simp
  then have "c \<noteq> CHR ''-''" "c \<noteq> CHR ''+''" using format_nat_no_sep(1) [of 10 _ n] by fastforce+
  moreover have "strconv_ParseUint (c # cs) 10 64 = Some n"
    using ParseUint_format [of 10 n 64] n cs by simp
  ultimately show ?thesis using n cs by (simp add: strconv_Atoi_def)
qed

section \<open>Paths\<close>

text \<open>\<open>filepath.Clean\<close>: the elements of a path without \<open>.\<close> and resolved \<open>..\<close>, last element first.\<close>

fun clean_parts :: "bool \<Rightarrow> string list \<Rightarrow> string list \<Rightarrow> string list" where
  "clean_parts rooted acc [] = acc"
| "clean_parts rooted acc (c # cs) =
     clean_parts rooted
       (if c = '''' \<or> c = ''.'' then acc
        else if c = ''..''
        then (case acc of
                [] \<Rightarrow> if rooted then [] else [c]
              | a # as \<Rightarrow> if a = ''..'' then c # acc else as)
        else c # acc) cs"

definition filepath_Clean :: "string \<Rightarrow> string" where
  "filepath_Clean path =
     (let rooted = strings_HasPrefix path ''/'';
          s = strings_Join (rev (clean_parts rooted [] (strings_Split path (CHR ''/'')))) ''/''
      in if rooted then ''/'' @ s else if s = '''' then ''.'' else s)"

end
