(* ===== verification/Id_Tools.thy ===== *)
theory Id_Tools
  imports Go_Strings "HOL-Library.Word"
begin

text \<open>
  Package \<open>storage/pkg/idtools\<close>: user namespace mappings, their translation functions, the
  mapping built from subordinate id ranges, the allocation of a new subordinate range, the
  parser of the mapping options and the textual form of the ownership override attribute.

  Ids are Go \<open>int\<close>s that hold 32-bit values, and sums of two of them stay below the 64-bit
  limit, so they are integers here; file modes are 32-bit words.
\<close>

section \<open>Mappings\<close>

record IDMap =
  ContainerID :: int
  HostID :: int
  Size :: int

abbreviation mk_IDMap :: "int \<Rightarrow> int \<Rightarrow> int \<Rightarrow> IDMap" where
  "mk_IDMap c h n \<equiv> \<lparr>ContainerID = c, HostID = h, Size = n\<rparr>"

record subIDRange =
  Start :: int
  Length :: int

record IDPair =
  UID :: int
  GID :: int

text \<open>\<open>IDMappings\<close>: a \<open>nil\<close> slice means the identity, so the slices are options.\<close>

record IDMappings =
  map_uids :: "IDMap list option"
  map_gids :: "IDMap list option"

fun RawToContainer_loop :: "int \<Rightarrow> IDMap list \<Rightarrow> int res" where
  "RawToContainer_loop hostID [] = Inl (ErrFmt ''host ID cannot be mapped to a container ID'')"
| "RawToContainer_loop hostID (m # ms) =
     (if HostID m \<le> hostID \<and> hostID \<le> HostID m + Size m - 1
      then Inr (ContainerID m + (hostID - HostID m))
      else RawToContainer_loop hostID ms)"

definition RawToContainer :: "int \<Rightarrow> IDMap list option \<Rightarrow> int res" where
  "RawToContainer hostID idMap =
     (case idMap of None \<Rightarrow> Inr hostID | Some ms \<Rightarrow> RawToContainer_loop hostID ms)"

fun RawToHost_loop :: "int \<Rightarrow> IDMap list \<Rightarrow> int res" where
  "RawToHost_loop contID [] = Inl (ErrFmt ''container ID cannot be mapped to a host ID'')"
| "RawToHost_loop contID (m # ms) =
     (if ContainerID m \<le> contID \<and> contID \<le> ContainerID m + Size m - 1
      then Inr (HostID m + (contID - ContainerID m))
      else RawToHost_loop contID ms)"

definition RawToHost :: "int \<Rightarrow> IDMap list option \<Rightarrow> int res" where
  "RawToHost contID idMap =
     (case idMap of None \<Rightarrow> Inr contID | Some ms \<Rightarrow> RawToHost_loop contID ms)"

definition root_id :: "IDMap list option \<Rightarrow> int res" where
  "root_id idMap =
     (case idMap of
        Some [m] \<Rightarrow> if Size m = 1 then Inr (HostID m) else RawToHost 0 idMap
      | _ \<Rightarrow> RawToHost 0 idMap)"

definition GetRootUIDGID :: "IDMap list option \<Rightarrow> IDMap list option \<Rightarrow> (int \<times> int) res" where
  "GetRootUIDGID uidMap gidMap =
     and_then (root_id uidMap) (\<lambda>uid. and_then (root_id gidMap) (\<lambda>gid. Inr (uid, gid)))"

text \<open>\<open>RootPair\<close> ignores the error and keeps the ids returned with it, which are -1.\<close>

definition RootPair :: "IDMappings \<Rightarrow> IDPair" where
  "RootPair i =
     (case GetRootUIDGID (map_uids i) (map_gids i) of
        Inl _ \<Rightarrow> \<lparr>UID = -1, GID = -1\<rparr>
      | Inr (uid, gid) \<Rightarrow> \<lparr>UID = uid, GID = gid\<rparr>)"

definition ToHost :: "IDMappings \<Rightarrow> IDPair \<Rightarrow> IDPair res" where
  "ToHost i pair =
     and_then (RawToHost (UID pair) (map_uids i)) (\<lambda>uid.
     and_then (RawToHost (GID pair) (map_gids i)) (\<lambda>gid. Inr \<lparr>UID = uid, GID = gid\<rparr>))"

text \<open>
  \<open>ToHostOverflow\<close>, with the overflow ids of the kernel as arguments. It never fails.
\<close>

definition ToHostOverflow :: "int \<Rightarrow> int \<Rightarrow> IDMappings \<Rightarrow> IDPair \<Rightarrow> IDPair" where
  "ToHostOverflow overflowUID overflowGID i pair =
     (let target = RootPair i;
          uid = (if UID pair \<noteq> UID target
                 then (case RawToHost (UID pair) (map_uids i) of Inl _ \<Rightarrow> overflowUID | Inr u \<Rightarrow> u)
                 else UID target);
          gid = (if GID pair \<noteq> GID target
                 then (case RawToHost (GID pair) (map_gids i) of Inl _ \<Rightarrow> overflowGID | Inr g \<Rightarrow> g)
                 else GID target)
      in \<lparr>UID = uid, GID = gid\<rparr>)"

definition ToContainer :: "IDMappings \<Rightarrow> IDPair \<Rightarrow> (int \<times> int) res" where
  "ToContainer i pair =
     and_then (RawToContainer (UID pair) (map_uids i)) (\<lambda>uid.
     and_then (RawToContainer (GID pair) (map_gids i)) (\<lambda>gid. Inr (uid, gid)))"

definition IDMappings_Empty :: "IDMappings \<Rightarrow> bool" where
  "IDMappings_Empty i \<longleftrightarrow>
     (case map_uids i of None \<Rightarrow> True | Some us \<Rightarrow> us = [])
     \<and> (case map_gids i of None \<Rightarrow> True | Some gs \<Rightarrow> gs = [])"

section \<open>Subordinate ranges\<close>

fun createIDMap_loop :: "int \<Rightarrow> subIDRange list \<Rightarrow> IDMap list" where
  "createIDMap_loop containerID [] = []"
| "createIDMap_loop containerID (r # rs) =
     mk_IDMap containerID (Start r) (Length r) # createIDMap_loop (containerID + Length r) rs"

definition createIDMap :: "(subIDRange list \<Rightarrow> subIDRange list) \<Rightarrow> subIDRange list \<Rightarrow> IDMap list" where
  "createIDMap sorter subidRanges = createIDMap_loop 0 (sorter subidRanges)"

text \<open>
  \<open>parseSubidFile\<close> on the lines the scanner yields; \<open>uidstr\<close> is the numeric id of the
  user, empty when the lookup fails, and \<open>scanErr\<close> the error the scanner ends with.
\<close>

fun parseSubidFile_loop :: "string \<Rightarrow> string \<Rightarrow> string list \<Rightarrow> subIDRange list res" where
  "parseSubidFile_loop username uidstr [] = Inr []"
| "parseSubidFile_loop username uidstr (line # lines) =
     (let txt = strings_TrimSpace line
      in if txt = '''' \<or> strings_HasPrefix txt ''#'' then parseSubidFile_loop username uidstr lines
         else case strings_Split txt (CHR '':'') of
           [p0, p1, p2] \<Rightarrow>
             if p0 = username \<or> username = ''ALL'' \<or> (p0 = uidstr \<and> p0 \<noteq> '''')
             then (case (strconv_Atoi p1, strconv_Atoi p2) of
                     (Some startid, Some len) \<Rightarrow>
                       and_then (parseSubidFile_loop username uidstr lines)
                         (\<lambda>rest. Inr (\<lparr>Start = startid, Length = len\<rparr> # rest))
                   | _ \<Rightarrow> Inl (ErrFmt ''string to int conversion failed during subuid/gid parsing''))
             else parseSubidFile_loop username uidstr lines
         | _ \<Rightarrow> Inl (ErrFmt ''cannot parse subuid/gid information''))"

definition parseSubidFile ::
  "string \<Rightarrow> (string list \<times> go_error option) res \<Rightarrow> string \<Rightarrow> subIDRange list res" where
  "parseSubidFile uidstr file username =
     and_then file (\<lambda>(lines, scanErr).
       and_then (parseSubidFile_loop username uidstr lines) (\<lambda>rs.
         case scanErr of Some e \<Rightarrow> Inl e | None \<Rightarrow> Inr rs))"

definition NewIDMappings ::
  "(subIDRange list \<Rightarrow> subIDRange list) \<Rightarrow> subIDRange list res \<Rightarrow> subIDRange list res \<Rightarrow> IDMappings res" where
  "NewIDMappings sorter readSubuid readSubgid =
     and_then readSubuid (\<lambda>subuidRanges.
     and_then readSubgid (\<lambda>subgidRanges.
       if subuidRanges = [] then Inl (ErrFmt ''no subuid ranges found'')
       else if subgidRanges = [] then Inl (ErrFmt ''no subgid ranges found'')
       else Inr \<lparr>map_uids = Some (createIDMap sorter subuidRanges),
                 map_gids = Some (createIDMap sorter subgidRanges)\<rparr>))"

definition defaultRangeLen :: int where
  "defaultRangeLen = 65536"

definition defaultRangeStart :: int where
  "defaultRangeStart = 100000"

definition wouldOverlap :: "subIDRange \<Rightarrow> int \<Rightarrow> bool" where
  "wouldOverlap arange ID =
     (let low = ID; high = ID + defaultRangeLen
      in (Start arange \<le> low \<and> low \<le> Start arange + Length arange)
         \<or> (high \<le> Start arange + Length arange \<and> Start arange \<le> high))"

definition findNextRangeStart :: "subIDRange list \<Rightarrow> int" where
  "findNextRangeStart rangeList =
     foldl (\<lambda>startID arange. if wouldOverlap arange startID then Start arange + Length arange else startID)
       defaultRangeStart rangeList"

definition findNextUIDRange ::
  "(subIDRange list \<Rightarrow> subIDRange list) \<Rightarrow> subIDRange list res \<Rightarrow> int res" where
  "findNextUIDRange sorter readSubuid =
     and_then readSubuid (\<lambda>ranges. Inr (findNextRangeStart (sorter ranges)))"

fun consecutive :: "('a \<Rightarrow> int) \<Rightarrow> ('a \<Rightarrow> int) \<Rightarrow> 'a list \<Rightarrow> bool" where
  "consecutive start len (a # b # ms) =
     (start b = start a + len a \<and> consecutive start len (b # ms))"
| "consecutive start len ms = True"

text \<open>
  \<open>IsContiguous\<close> sorts the slice of its caller in place; the model returns the verdict
  and the slice as the call leaves it.
\<close>

definition IsContiguous ::
  "(IDMap list \<Rightarrow> IDMap list) \<Rightarrow> (IDMap list \<Rightarrow> IDMap list) \<Rightarrow> IDMap list \<Rightarrow> bool \<times> IDMap list" where
  "IsContiguous sortHost sortContainer mappings =
     (if length mappings < 2 then (True, mappings)
      else let byHost = sortHost mappings
           in if \<not> consecutive HostID Size byHost then (False, byHost)
              else let byContainer = sortContainer byHost
                   in (consecutive ContainerID Size byContainer, byContainer))"

section \<open>The parser of mapping options\<close>

definition parse_uint32 :: "string \<Rightarrow> int res" where
  "parse_uint32 v =
     (case strconv_ParseUint v 10 32 of
        None \<Rightarrow> Inl (ErrFmt ''parsing id map value'')
      | Some n \<Rightarrow> Inr (int n))"

definition parseTriple :: "string \<Rightarrow> string \<Rightarrow> string \<Rightarrow> (int \<times> int \<times> int) res" where
  "parseTriple a b c =
     and_then (parse_uint32 a) (\<lambda>cid.
     and_then (parse_uint32 b) (\<lambda>hid.
     and_then (parse_uint32 c) (\<lambda>sz. Inr (cid, hid, sz))))"

abbreviation malformed :: go_error where
  "malformed \<equiv> ErrFmt ''initializing ID mappings: setting is malformed''"

text \<open>The inner loop over the triples of one specification.\<close>

fun ParseIDMap_triples :: "string list \<Rightarrow> IDMap list res" where
  "ParseIDMap_triples (a # b # c # rest) =
     (case parseTriple a b c of
        Inl _ \<Rightarrow> Inl malformed
      | Inr (cid, hid, sz) \<Rightarrow>
          and_then (ParseIDMap_triples rest) (\<lambda>ms. Inr (mk_IDMap cid hid sz # ms)))"
| "ParseIDMap_triples _ = Inr []"

text \<open>\<open>ParseIDMap\<close> on a build with a 64-bit \<open>uint\<close>.\<close>

fun ParseIDMap :: "string list \<Rightarrow> IDMap list res" where
  "ParseIDMap [] = Inr []"
| "ParseIDMap (idMapSpec # specs) =
     (if idMapSpec = '''' then ParseIDMap specs
      else let idSpec = strings_Split idMapSpec (CHR '':'')
           in if length idSpec mod 3 \<noteq> 0 then Inl malformed
              else and_then (ParseIDMap_triples idSpec) (\<lambda>ms.
                   and_then (ParseIDMap specs) (\<lambda>ms'. Inr (ms @ ms'))))"

section \<open>Translation\<close>

text \<open>The ids a mapping covers on either side, and mappings whose ranges do not meet.\<close>

definition container_range :: "IDMap \<Rightarrow> int set" where
  "container_range m = {ContainerID m ..< ContainerID m + Size m}"

definition host_range :: "IDMap \<Rightarrow> int set" where
  "host_range m = {HostID m ..< HostID m + Size m}"

fun disjoint_ranges :: "('a \<Rightarrow> int set) \<Rightarrow> 'a list \<Rightarrow> bool" where
  "disjoint_ranges f [] = True"
| "disjoint_ranges f (m # ms) = ((\<forall>m' \<in> set ms. f m \<inter> f m' = {}) \<and> disjoint_ranges f ms)"

lemma RawToHost_loop_Inr:
  "RawToHost_loop c ms = Inr h \<Longrightarrow>
     \<exists>m \<in> set ms. c \<in> container_range m \<and> h = HostID m + (c - ContainerID m)"
  by (induction ms) (auto simp: container_range_def split: if_splits)

lemma RawToContainer_loop_Inr:
  "RawToContainer_loop h ms = Inr c \<Longrightarrow>
     \<exists>m \<in> set ms. h \<in> host_range m \<and> c = ContainerID m + (h - HostID m)"
  by (induction ms) (auto simp: host_range_def split: if_splits)

lemma RawToHost_loop_mem:
  "disjoint_ranges container_range ms \<Longrightarrow> m \<in> set ms \<Longrightarrow> c \<in> container_range m \<Longrightarrow>
     RawToHost_loop c ms = Inr (HostID m + (c - ContainerID m))"
  by (induction ms) (force simp: container_range_def)+

lemma RawToContainer_loop_mem:
  "disjoint_ranges host_range ms \<Longrightarrow> m \<in> set ms \<Longrightarrow> h \<in> host_range m \<Longrightarrow>
     RawToContainer_loop h ms = Inr (ContainerID m + (h - HostID m))"
  by (induction ms) (force simp: host_range_def)+

text \<open>
  C7: on a mapping whose container ranges are pairwise disjoint and whose host ranges are
  pairwise disjoint, \<open>RawToHost\<close> and \<open>RawToContainer\<close> are inverse to each other: one
  sends a container id to a host id exactly when the other sends that host id back. The
  \<open>nil\<close> mapping is the identity both ways.
\<close>

theorem RawToHost_RawToContainer:
  assumes "\<forall>m. ms = Some m \<longrightarrow> disjoint_ranges container_range m \<and> disjoint_ranges host_range m"
  shows "RawToHost c ms = Inr h \<longleftrightarrow> RawToContainer h ms = Inr c"
proof (cases ms)
  case (Some l)
  have "RawToContainer_loop h l = Inr c" if "RawToHost_loop c l = Inr h"
    using RawToHost_loop_Inr [OF that] RawToContainer_loop_mem [of l _ h] assms Some
    by (auto simp: container_range_def host_range_def)
  moreover have "RawToHost_loop c l = Inr h" if "RawToContainer_loop h l = Inr c"
    using RawToContainer_loop_Inr [OF that] RawToHost_loop_mem [of l _ c] assms Some
    by (auto simp: container_range_def host_range_def)
  ultimately show ?thesis using Some by (auto simp: RawToHost_def RawToContainer_def)
qed (auto simp: RawToHost_def RawToContainer_def)

theorem RawToHost_RawToContainer_witness:
  "RawToHost 1003 (Some [mk_IDMap 0 100000 1000, mk_IDMap 1000 500000 10]) = Inr 500003
   \<and> RawToContainer 500003 (Some [mk_IDMap 0 100000 1000, mk_IDMap 1000 500000 10]) = Inr 1003"
proof -
  let ?ms = "[mk_IDMap 0 100000 1000, mk_IDMap 1000 500000 10]"
  have "RawToHost 1003 (Some ?ms) = Inr 500003" by (simp add: RawToHost_def)
  moreover have "disjoint_ranges container_range ?ms \<and> disjoint_ranges host_range ?ms"
    by (auto simp: container_range_def host_range_def)
  ultimately show ?thesis using RawToHost_RawToContainer [of "Some ?ms" 1003 500003] by simp
qed

section \<open>The mapping of subordinate ranges\<close>

definition sub_range :: "subIDRange \<Rightarrow> int set" where
  "sub_range r = {Start r ..< Start r + Length r}"

lemma createIDMap_loop_host:
  "(\<Union>m \<in> set (createIDMap_loop k rs). host_range m) = (\<Union>r \<in> set rs. sub_range r)"
  by (induction rs arbitrary: k) (auto simp: host_range_def sub_range_def)

lemma createIDMap_loop_container:
  "\<forall>r \<in> set rs. 0 \<le> Length r \<Longrightarrow>
     (\<Union>m \<in> set (createIDMap_loop k rs). container_range m) = {k ..< k + sum_list (map Length rs)}"
proof (induction rs arbitrary: k)
  case (Cons r rs)
  have "0 \<le> sum_list (map Length rs)" using Cons.prems by (intro sum_list_nonneg) auto
  with Cons show ?case by (auto simp: container_range_def)
qed simp

lemma createIDMap_loop_ge:
  "\<forall>r \<in> set rs. 0 \<le> Length r \<Longrightarrow> m \<in> set (createIDMap_loop k rs) \<Longrightarrow> k \<le> ContainerID m"
proof (induction rs arbitrary: k)
  case (Cons r rs)
  then show ?case by (cases "m \<in> set (createIDMap_loop (k + Length r) rs)") fastforce+
qed simp

lemma createIDMap_loop_disjoint:
  "\<forall>r \<in> set rs. 0 \<le> Length r \<Longrightarrow> disjoint_ranges container_range (createIDMap_loop k rs)"
proof (induction rs arbitrary: k)
  case (Cons r rs)
  then have "\<forall>m \<in> set (createIDMap_loop (k + Length r) rs). k + Length r \<le> ContainerID m"
    using createIDMap_loop_ge by auto
  then have "\<forall>m \<in> set (createIDMap_loop (k + Length r) rs).
      container_range (mk_IDMap k (Start r) (Length r)) \<inter> container_range m = {}"
    by (auto simp: container_range_def)
  with Cons show ?case by simp
qed simp

lemma createIDMap_loop_disjoint_host:
  "disjoint_ranges sub_range rs \<Longrightarrow> disjoint_ranges host_range (createIDMap_loop k rs)"
proof (induction rs arbitrary: k)
  case (Cons r rs)
  then have "sub_range r \<inter> (\<Union>m \<in> set (createIDMap_loop (k + Length r) rs). host_range m) = {}"
    by (auto simp: createIDMap_loop_host)
  moreover have "host_range (mk_IDMap k (Start r) (Length r)) = sub_range r"
    by (simp add: host_range_def sub_range_def)
  ultimately show ?case using Cons by auto
qed simp

lemma disjoint_ranges_mset: "mset xs = mset ys \<Longrightarrow> disjoint_ranges f xs \<Longrightarrow> disjoint_ranges f ys"
proof (induction xs arbitrary: ys)
  case (Cons x xs)
  from Cons.prems(1) have "x \<in> set ys" by (metis list.set_intros(1) mset_eq_setD)
  then obtain as bs where ys: "ys = as @ x # bs" by (auto dest: split_list)
  with Cons.prems(1) have m: "mset xs = mset (as @ bs)" by simp
  then have s: "set xs = set (as @ bs)" by (rule mset_eq_setD)
  have "disjoint_ranges f (as @ bs)" using Cons.IH m Cons.prems(2) by simp
  moreover have "\<forall>m \<in> set (as @ bs). f x \<inter> f m = {}" using s Cons.prems(2) by simp
  ultimately show ?case unfolding ys by (induction as) auto
qed simp

lemma createIDMap_disjoint:
  assumes "sorts_by Start sorter"
  shows "\<forall>r \<in> set rs. 0 \<le> Length r \<Longrightarrow> disjoint_ranges container_range (createIDMap sorter rs)"
    and "disjoint_ranges sub_range rs \<Longrightarrow> disjoint_ranges host_range (createIDMap sorter rs)"
  using sorts_byD(1,2) [OF assms, of rs] createIDMap_loop_disjoint [of "sorter rs" 0]
    createIDMap_loop_disjoint_host [of "sorter rs" 0] disjoint_ranges_mset [of rs "sorter rs" sub_range]
  by (auto simp: createIDMap_def)

lemma createIDMap_ranges:
  assumes "sorts_by Start sorter" and "\<forall>r \<in> set rs. 0 \<le> Length r"
  shows "(\<Union>m \<in> set (createIDMap sorter rs). container_range m) = {0 ..< sum_list (map Length rs)}"
    and "(\<Union>m \<in> set (createIDMap sorter rs). host_range m) = (\<Union>r \<in> set rs. sub_range r)"
proof -
  have "sum_list (map Length (sorter rs)) = sum_list (map Length rs)"
    using sorts_byD(1) [OF assms(1), of rs] by (metis mset_map sum_mset_sum_list)
  with sorts_byD(2) [OF assms(1), of rs] assms(2)
  show "(\<Union>m \<in> set (createIDMap sorter rs). container_range m) = {0 ..< sum_list (map Length rs)}"
    and "(\<Union>m \<in> set (createIDMap sorter rs). host_range m) = (\<Union>r \<in> set rs. sub_range r)"
    using createIDMap_loop_container [of "sorter rs" 0] createIDMap_loop_host [of 0 "sorter rs"]
    by (simp_all add: createIDMap_def)
qed

text \<open>Translation through disjoint container ranges, as a relation.\<close>

lemma RawToHost_Some_iff:
  assumes "disjoint_ranges container_range ms"
  shows "RawToHost c (Some ms) = Inr h \<longleftrightarrow>
    (\<exists>m \<in> set ms. c \<in> container_range m \<and> h = HostID m + (c - ContainerID m))"
  using RawToHost_loop_Inr [of c ms h] RawToHost_loop_mem [OF assms] by (auto simp: RawToHost_def)

lemma RawToHost_dom:
  assumes "disjoint_ranges container_range ms"
  shows "(\<exists>h. RawToHost c (Some ms) = Inr h) \<longleftrightarrow> c \<in> (\<Union>m \<in> set ms. container_range m)"
  by (auto simp: RawToHost_Some_iff [OF assms])

lemma RawToHost_range:
  assumes "disjoint_ranges container_range ms"
  shows "{h. \<exists>c. RawToHost c (Some ms) = Inr h} = (\<Union>m \<in> set ms. host_range m)"
proof -
  have "(\<exists>c. c \<in> container_range m \<and> h = HostID m + (c - ContainerID m)) \<longleftrightarrow> h \<in> host_range m" for h m
    by (auto simp: container_range_def host_range_def intro: exI [of _ "ContainerID m + (h - HostID m)"])
  then show ?thesis unfolding RawToHost_Some_iff [OF assms] by blast
qed

lemma RawToHost_inj:
  assumes "disjoint_ranges container_range ms" and "disjoint_ranges host_range ms"
    and "RawToHost c1 (Some ms) = Inr h" and "RawToHost c2 (Some ms) = Inr h"
  shows "c1 = c2"
proof -
  have "RawToContainer_loop h ms = Inr c" if "RawToHost c (Some ms) = Inr h" for c
    using that RawToContainer_loop_mem [OF assms(2), of _ h]
    by (auto simp: RawToHost_Some_iff [OF assms(1)] container_range_def host_range_def)
  with assms(3,4) show ?thesis by (metis sum.inject(2))
qed



section \<open>Printing and parsing mapping options\<close>

definition uint32_map :: "IDMap \<Rightarrow> bool" where
  "uint32_map m \<longleftrightarrow> (\<forall>v \<in> {ContainerID m, HostID m, Size m}. 0 \<le> v \<and> v < 2 ^ 32)"

text \<open>The form \<open>container:host:size\<close> of an option, several mappings joined by colons.\<close>

definition triple_strings :: "IDMap \<Rightarrow> string list" where
  "triple_strings m = [format_int (ContainerID m), format_int (HostID m), format_int (Size m)]"

definition format_spec :: "IDMap list \<Rightarrow> string" where
  "format_spec ms = strings_Join (concat (map triple_strings ms)) '':''"

lemma parse_uint32_format: "0 \<le> v \<Longrightarrow> v < 2 ^ 32 \<Longrightarrow> parse_uint32 (format_int v) = Inr v"
  using ParseUint_format [of 10 "nat v" 32] by (simp add: parse_uint32_def format_int_def)

lemma format_int_no_colon: "0 \<le> v \<Longrightarrow> CHR '':'' \<notin> set (format_int v)"
  using format_nat_no_sep(1) [of 10 "CHR '':''" "nat v"] by (simp add: format_int_def)

lemma triples_format:
  "\<forall>m \<in> set ms. uint32_map m \<Longrightarrow> ParseIDMap_triples (concat (map triple_strings ms)) = Inr ms"
  by (induction ms)
    (auto simp: triple_strings_def uint32_map_def parseTriple_def parse_uint32_format)

lemma format_spec_split:
  assumes "ms \<noteq> []" and "\<forall>m \<in> set ms. uint32_map m"
  shows "strings_Split (format_spec ms) (CHR '':'') = concat (map triple_strings ms)"
    and "format_spec ms \<noteq> []"
proof -
  have "concat (map triple_strings ms) \<noteq> []" using assms(1) by (cases ms) (auto simp: triple_strings_def)
  moreover have "\<forall>x \<in> set (concat (map triple_strings ms)). CHR '':'' \<notin> set x"
    using assms(2) format_int_no_colon by (auto simp: triple_strings_def uint32_map_def)
  ultimately show split: "strings_Split (format_spec ms) (CHR '':'') = concat (map triple_strings ms)"
    unfolding format_spec_def by (rule strings_Split_Join)
  show "format_spec ms \<noteq> []"
  proof
    assume "format_spec ms = []"
    with split have "concat (map triple_strings ms) = [[]]" by simp
    then show False using assms(1) by (cases ms) (auto simp: triple_strings_def)
  qed
qed

lemma length_triples: "length (concat (map triple_strings ms)) = 3 * length ms"
  by (induction ms) (auto simp: triple_strings_def)

text \<open>
  C9: a list of option strings, each the printed form of one or more mappings whose fields
  are 32-bit unsigned values, parses back to those mappings in order.
\<close>

theorem ParseIDMap_format:
  assumes "\<forall>ms \<in> set mss. ms \<noteq> [] \<and> (\<forall>m \<in> set ms. uint32_map m)"
  shows "ParseIDMap (map format_spec mss) = Inr (concat mss)"
  using assms
proof (induction mss)
  case (Cons ms mss)
  then have ms: "ms \<noteq> []" "\<forall>m \<in> set ms. uint32_map m" by auto
  have "ParseIDMap (format_spec ms # map format_spec mss)
      = and_then (ParseIDMap_triples (concat (map triple_strings ms))) (\<lambda>a.
          and_then (ParseIDMap (map format_spec mss)) (\<lambda>b. Inr (a @ b)))"
    using format_spec_split [OF ms] by (simp add: length_triples)
  with Cons triples_format [OF ms(2)] show ?case by simp
qed simp

theorem ParseIDMap_format_witness:
  "ParseIDMap (map format_spec [[mk_IDMap 0 100000 65536], [mk_IDMap 5 7 1, mk_IDMap 6 9 1]])
     = Inr [mk_IDMap 0 100000 65536, mk_IDMap 5 7 1, mk_IDMap 6 9 1]"
  using ParseIDMap_format [of "[[mk_IDMap 0 100000 65536], [mk_IDMap 5 7 1, mk_IDMap 6 9 1]]"]
  by (simp add: uint32_map_def)

lemma parse_uint32_bound: "parse_uint32 v = Inr n \<Longrightarrow> 0 \<le> n \<and> n < 2 ^ 32"
  by (auto simp: parse_uint32_def strconv_ParseUint_def split: option.splits if_splits)

lemma ParseIDMap_triples_bound:
  "ParseIDMap_triples xs = Inr ms \<Longrightarrow> (\<forall>m \<in> set ms. uint32_map m) \<and> length ms = length xs div 3"
proof (induction xs arbitrary: ms rule: ParseIDMap_triples.induct)
  case (1 a b c rest)
  from 1(2) obtain cid hid sz ms' where t: "parseTriple a b c = Inr (cid, hid, sz)"
    "ParseIDMap_triples rest = Inr ms'" "ms = mk_IDMap cid hid sz # ms'"
    by (auto split: sum.splits simp: and_then_Inr_iff)
  moreover from t(1) have "uint32_map (mk_IDMap cid hid sz)"
    by (auto simp: parseTriple_def and_then_Inr_iff uint32_map_def dest: parse_uint32_bound)
  ultimately show ?case using 1(1) [OF t(1) refl refl t(2)] by auto
qed auto

text \<open>
  Every mapping \<open>ParseIDMap\<close> accepts has a container id, a host id and a size below
  \<open>2^32\<close>, and a specification whose number of fields is not a multiple of three is refused
  whatever the other specifications are.
\<close>

lemma ParseIDMap_bounds:
  "(\<forall>ms. ParseIDMap specs = Inr ms \<longrightarrow> (\<forall>m \<in> set ms. uint32_map m))
   \<and> ((\<exists>s \<in> set specs. s \<noteq> '''' \<and> length (strings_Split s (CHR '':'')) mod 3 \<noteq> 0)
        \<longrightarrow> ParseIDMap specs = Inl malformed)"
proof (induction specs)
  case (Cons s specs)
  show ?case
  proof (cases "s = '''' \<or> length (strings_Split s (CHR '':'')) mod 3 \<noteq> 0")
    case True
    with Cons show ?thesis by auto
  next
    case False
    then have eq: "ParseIDMap (s # specs) = and_then (ParseIDMap_triples (strings_Split s (CHR '':'')))
        (\<lambda>a. and_then (ParseIDMap specs) (\<lambda>b. Inr (a @ b)))" by simp
    have "ParseIDMap_triples xs = Inl e \<Longrightarrow> e = malformed" for xs e
      by (induction xs rule: ParseIDMap_triples.induct)
        (auto split: sum.splits simp: and_then_Inl_iff)
    with False Cons ParseIDMap_triples_bound show ?thesis
      unfolding eq by (cases "ParseIDMap_triples (strings_Split s (CHR '':''))") (auto simp: and_then_Inr_iff)
  qed
qed simp

section \<open>Allocating a subordinate range\<close>

lemma findNextRangeStart_loop:
  assumes "sorted (map Start rs)" and "\<forall>r \<in> set rs. defaultRangeLen \<le> Length r"
    and "\<forall>r \<in> set done. (Start r + Length r \<le> s \<or> s + defaultRangeLen < Start r)
           \<and> (\<forall>r' \<in> set rs. Start r \<le> Start r')"
  shows "\<forall>r \<in> set (done @ rs).
    (let s' = foldl (\<lambda>s r. if wouldOverlap r s then Start r + Length r else s) s rs
     in Start r + Length r \<le> s' \<or> s' + defaultRangeLen < Start r)"
  using assms
proof (induction rs arbitrary: "done" s)
  case (Cons r rs)
  define s1 where "s1 = (if wouldOverlap r s then Start r + Length r else s)"
  have "Start x + Length x \<le> s1 \<or> s1 + defaultRangeLen < Start x" if "x \<in> set (done @ [r])" for x
  proof (cases "x = r")
    case True
    then show ?thesis using Cons.prems(2)
      by (auto simp: s1_def wouldOverlap_def Let_def defaultRangeLen_def)
  next
    case False
    then have "Start x + Length x \<le> s \<or> s + defaultRangeLen < Start x" "Start x \<le> Start r"
      using that Cons.prems(3) by auto
    then show ?thesis using Cons.prems(2)
      by (auto simp: s1_def wouldOverlap_def Let_def defaultRangeLen_def)
  qed
  with Cons.IH [of "done @ [r]" s1] Cons.prems show ?case
    by (auto simp: s1_def [symmetric])
qed simp



text \<open>
  Without that condition the range can overlap: an assigned range that lies strictly
  inside the default one is not noticed, and the same ids are handed out again.
\<close>

lemma findNextUIDRange_overlap:
  "findNextUIDRange (sort_key Start) (Inr [\<lparr>Start = 120000, Length = 1000\<rparr>]) = Inr 100000
   \<and> sub_range \<lparr>Start = 120000, Length = 1000\<rparr> \<subseteq> {100000 ..< 100000 + defaultRangeLen}"
  by (auto simp: findNextUIDRange_def findNextRangeStart_def wouldOverlap_def defaultRangeStart_def
      defaultRangeLen_def sub_range_def Let_def)

section \<open>Contiguous mappings\<close>

lemma consecutive_union:
  assumes "consecutive start len xs" and "xs \<noteq> []" and "\<forall>x \<in> set xs. 0 \<le> len x"
  shows "(\<Union>x \<in> set xs. {start x ..< start x + len x})
    = {start (hd xs) ..< start (hd xs) + sum_list (map len xs)}"
  using assms
proof (induction start len xs rule: consecutive.induct)
  case (1 start len a b ms)
  have "0 \<le> sum_list (map len ms)" using 1(4) by (intro sum_list_nonneg) auto
  with 1 show ?case by auto
qed auto

text \<open>
  When \<open>IsContiguous\<close> holds of a non-empty list of mappings with non-negative sizes,
  the host ids form one gap-free interval as long as the sizes together, and so do the
  container ids; the slice it leaves behind is a permutation of the argument.
\<close>

lemma IsContiguous_sound:
  assumes "sorts_by HostID sortHost" and "sorts_by ContainerID sortContainer"
    and "IsContiguous sortHost sortContainer ms = (True, ms')"
    and "ms \<noteq> []" and "\<forall>m \<in> set ms. 0 \<le> Size m"
  shows "(\<exists>h. (\<Union>m \<in> set ms. host_range m) = {h ..< h + sum_list (map Size ms)})
    \<and> (\<exists>c. (\<Union>m \<in> set ms. container_range m) = {c ..< c + sum_list (map Size ms)})
    \<and> mset ms' = mset ms"
proof (cases "length ms < 2")
  case True
  with assms(4) obtain m where m: "ms = [m]" by (cases ms; cases "tl ms") auto
  moreover have "mset ms' = mset ms" using True assms(3) by (simp add: IsContiguous_def)
  ultimately show ?thesis
    by (intro conjI exI [of _ "HostID m"] exI [of _ "ContainerID m"])
      (simp_all add: host_range_def container_range_def)
next
  case False
  define hs cs where "hs = sortHost ms" and "cs = sortContainer hs"
  have ok: "consecutive HostID Size hs" "consecutive ContainerID Size cs" "ms' = cs"
    using False assms(3) by (auto simp: IsContiguous_def hs_def cs_def Let_def split: if_splits)
  have perm: "mset hs = mset ms" "mset cs = mset ms"
    using sorts_byD(1) [OF assms(1)] sorts_byD(1) [OF assms(2)] by (simp_all add: hs_def cs_def)
  then have sets: "set hs = set ms" "set cs = set ms" by (auto dest: mset_eq_setD)
  have "sum_list (map Size hs) = sum_list (map Size ms)" "sum_list (map Size cs) = sum_list (map Size ms)"
    using perm by (metis mset_map sum_mset_sum_list)+
  moreover have "hs \<noteq> []" "cs \<noteq> []" using sets assms(4) by auto
  ultimately show ?thesis
    using consecutive_union [OF ok(1)] consecutive_union [OF ok(2)] sets assms(5) ok(3) perm(2)
    by (auto simp: host_range_def container_range_def)
qed

end
