(* ===== verification/Override_Xattr.thy ===== *)
theory Override_Xattr
  imports Id_Tools
begin

unbundle bit_operations_syntax

text \<open>
  The value of the attribute \<open>user.containers.override_stat\<close> in
  \<open>storage/pkg/idtools/idtools.go\<close>: owner, mode and device numbers printed as one string
  and parsed back. File modes are the 32-bit \<open>fs.FileMode\<close> of Go. The result is the round
  trip of the two functions, and the exact set of modes for which it holds.
\<close>

section \<open>File modes\<close>

type_synonym FileMode = "32 word"

definition ModeDir :: FileMode where "ModeDir = 0x80000000"
definition ModeSymlink :: FileMode where "ModeSymlink = 0x08000000"
definition ModeDevice :: FileMode where "ModeDevice = 0x04000000"
definition ModeNamedPipe :: FileMode where "ModeNamedPipe = 0x02000000"
definition ModeSocket :: FileMode where "ModeSocket = 0x01000000"
definition ModeSetuid :: FileMode where "ModeSetuid = 0x00800000"
definition ModeSetgid :: FileMode where "ModeSetgid = 0x00400000"
definition ModeCharDevice :: FileMode where "ModeCharDevice = 0x00200000"
definition ModeSticky :: FileMode where "ModeSticky = 0x00100000"
definition ModeIrregular :: FileMode where "ModeIrregular = 0x00080000"
definition ModePerm :: FileMode where "ModePerm = 0x1FF"

definition ModeType :: FileMode where
  "ModeType = ModeDir OR ModeSymlink OR ModeNamedPipe OR ModeSocket OR ModeDevice OR ModeCharDevice OR ModeIrregular"

lemmas mode_defs = ModeDir_def ModeSymlink_def ModeDevice_def ModeNamedPipe_def ModeSocket_def
  ModeSetuid_def ModeSetgid_def ModeCharDevice_def ModeSticky_def ModeIrregular_def ModePerm_def ModeType_def

record Stat =
  st_IDs :: IDPair
  st_Mode :: FileMode
  st_Major :: int
  st_Minor :: int

section \<open>Printing\<close>

definition type_string :: "FileMode \<Rightarrow> int \<Rightarrow> int \<Rightarrow> string" where
  "type_string mode major minor =
     (let t = mode AND ModeType
      in if t = ModeDir then ''dir''
         else if t = ModeSymlink then ''symlink''
         else if t = ModeNamedPipe then ''pipe''
         else if t = ModeSocket then ''socket''
         else if t = ModeDevice then ''block-'' @ format_int major @ ''-'' @ format_int minor
         else if t = ModeDevice OR ModeCharDevice then ''char-'' @ format_int major @ ''-'' @ format_int minor
         else ''file'')"

definition unix_mode :: "FileMode \<Rightarrow> FileMode" where
  "unix_mode mode =
     (let m0 = mode AND ModePerm;
          m1 = (if mode AND ModeSetuid \<noteq> 0 then m0 OR 0x800 else m0);
          m2 = (if mode AND ModeSetgid \<noteq> 0 then m1 OR 0x400 else m1)
      in if mode AND ModeSticky \<noteq> 0 then m2 OR 0x200 else m2)"

definition FormatContainersOverrideXattrDevice :: "int \<Rightarrow> int \<Rightarrow> FileMode \<Rightarrow> int \<Rightarrow> int \<Rightarrow> string" where
  "FormatContainersOverrideXattrDevice uid gid mode major minor =
     format_int uid @ '':'' @ format_int gid @ '':''
     @ pad_zero 4 (format_nat 8 (unat (unix_mode mode))) @ '':'' @ type_string mode major minor"

definition FormatContainersOverrideXattr :: "int \<Rightarrow> int \<Rightarrow> FileMode \<Rightarrow> string" where
  "FormatContainersOverrideXattr uid gid mode = FormatContainersOverrideXattrDevice uid gid mode 0 0"

section \<open>Parsing\<close>

definition parseDevice :: "string \<Rightarrow> (int \<times> int) res" where
  "parseDevice typ =
     (case strings_Split typ (CHR ''-'') of
        p0 # p1 # p2 # _ \<Rightarrow>
          if p0 \<noteq> ''block'' \<and> p0 \<noteq> ''char'' then Inl (ErrFmt ''invalid device type'')
          else (case strconv_Atoi p1 of
                  None \<Rightarrow> Inl (ErrFmt ''failed to parse major number'')
                | Some major \<Rightarrow>
                    (case strconv_Atoi p2 of
                       None \<Rightarrow> Inl (ErrFmt ''failed to parse minor number'')
                     | Some minor \<Rightarrow> Inr (major, minor)))
      | _ \<Rightarrow> Inl (ErrFmt ''invalid device type''))"

definition parse_mode :: "FileMode \<Rightarrow> FileMode" where
  "parse_mode value =
     (let m0 = value AND ModePerm;
          m1 = (if value AND 0x200 \<noteq> 0 then m0 OR ModeSticky else m0);
          m2 = (if value AND 0x400 \<noteq> 0 then m1 OR ModeSetgid else m1)
      in if value AND 0x800 \<noteq> 0 then m2 OR ModeSetuid else m2)"

definition parse_type :: "string \<Rightarrow> Stat \<Rightarrow> Stat res" where
  "parse_type typ st =
     (let add = (\<lambda>bits. st\<lparr>st_Mode := st_Mode st OR bits\<rparr>)
      in if strings_HasPrefix typ ''file'' then Inr st
         else if strings_HasPrefix typ ''dir'' then Inr (add ModeDir)
         else if strings_HasPrefix typ ''symlink'' then Inr (add ModeSymlink)
         else if strings_HasPrefix typ ''pipe'' then Inr (add ModeNamedPipe)
         else if strings_HasPrefix typ ''socket'' then Inr (add ModeSocket)
         else if strings_HasPrefix typ ''block''
           then and_then (parseDevice typ) (\<lambda>(major, minor).
                  Inr ((add ModeDevice)\<lparr>st_Major := major, st_Minor := minor\<rparr>))
         else if strings_HasPrefix typ ''char''
           then and_then (parseDevice typ) (\<lambda>(major, minor).
                  Inr ((add (ModeDevice OR ModeCharDevice))\<lparr>st_Major := major, st_Minor := minor\<rparr>))
         else Inl (ErrFmt ''invalid file type''))"

definition parseOverrideXattr :: "string \<Rightarrow> Stat res" where
  "parseOverrideXattr xstat =
     (case strings_Split xstat (CHR '':'') of
        a0 # a1 # a2 # rest \<Rightarrow>
          (case strconv_ParseUint a0 10 32 of
             None \<Rightarrow> Inl (ErrFmt ''failed to parse UID'')
           | Some uid \<Rightarrow>
          (case strconv_ParseUint a1 10 32 of
             None \<Rightarrow> Inl (ErrFmt ''failed to parse GID'')
           | Some gid \<Rightarrow>
          (case strconv_ParseUint a2 8 32 of
             None \<Rightarrow> Inl (ErrFmt ''failed to parse mode'')
           | Some v \<Rightarrow>
               (let st = \<lparr>st_IDs = \<lparr>UID = int uid, GID = int gid\<rparr>, st_Mode = parse_mode (of_nat v),
                          st_Major = 0, st_Minor = 0\<rparr>
                in case rest of [] \<Rightarrow> Inr st | typ # _ \<Rightarrow> parse_type typ st))))
      | _ \<Rightarrow> Inl (ErrFmt ''the number of parts is less than 3''))"

section \<open>The round trip\<close>

definition bit_at :: "nat \<Rightarrow> FileMode" where
  "bit_at n = 2 ^ n"

lemma single_bits:
  "ModeDir = bit_at 31" "ModeSymlink = bit_at 27" "ModeDevice = bit_at 26" "ModeNamedPipe = bit_at 25"
  "ModeSocket = bit_at 24" "ModeSetuid = bit_at 23" "ModeSetgid = bit_at 22" "ModeCharDevice = bit_at 21"
  "ModeSticky = bit_at 20" "ModeIrregular = bit_at 19" "ModePerm = mask 9"
  "(0x800 :: FileMode) = bit_at 11" "(0x400 :: FileMode) = bit_at 10" "(0x200 :: FileMode) = bit_at 9"
  by (simp_all add: mode_defs bit_at_def mask_eq_exp_minus_1)

lemma and_bit_ne_0: "w AND bit_at n \<noteq> 0 \<longleftrightarrow> bit w n"
  by (simp add: bit_at_def and_exp_eq_0_iff_not_bit)

lemma bit_bit_at [simp]: "bit (bit_at m) n \<longleftrightarrow> n = m \<and> m < 32"
  by (auto simp: bit_at_def bit_exp_iff)

lemma bit_if: "bit (if b then x else y) n \<longleftrightarrow> (if b then bit x n else bit (y :: FileMode) n)"
  by simp

lemma bit_unix_mode:
  "bit (unix_mode m) n \<longleftrightarrow>
     n < 9 \<and> bit m n \<or> n = 11 \<and> bit m 23 \<or> n = 10 \<and> bit m 22 \<or> n = 9 \<and> bit m 20"
  unfolding unix_mode_def Let_def single_bits and_bit_ne_0
  by (auto simp: bit_if bit_or_iff bit_and_iff bit_mask_iff)

lemma bit_parse_mode:
  "bit (parse_mode v) n \<longleftrightarrow>
     n < 9 \<and> bit v n \<or> n = 20 \<and> bit v 9 \<or> n = 22 \<and> bit v 10 \<or> n = 23 \<and> bit v 11"
  unfolding parse_mode_def Let_def single_bits and_bit_ne_0
  by (auto simp: bit_if bit_or_iff bit_and_iff bit_mask_iff)

text \<open>The modes the format can express: permission and special bits and one known type.\<close>

definition plain_bits :: FileMode where
  "plain_bits = ModePerm OR ModeSetuid OR ModeSetgid OR ModeSticky"

definition known_type :: "FileMode \<Rightarrow> bool" where
  "known_type t \<longleftrightarrow> t \<in> {0, ModeDir, ModeSymlink, ModeNamedPipe, ModeSocket, ModeDevice, ModeDevice OR ModeCharDevice}"

definition device_type :: "FileMode \<Rightarrow> bool" where
  "device_type t \<longleftrightarrow> t \<in> {ModeDevice, ModeDevice OR ModeCharDevice}"

lemma parse_unix_mode: "parse_mode (unix_mode m) = m AND plain_bits"
proof (rule bit_word_eqI)
  fix n
  assume "n < LENGTH(32)"
  show "bit (parse_mode (unix_mode m)) n \<longleftrightarrow> bit (m AND plain_bits) n"
    unfolding bit_parse_mode bit_unix_mode plain_bits_def single_bits
    by (auto simp: bit_or_iff bit_and_iff bit_mask_iff)
qed

lemma unat_unix_mode: "unat (unix_mode m) < 2 ^ 32"
  using unsigned_less [of "unix_mode m", where 'a = nat] by simp

definition format_mode :: "FileMode \<Rightarrow> bool" where
  "format_mode m \<longleftrightarrow> m AND NOT (plain_bits OR ModeType) = 0 \<and> known_type (m AND ModeType)"

lemma format_mode_split: "format_mode m \<Longrightarrow> (m AND plain_bits) OR (m AND ModeType) = m"
proof -
  assume "format_mode m"
  then have "m AND NOT (plain_bits OR ModeType) = 0" by (simp add: format_mode_def)
  moreover have "m = (m AND (plain_bits OR ModeType)) OR (m AND NOT (plain_bits OR ModeType))"
    by (rule bit_eqI) (auto simp: bit_or_iff bit_and_iff bit_not_iff)
  ultimately show ?thesis by (simp add: bit.conj_disj_distrib)
qed

lemma format_int_nat: "0 \<le> i \<Longrightarrow> format_int i = format_nat 10 (nat i)"
  by (simp add: format_int_def)

lemma parseDevice_format:
  assumes "kind = ''block'' \<or> kind = ''char''" and "0 \<le> a" "a < 2 ^ 63" and "0 \<le> b" "b < 2 ^ 63"
  shows "parseDevice (kind @ ''-'' @ format_int a @ ''-'' @ format_int b) = Inr (a, b)"
proof -
  have nosep: "CHR ''-'' \<notin> set (format_int i)" if "0 \<le> i" for i
    using format_nat_no_sep(1) [of 10 "CHR ''-''" "nat i"] that by (simp add: format_int_nat)
  have "strings_Split (kind @ ''-'' @ format_int a @ ''-'' @ format_int b) (CHR ''-'')
      = [kind, format_int a, format_int b]"
    using assms nosep [OF assms(2)] nosep [OF assms(4)] by auto
  moreover have "strconv_Atoi (format_int i) = Some i" if "0 \<le> i" "i < 2 ^ 63" for i
    using Atoi_format_nat [of "nat i"] that by (simp add: format_int_nat)
  ultimately show ?thesis using assms by (auto simp: parseDevice_def)
qed

lemma parse_type_format:
  assumes "known_type (m AND ModeType)" and "0 \<le> a" "a < 2 ^ 63" and "0 \<le> b" "b < 2 ^ 63"
    and "\<not> device_type (m AND ModeType) \<longrightarrow> st_Major st = a \<and> st_Minor st = b"
  shows "parse_type (type_string m a b) st
    = Inr (st\<lparr>st_Mode := st_Mode st OR (m AND ModeType), st_Major := a, st_Minor := b\<rparr>)"
proof -
  have dev: "parseDevice (''block-'' @ format_int a @ ''-'' @ format_int b) = Inr (a, b)"
    "parseDevice (''char-'' @ format_int a @ ''-'' @ format_int b) = Inr (a, b)"
    using parseDevice_format [OF _ assms(2-5), of "''block''"] parseDevice_format [OF _ assms(2-5), of "''char''"]
    by simp_all
  define t where "t = m AND ModeType"
  consider "t = 0" | "t = ModeDir" | "t = ModeSymlink" | "t = ModeNamedPipe" | "t = ModeSocket"
    | "t = ModeDevice" | "t = ModeDevice OR ModeCharDevice"
    using assms(1) by (auto simp: known_type_def t_def)
  then show ?thesis
    using dev assms(6) unfolding type_string_def Let_def t_def [symmetric]
    by cases (simp_all add: parse_type_def strings_HasPrefix_def device_type_def mode_defs)
qed

text \<open>The attribute value splits into its four fields.\<close>

lemma split_attr:
  assumes "0 \<le> uid" and "0 \<le> gid"
  shows "strings_Split (FormatContainersOverrideXattrDevice uid gid m a b) (CHR '':'')
    = [format_int uid, format_int gid, pad_zero 4 (format_nat 8 (unat (unix_mode m)))]
      @ strings_Split (type_string m a b) (CHR '':'')"
  using assms format_int_no_colon
    format_nat_no_sep(2) [of 8 "CHR '':''" 4 "unat (unix_mode m)"]
  by (simp add: FormatContainersOverrideXattrDevice_def)

lemma type_string_no_colon: "0 \<le> a \<Longrightarrow> 0 \<le> b \<Longrightarrow> CHR '':'' \<notin> set (type_string m a b)"
  using format_int_no_colon by (simp add: type_string_def Let_def)

text \<open>
  C11: the override attribute round-trips. For 32-bit owner ids, a mode made of permission,
  setuid, setgid and sticky bits and one of the seven file types of the format, and
  non-negative device numbers that are zero unless the type is a device, parsing the
  printed value gives the state back.
\<close>

theorem parseOverrideXattr_Format:
  assumes "0 \<le> UID (st_IDs st)" "UID (st_IDs st) < 2 ^ 32" and "0 \<le> GID (st_IDs st)" "GID (st_IDs st) < 2 ^ 32"
    and "format_mode (st_Mode st)"
    and "0 \<le> st_Major st" "st_Major st < 2 ^ 63" and "0 \<le> st_Minor st" "st_Minor st < 2 ^ 63"
    and "\<not> device_type (st_Mode st AND ModeType) \<longrightarrow> st_Major st = 0 \<and> st_Minor st = 0"
  shows "parseOverrideXattr
      (FormatContainersOverrideXattrDevice (UID (st_IDs st)) (GID (st_IDs st)) (st_Mode st) (st_Major st) (st_Minor st))
    = Inr st"
proof -
  let ?m = "st_Mode st" and ?a = "st_Major st" and ?b = "st_Minor st"
  define st0 where "st0 = \<lparr>st_IDs = \<lparr>UID = UID (st_IDs st), GID = GID (st_IDs st)\<rparr>,
    st_Mode = ?m AND plain_bits, st_Major = 0, st_Minor = 0\<rparr>"
  have ids: "strconv_ParseUint (format_int i) 10 32 = Some (nat i)" if "0 \<le> i" "i < 2 ^ 32" for i
    using that ParseUint_format [of 10 "nat i" 32] by (simp add: format_int_nat)
  have mode: "strconv_ParseUint (pad_zero 4 (format_nat 8 (unat (unix_mode ?m)))) 8 32 = Some (unat (unix_mode ?m))"
    using ParseUint_pad [OF _ _ unat_unix_mode, of 8] by simp
  have "parse_type (type_string ?m ?a ?b) st0
      = Inr (st0\<lparr>st_Mode := (?m AND plain_bits) OR (?m AND ModeType), st_Major := ?a, st_Minor := ?b\<rparr>)"
    using parse_type_format [of ?m ?a ?b st0] assms by (auto simp: st0_def format_mode_def)
  also have "st0\<lparr>st_Mode := (?m AND plain_bits) OR (?m AND ModeType), st_Major := ?a, st_Minor := ?b\<rparr> = st"
    unfolding format_mode_split [OF assms(5)] st0_def by simp
  finally show ?thesis
    using assms ids mode strings_Split_no_sep [OF type_string_no_colon [OF assms(6,8)]]
    unfolding parseOverrideXattr_def split_attr [OF assms(1,3)]
    by (simp add: parse_unix_mode st0_def)
qed

theorem parseOverrideXattr_Format_witness:
  "parseOverrideXattr (FormatContainersOverrideXattrDevice 1000 100 (ModeDevice OR ModeCharDevice OR ModeSetgid OR 0x1A4) 5 1)
    = Inr \<lparr>st_IDs = \<lparr>UID = 1000, GID = 100\<rparr>,
           st_Mode = ModeDevice OR ModeCharDevice OR ModeSetgid OR 0x1A4, st_Major = 5, st_Minor = 1\<rparr>"
  using parseOverrideXattr_Format [of "\<lparr>st_IDs = \<lparr>UID = 1000, GID = 100\<rparr>,
      st_Mode = ModeDevice OR ModeCharDevice OR ModeSetgid OR 0x1A4, st_Major = 5, st_Minor = 1\<rparr>"]
  by (simp add: format_mode_def known_type_def device_type_def plain_bits_def mode_defs)

end
