(* ===== verification/Interval_Set.thy ===== *)
theory Interval_Set
  imports Go_Prelude
begin

text \<open>
  Intervals of identifiers (\<open>storage/idset.go\<close>, type \<open>interval\<close>) and the ordered interval
  sets of the vendored package \<open>google/go-intervals/intervalset\<close>, at that interval type.
  A set is the list of its intervals; \<open>wf_set\<close> is the package's representation invariant
  (non-empty intervals, each strictly before the next and not adjacent to it), \<open>elems\<close>
  the set of identifiers a list stands for. The package's operations are proved to be
  union, difference and restriction on \<open>elems\<close> and to keep \<open>wf_set\<close>.
\<close>

section \<open>Intervals\<close>

record interval =
  iv_start :: int
  iv_end :: int

abbreviation mk_interval :: "int \<Rightarrow> int \<Rightarrow> interval" where
  "mk_interval s e \<equiv> \<lparr>iv_start = s, iv_end = e\<rparr>"

definition interval_length :: "interval \<Rightarrow> int" where
  "interval_length i = max 0 (iv_end i - iv_start i)"

definition interval_IsZero :: "interval \<Rightarrow> bool" where
  "interval_IsZero i \<longleftrightarrow> interval_length i \<le> 0"

definition interval_Intersect :: "interval \<Rightarrow> interval \<Rightarrow> interval" where
  "interval_Intersect i j = mk_interval (max (iv_start i) (iv_start j)) (min (iv_end i) (iv_end j))"

definition interval_Before :: "interval \<Rightarrow> interval \<Rightarrow> bool" where
  "interval_Before i j \<longleftrightarrow> \<not> interval_IsZero i \<and> \<not> interval_IsZero j \<and> iv_end i < iv_start j"

definition interval_Bisect :: "interval \<Rightarrow> interval \<Rightarrow> interval \<times> interval" where
  "interval_Bisect i j =
     (if interval_IsZero j then (i, mk_interval 0 0)
      else (mk_interval (iv_start i) (min (iv_end i) (iv_start j)),
            mk_interval (max (iv_start i) (iv_end j)) (iv_end i)))"

definition interval_Adjoin :: "interval \<Rightarrow> interval \<Rightarrow> interval" where
  "interval_Adjoin i j =
     (if \<not> interval_IsZero i \<and> \<not> interval_IsZero j
         \<and> (iv_end i = iv_start j \<or> iv_end j = iv_start i)
      then mk_interval (min (iv_start i) (iv_start j)) (max (iv_end i) (iv_end j))
      else mk_interval 0 0)"

definition interval_Encompass :: "interval \<Rightarrow> interval \<Rightarrow> interval" where
  "interval_Encompass i j =
     (if interval_IsZero i then j
      else if interval_IsZero j then i
      else mk_interval (min (iv_start i) (iv_start j)) (max (iv_end i) (iv_end j)))"

section \<open>Interval sets\<close>

type_synonym iset = "interval list"

text \<open>\<open>CheckSorted\<close>: every interval is before the next one.\<close>

fun CheckSorted :: "interval list \<Rightarrow> bool" where
  "CheckSorted [] = True"
| "CheckSorted [_] = True"
| "CheckSorted (i # j # is) = (interval_Before i j \<and> CheckSorted (j # is))"

text \<open>\<open>NewSet\<close> panics on a slice that is not sorted.\<close>

definition NewSet :: "interval list \<Rightarrow> iset res" where
  "NewSet is = (if CheckSorted is then Inr is else Inl (Panic ''intervals are not sorted''))"

text \<open>\<open>Extent\<close>, with the nil interval of the empty set as \<open>None\<close>.\<close>

definition set_Extent :: "iset \<Rightarrow> interval option" where
  "set_Extent s = (if s = [] then None else Some (interval_Encompass (hd s) (last s)))"

text \<open>
  \<open>IntervalsBetween\<close>: the intervals it passes to a receiver that never stops the
  iteration, in order; the start of the loop comes from the binary search.
\<close>

fun between_loop :: "interval \<Rightarrow> interval list \<Rightarrow> interval list" where
  "between_loop ext [] = []"
| "between_loop ext (i # is) =
     (if interval_Before ext i then []
      else if interval_IsZero (interval_Intersect ext i) then between_loop ext is
      else interval_Intersect ext i # between_loop ext is)"

definition searchLow :: "iset \<Rightarrow> interval \<Rightarrow> nat" where
  "searchLow s x = sort_Search (length s) (\<lambda>i. \<not> interval_Before (s ! i) x)"

definition IntervalsBetween :: "iset \<Rightarrow> interval \<Rightarrow> interval list" where
  "IntervalsBetween s ext = between_loop ext (drop (searchLow s ext) s)"

text \<open>\<open>Contains\<close>: the forward iterator starts at the first interval not before \<open>ival\<close>.\<close>

fun contains_loop :: "interval \<Rightarrow> interval list \<Rightarrow> bool" where
  "contains_loop ival [] = interval_IsZero ival"
| "contains_loop ival (x # xs) =
     (case interval_Bisect ival x of (left, right) \<Rightarrow>
        if \<not> interval_IsZero left then False else contains_loop right xs)"

definition set_Contains :: "iset \<Rightarrow> interval \<Rightarrow> bool" where
  "set_Contains s ival = contains_loop ival (drop (searchLow s ival) s)"

definition adjoinOrAppend :: "interval list \<Rightarrow> interval \<Rightarrow> interval list" where
  "adjoinOrAppend is x =
     (if is = [] then [x]
      else let adjoined = interval_Adjoin (last is) x
           in if interval_IsZero adjoined then is @ [x] else butlast is @ [adjoined])"

text \<open>
  The loop of \<open>insert\<close>: \<open>acc\<close> is \<open>newIntervals\<close>, \<open>ins\<close> the remaining insertion, \<open>None\<close>
  once it has been placed.
\<close>

fun insert_loop :: "interval list \<Rightarrow> interval option \<Rightarrow> interval list \<Rightarrow> interval list" where
  "insert_loop acc None [] = acc"
| "insert_loop acc (Some ins) [] = adjoinOrAppend acc ins"
| "insert_loop acc None (x # xs) = insert_loop (adjoinOrAppend acc x) None xs"
| "insert_loop acc (Some ins) (x # xs) =
     (if interval_Before ins x
      then insert_loop (adjoinOrAppend (adjoinOrAppend acc ins) x) None xs
      else case interval_Bisect ins x of (left, right) \<Rightarrow>
        (let acc1 = (if \<not> interval_IsZero left then adjoinOrAppend acc left else acc);
             acc2 = adjoinOrAppend acc1 x
         in if interval_IsZero right then insert_loop acc2 None xs
            else insert_loop acc2 (Some right) xs))"

definition set_insert :: "iset \<Rightarrow> interval \<Rightarrow> iset" where
  "set_insert s insertion = (if set_Contains s insertion then s else insert_loop [] (Some insertion) s)"

definition set_Add :: "iset \<Rightarrow> iset \<Rightarrow> iset" where
  "set_Add s b =
     (case set_Extent b of
        None \<Rightarrow> s
      | Some bExtent \<Rightarrow> foldl set_insert s (IntervalsBetween b bExtent))"

text \<open>The loop of \<open>Sub\<close> over the two iterators.\<close>

function sub_loop :: "interval list \<Rightarrow> interval list \<Rightarrow> interval list \<Rightarrow> interval list" where
  "sub_loop acc [] ys = acc"
| "sub_loop acc (x # xs) [] = sub_loop (adjoinOrAppend acc x) xs []"
| "sub_loop acc (x # xs) (y # ys) =
     (case interval_Bisect x y of (left, right) \<Rightarrow>
        (let acc' = (if \<not> interval_IsZero left then adjoinOrAppend acc left else acc)
         in if \<not> interval_IsZero right then sub_loop acc' (right # xs) ys
            else sub_loop acc' xs (y # ys)))"
  by pat_completeness auto
termination
  by (relation "measure (\<lambda>(acc, xs, ys). length xs + length ys)") auto

definition set_Sub :: "iset \<Rightarrow> iset \<Rightarrow> iset" where
  "set_Sub s b =
     (case set_Extent s of
        None \<Rightarrow> s
      | Some extent \<Rightarrow> sub_loop [] (drop (searchLow s extent) s) (IntervalsBetween b extent))"

text \<open>\<open>ImmutableSet\<close> copies the intervals and checks that they are sorted.\<close>

definition set_ImmutableSet :: "iset \<Rightarrow> iset res" where
  "set_ImmutableSet s = NewSet s"

section \<open>Meaning and representation invariant\<close>

definition ids_of :: "interval \<Rightarrow> int set" where
  "ids_of i = {iv_start i ..< iv_end i}"

definition elems :: "interval list \<Rightarrow> int set" where
  "elems is = (\<Union>i \<in> set is. ids_of i)"

definition wf_set :: "interval list \<Rightarrow> bool" where
  "wf_set is \<longleftrightarrow> sorted_wrt interval_Before is \<and> (\<forall>i \<in> set is. \<not> interval_IsZero i)"

lemma IsZero_iff [simp]: "interval_IsZero i \<longleftrightarrow> iv_end i \<le> iv_start i"
  by (auto simp: interval_IsZero_def interval_length_def max_def)

lemma Before_iff:
  "interval_Before i j \<longleftrightarrow> iv_start i < iv_end i \<and> iv_start j < iv_end j \<and> iv_end i < iv_start j"
  by (auto simp: interval_Before_def)

lemma ids_of_empty_iff [simp]: "ids_of i = {} \<longleftrightarrow> iv_end i \<le> iv_start i"
  by (auto simp: ids_of_def)

lemma mem_ids_of [simp]: "k \<in> ids_of i \<longleftrightarrow> iv_start i \<le> k \<and> k < iv_end i"
  by (simp add: ids_of_def)

lemma elems_simps [simp]:
  "elems [] = {}"
  "elems (i # is) = ids_of i \<union> elems is"
  "elems (is @ js) = elems is \<union> elems js"
  by (auto simp: elems_def)

lemma mem_elems: "k \<in> elems is \<longleftrightarrow> (\<exists>i \<in> set is. iv_start i \<le> k \<and> k < iv_end i)"
  by (auto simp: elems_def)

lemma finite_elems [simp]: "finite (elems is)"
  by (simp add: elems_def ids_of_def)

lemma wf_set_Nil [simp]: "wf_set []"
  by (simp add: wf_set_def)

lemma wf_set_single [simp]: "wf_set [i] \<longleftrightarrow> iv_start i < iv_end i"
  by (auto simp: wf_set_def)

lemma wf_set_Cons [simp]:
  "wf_set (i # is) \<longleftrightarrow> iv_start i < iv_end i \<and> (\<forall>j \<in> set is. iv_end i < iv_start j) \<and> wf_set is"
  by (auto simp: wf_set_def Before_iff)

lemma wf_set_append [simp]:
  "wf_set (is @ js) \<longleftrightarrow>
     wf_set is \<and> wf_set js \<and> (\<forall>i \<in> set is. \<forall>j \<in> set js. iv_end i < iv_start j)"
  by (induction "is") auto

lemma wf_set_memD: "wf_set is \<Longrightarrow> i \<in> set is \<Longrightarrow> iv_start i < iv_end i"
  by (auto simp: wf_set_def)

lemma CheckSorted_wf: "wf_set is \<Longrightarrow> CheckSorted is"
proof (induction "is" rule: CheckSorted.induct)
  case (3 i j "is")
  then show ?case by (auto simp: Before_iff)
qed auto

text \<open>Pushing an interval that starts no earlier than everything pushed so far ends.\<close>

lemma adjoinOrAppend_push:
  assumes "wf_set acc" and "iv_start x < iv_end x" and "\<forall>i \<in> set acc. iv_end i \<le> iv_start x"
  shows "wf_set (adjoinOrAppend acc x)" and "elems (adjoinOrAppend acc x) = elems acc \<union> ids_of x"
    and "\<forall>i \<in> set (adjoinOrAppend acc x). iv_end i \<le> iv_end x"
proof -
  have "wf_set (adjoinOrAppend acc x) \<and> elems (adjoinOrAppend acc x) = elems acc \<union> ids_of x
    \<and> (\<forall>i \<in> set (adjoinOrAppend acc x). iv_end i \<le> iv_end x)"
  proof (cases acc rule: rev_cases)
    case Nil
    with assms show ?thesis by (simp add: adjoinOrAppend_def)
  next
    case (snoc ys l)
    have l: "iv_start l < iv_end l" "iv_end l \<le> iv_start x"
      using assms snoc by auto
    show ?thesis
    proof (cases "iv_end l = iv_start x")
      case True
      then have "interval_Adjoin l x = mk_interval (iv_start l) (iv_end x)"
        using l assms(2) by (simp add: interval_Adjoin_def)
      with l True assms snoc show ?thesis
        by (fastforce simp: adjoinOrAppend_def)
    next
      case False
      then have "interval_Adjoin l x = mk_interval 0 0"
        using l assms(2) by (simp add: interval_Adjoin_def)
      with l False assms snoc show ?thesis
        by (fastforce simp: adjoinOrAppend_def)
    qed
  qed
  then show "wf_set (adjoinOrAppend acc x)" and "elems (adjoinOrAppend acc x) = elems acc \<union> ids_of x"
    and "\<forall>i \<in> set (adjoinOrAppend acc x). iv_end i \<le> iv_end x"
    by blast+
qed

lemma push_ends:
  assumes "wf_set acc" and "iv_start x < iv_end x" and "\<forall>i \<in> set acc. iv_end i \<le> iv_start x"
    and "iv_end x \<le> b"
  shows "\<forall>i \<in> set (adjoinOrAppend acc x). iv_end i \<le> b"
  using adjoinOrAppend_push(3) [OF assms(1-3)] assms(4) by fastforce

definition push_nonzero :: "interval list \<Rightarrow> interval \<Rightarrow> interval list" where
  "push_nonzero acc l = (if interval_IsZero l then acc else adjoinOrAppend acc l)"

lemma push_nonzero_correct:
  assumes "wf_set acc" and "\<forall>i \<in> set acc. iv_end i \<le> iv_start l"
    and "\<forall>i \<in> set acc. iv_end i \<le> b" and "iv_end l \<le> b"
  shows "wf_set (push_nonzero acc l)" and "elems (push_nonzero acc l) = elems acc \<union> ids_of l"
    and "\<forall>i \<in> set (push_nonzero acc l). iv_end i \<le> b"
proof -
  have "wf_set (push_nonzero acc l) \<and> elems (push_nonzero acc l) = elems acc \<union> ids_of l
    \<and> (\<forall>i \<in> set (push_nonzero acc l). iv_end i \<le> b)"
  proof (cases "interval_IsZero l")
    case True
    then show ?thesis using assms by (auto simp: push_nonzero_def)
  next
    case False
    then have l: "iv_start l < iv_end l" by simp
    from adjoinOrAppend_push [OF assms(1) l assms(2)] push_ends [OF assms(1) l assms(2,4)] False
    show ?thesis by (simp add: push_nonzero_def)
  qed
  then show "wf_set (push_nonzero acc l)" and "elems (push_nonzero acc l) = elems acc \<union> ids_of l"
    and "\<forall>i \<in> set (push_nonzero acc l). iv_end i \<le> b"
    by blast+
qed

section \<open>Insertion is union\<close>

lemma insert_loop_None:
  assumes "wf_set acc" and "wf_set xs" and "\<forall>i \<in> set acc. \<forall>x \<in> set xs. iv_end i \<le> iv_start x"
  shows "wf_set (insert_loop acc None xs) \<and> elems (insert_loop acc None xs) = elems acc \<union> elems xs"
  using assms
proof (induction xs arbitrary: acc)
  case (Cons x xs)
  have x: "iv_start x < iv_end x" "\<forall>i \<in> set acc. iv_end i \<le> iv_start x"
    using Cons.prems by auto
  note push = adjoinOrAppend_push [OF Cons.prems(1) x]
  have "\<forall>i \<in> set (adjoinOrAppend acc x). \<forall>y \<in> set xs. iv_end i \<le> iv_start y"
    using push(3) Cons.prems(2) by fastforce
  with Cons.IH [OF push(1)] Cons.prems push(2) show ?case by auto
qed simp

lemma bisect_ids:
  assumes "iv_start x < iv_end x" and "iv_start y < iv_end y" and "interval_Bisect x y = (l, r)"
  shows "ids_of x - ids_of y = ids_of l \<union> ids_of r"
    and "iv_start l = iv_start x" and "iv_end l \<le> iv_start y" and "iv_end l \<le> iv_end x"
    and "iv_end y \<le> iv_start r" and "iv_start x \<le> iv_start r" and "iv_end r = iv_end x"
  using assms by (auto simp: interval_Bisect_def)

lemma insert_loop_Some:
  assumes "wf_set acc" and "wf_set xs" and "iv_start ins < iv_end ins"
    and "\<forall>i \<in> set acc. iv_end i \<le> iv_start ins"
    and "\<forall>i \<in> set acc. \<forall>x \<in> set xs. iv_end i \<le> iv_start x"
  shows "wf_set (insert_loop acc (Some ins) xs)
    \<and> elems (insert_loop acc (Some ins) xs) = elems acc \<union> ids_of ins \<union> elems xs"
  using assms
proof (induction xs arbitrary: acc ins)
  case Nil
  then show ?case using adjoinOrAppend_push by simp
next
  case (Cons x xs)
  have x: "iv_start x < iv_end x" "\<forall>i \<in> set acc. iv_end i \<le> iv_start x"
    and xs: "wf_set xs" "\<forall>y \<in> set xs. iv_end x < iv_start y"
    using Cons.prems by auto
  show ?case
  proof (cases "interval_Before ins x")
    case True
    note p1 = adjoinOrAppend_push [OF Cons.prems(1,3,4)]
    have "\<forall>i \<in> set (adjoinOrAppend acc ins). iv_end i \<le> iv_start x"
      using push_ends [OF Cons.prems(1,3,4), of "iv_start x"] True by (simp add: Before_iff)
    note p2 = adjoinOrAppend_push [OF p1(1) x(1) this]
    have "\<forall>i \<in> set (adjoinOrAppend (adjoinOrAppend acc ins) x). \<forall>y \<in> set xs. iv_end i \<le> iv_start y"
      using p2(3) xs by fastforce
    from insert_loop_None [OF p2(1) xs(1) this] p1(2) p2(2) True show ?thesis by auto
  next
    case False
    obtain l r where lr: "interval_Bisect ins x = (l, r)" by (cases "interval_Bisect ins x")
    note bi = bisect_ids [OF Cons.prems(3) x(1) lr]
    define acc2 where "acc2 = adjoinOrAppend (push_nonzero acc l) x"
    have l: "\<forall>i \<in> set acc. iv_end i \<le> iv_start l" using Cons.prems(4) bi(2) by simp
    note p1 = push_nonzero_correct [OF Cons.prems(1) l x(2) bi(3)]
    note p2 = adjoinOrAppend_push [OF p1(1) x(1) p1(3), folded acc2_def]
    have ends: "\<forall>i \<in> set acc2. \<forall>y \<in> set xs. iv_end i \<le> iv_start y"
      using p2(3) xs by fastforce
    have step: "insert_loop acc (Some ins) (x # xs)
        = insert_loop acc2 (if interval_IsZero r then None else Some r) xs"
      using False lr by (simp add: acc2_def push_nonzero_def)
    have un: "ids_of ins \<union> ids_of x = ids_of l \<union> ids_of x \<union> ids_of r" using bi(1) by blast
    show ?thesis
    proof (cases "interval_IsZero r")
      case True
      then have "ids_of r = {}" by simp
      with insert_loop_None [OF p2(1) xs(1) ends] p1(2) p2(2) un True show ?thesis
        unfolding step by auto
    next
      case False
      have r: "iv_start r < iv_end r" "\<forall>i \<in> set acc2. iv_end i \<le> iv_start r"
        using False p2(3) bi(5) by auto
      from Cons.IH [OF p2(1) xs(1) r ends] p1(2) p2(2) un False show ?thesis
        unfolding step by auto
    qed
  qed
qed

lemma contains_loop_subset:
  "wf_set xs \<Longrightarrow> contains_loop ival xs \<Longrightarrow> ids_of ival \<subseteq> elems xs"
proof (induction ival xs rule: contains_loop.induct)
  case (2 ival x xs)
  obtain l r where lr: "interval_Bisect ival x = (l, r)" by (cases "interval_Bisect ival x")
  with 2 have "interval_IsZero l" "ids_of r \<subseteq> elems xs" by (auto split: if_splits)
  moreover have "ids_of ival - ids_of x = ids_of l \<union> ids_of r"
  proof (cases "iv_start ival < iv_end ival")
    case True
    then show ?thesis using bisect_ids(1) [OF _ _ lr] 2(2) by simp
  next
    case False
    then show ?thesis using lr 2(2) by (auto simp: interval_Bisect_def split: if_splits)
  qed
  moreover from \<open>interval_IsZero l\<close> have "ids_of l = {}" by simp
  ultimately show ?case by auto
qed simp

lemma wf_set_drop: "wf_set xs \<Longrightarrow> wf_set (drop n xs)"
  by (metis append_take_drop_id wf_set_append)

lemma elems_drop_subset: "elems (drop n xs) \<subseteq> elems xs"
  by (auto simp: elems_def dest: in_set_dropD)

lemma set_insert_correct:
  assumes "wf_set s"
  shows "wf_set (set_insert s i)" and "elems (set_insert s i) = elems s \<union> ids_of i"
proof -
  have "wf_set (set_insert s i) \<and> elems (set_insert s i) = elems s \<union> ids_of i"
  proof (cases "set_Contains s i")
    case True
    then have "ids_of i \<subseteq> elems s"
      using contains_loop_subset [OF wf_set_drop [OF assms]] elems_drop_subset
      by (fastforce simp: set_Contains_def)
    with True assms show ?thesis by (auto simp: set_insert_def)
  next
    case False
    have "iv_start i < iv_end i"
    proof (rule ccontr)
      assume "\<not> iv_start i < iv_end i"
      then have "contains_loop i xs" if "wf_set xs" for xs
        using that by (induction i xs rule: contains_loop.induct) (auto simp: interval_Bisect_def)
      then show False using False wf_set_drop [OF assms] by (simp add: set_Contains_def)
    qed
    with insert_loop_Some [of "[]" s i] assms False show ?thesis by (auto simp: set_insert_def)
  qed
  then show "wf_set (set_insert s i)" and "elems (set_insert s i) = elems s \<union> ids_of i" by auto
qed

lemma foldl_set_insert_correct:
  "wf_set s \<Longrightarrow> wf_set (foldl set_insert s is) \<and> elems (foldl set_insert s is) = elems s \<union> elems is"
  by (induction "is" arbitrary: s) (auto simp: set_insert_correct)

section \<open>Iteration and addition\<close>

lemma intersect_ids:
  "ids_of (interval_Intersect i j) = ids_of i \<inter> ids_of j"
  by (auto simp: interval_Intersect_def)

lemma intersect_bounds [simp]:
  "iv_start j \<le> iv_start (interval_Intersect i j)" "iv_end (interval_Intersect i j) \<le> iv_end j"
  by (auto simp: interval_Intersect_def)

lemma between_loop_within:
  "j \<in> set (between_loop ext xs) \<Longrightarrow> \<exists>x \<in> set xs. iv_start x \<le> iv_start j \<and> iv_end j \<le> iv_end x"
  by (induction ext xs rule: between_loop.induct) (auto split: if_splits)

lemma between_loop_correct:
  assumes "wf_set xs"
  shows "wf_set (between_loop ext xs) \<and> elems (between_loop ext xs) = elems xs \<inter> ids_of ext"
  using assms
proof (induction ext xs rule: between_loop.induct)
  case (2 ext i "is")
  show ?case
  proof (cases "interval_Before ext i")
    case True
    with 2(3) have "iv_end ext < iv_start j" if "j \<in> set (i # is)" for j
      using that by (force simp: Before_iff)
    then have "elems (i # is) \<inter> ids_of ext = {}" by (fastforce simp: mem_elems)
    with True show ?thesis by simp
  next
    case False
    define k where "k = interval_Intersect ext i"
    have "iv_end i < iv_start j" if "j \<in> set (between_loop ext is)" for j
      using between_loop_within [OF that] 2(3) by force
    then have tail: "\<forall>j \<in> set (between_loop ext is). iv_end k < iv_start j"
      using intersect_bounds(2) [of ext i] order.strict_trans1 unfolding k_def by blast
    have ids: "ids_of k = ids_of i \<inter> ids_of ext" unfolding k_def intersect_ids by blast
    have IH: "wf_set (between_loop ext is)" "elems (between_loop ext is) = elems is \<inter> ids_of ext"
      using 2 False by (auto simp: k_def)
    show ?thesis
    proof (cases "interval_IsZero k")
      case True
      then have "ids_of i \<inter> ids_of ext = {}" using ids by (metis IsZero_iff ids_of_empty_iff)
      with IH True False show ?thesis by (auto simp: k_def)
    next
      case nz: False
      then have "between_loop ext (i # is) = k # between_loop ext is"
        using False by (simp add: k_def)
      with IH tail ids nz show ?thesis by (simp add: Int_Un_distrib2)
    qed
  qed
qed simp

lemma wf_set_nth_less: "wf_set s \<Longrightarrow> k < l \<Longrightarrow> l < length s \<Longrightarrow> iv_end (s ! k) < iv_start (s ! l)"
  by (auto simp: wf_set_def sorted_wrt_iff_nth_less Before_iff)

lemma searchLow_before:
  assumes "wf_set s" and "k < searchLow s x" and "k < length s"
  shows "interval_Before (s ! k) x"
proof -
  have "\<not> interval_Before (s ! l) x" if "k \<le> l" "l < length s" "\<not> interval_Before (s ! k) x" for k l
    using that wf_set_nth_less [OF assms(1), of k l] wf_set_memD [OF assms(1)]
    by (cases "k = l") (auto simp: Before_iff, smt (verit) nth_mem)
  then have "\<forall>k<searchLow s x. \<not> \<not> interval_Before (s ! k) x"
    using sort_Search_correct [of "length s" "\<lambda>i. \<not> interval_Before (s ! i) x"]
    unfolding searchLow_def by blast
  with assms(2) show ?thesis by blast
qed

lemma searchLow_skips:
  assumes "wf_set s"
  shows "elems (take (searchLow s x) s) \<inter> ids_of x = {}"
proof -
  have "\<exists>k < searchLow s x. k < length s \<and> i = s ! k" if "i \<in> set (take (searchLow s x) s)" for i
    using that by (auto simp: in_set_conv_nth)
  then show ?thesis
    using searchLow_before [OF assms] by (fastforce simp: mem_elems Before_iff)
qed

lemma IntervalsBetween_correct:
  assumes "wf_set s"
  shows "wf_set (IntervalsBetween s ext)" and "elems (IntervalsBetween s ext) = elems s \<inter> ids_of ext"
proof -
  have "elems s = elems (take (searchLow s ext) s) \<union> elems (drop (searchLow s ext) s)"
    by (metis append_take_drop_id elems_simps(3))
  with searchLow_skips [OF assms, of ext] between_loop_correct [OF wf_set_drop [OF assms]]
  show "wf_set (IntervalsBetween s ext)" and "elems (IntervalsBetween s ext) = elems s \<inter> ids_of ext"
    unfolding IntervalsBetween_def by auto
qed

lemma wf_set_span:
  "wf_set s \<Longrightarrow> i \<in> set s \<Longrightarrow> iv_start (hd s) \<le> iv_start i \<and> iv_end i \<le> iv_end (last s)"
proof (induction s)
  case (Cons x xs)
  show ?case
  proof (cases xs)
    case Nil
    with Cons.prems show ?thesis by simp
  next
    case xs: (Cons y ys)
    then have "iv_end x < iv_start (hd xs)" "iv_start x < iv_end x"
      "iv_start (last xs) < iv_end (last xs)" "iv_end x < iv_start (last xs)"
      using Cons.prems(1) wf_set_memD [of xs "last xs"] by auto
    with Cons.IH Cons.prems xs show ?thesis by auto
  qed
qed simp

lemma set_Extent_covers:
  assumes "wf_set s" and "set_Extent s = Some e"
  shows "elems s \<subseteq> ids_of e" and "iv_start e = iv_start (hd s)" and "iv_start e < iv_end e"
proof -
  have s: "hd s \<in> set s" "last s \<in> set s" and e: "e = interval_Encompass (hd s) (last s)"
    using assms(2) by (auto simp: set_Extent_def split: if_splits)
  have "iv_start (hd s) < iv_end (hd s)" "iv_start (last s) < iv_end (last s)"
    "iv_start (hd s) \<le> iv_start (last s)" "iv_end (hd s) \<le> iv_end (last s)"
    using wf_set_memD [OF assms(1)] wf_set_span [OF assms(1)] s by blast+
  then have "e = mk_interval (iv_start (hd s)) (iv_end (last s))" "iv_start (hd s) < iv_end (last s)"
    by (auto simp: e interval_Encompass_def)
  then show "elems s \<subseteq> ids_of e" "iv_start e = iv_start (hd s)" "iv_start e < iv_end e"
    using wf_set_span [OF assms(1)] by (force simp: mem_elems)+
qed

lemma set_Add_correct:
  assumes "wf_set s" and "wf_set b"
  shows "wf_set (set_Add s b)" and "elems (set_Add s b) = elems s \<union> elems b"
proof -
  have "wf_set (set_Add s b) \<and> elems (set_Add s b) = elems s \<union> elems b"
  proof (cases "set_Extent b")
    case None
    with assms(1) show ?thesis by (simp add: set_Add_def set_Extent_def split: if_splits)
  next
    case (Some e)
    then show ?thesis
      using foldl_set_insert_correct [OF assms(1)] IntervalsBetween_correct(2) [OF assms(2), of e]
        set_Extent_covers(1) [OF assms(2) Some]
      by (auto simp: set_Add_def)
  qed
  then show "wf_set (set_Add s b)" and "elems (set_Add s b) = elems s \<union> elems b" by auto
qed

section \<open>Subtraction is set difference\<close>

lemma sub_loop_correct:
  assumes "wf_set acc" and "wf_set xs" and "wf_set ys"
    and "\<forall>i \<in> set acc. \<forall>x \<in> set xs. iv_end i \<le> iv_start x"
  shows "wf_set (sub_loop acc xs ys)
    \<and> elems (sub_loop acc xs ys) = elems acc \<union> (elems xs - elems ys)"
  using assms
proof (induction acc xs ys rule: sub_loop.induct)
  case (2 acc x xs)
  have x: "iv_start x < iv_end x" "\<forall>i \<in> set acc. iv_end i \<le> iv_start x"
    using 2(3,5) by auto
  note push = adjoinOrAppend_push [OF 2(2) x]
  have "\<forall>i \<in> set (adjoinOrAppend acc x). \<forall>y \<in> set xs. iv_end i \<le> iv_start y"
    using push(3) 2(3) by fastforce
  with 2(1) [OF push(1)] 2(3) push(2) show ?case by auto
next
  case (3 acc x xs y ys)
  obtain l r where lr: "interval_Bisect x y = (l, r)" by (cases "interval_Bisect x y")
  have x: "iv_start x < iv_end x" "\<forall>i \<in> set acc. iv_end i \<le> iv_start x" "\<forall>j \<in> set xs. iv_end x < iv_start j"
    "wf_set xs" using 3(4,6) by auto
  have y: "iv_start y < iv_end y" "\<forall>j \<in> set ys. iv_end y < iv_start j" "wf_set ys" using 3(5) by auto
  note bi = bisect_ids [OF x(1) y(1) lr]
  define acc' where "acc' = push_nonzero acc l"
  have "\<forall>i \<in> set acc. iv_end i \<le> iv_start l" "\<forall>i \<in> set acc. iv_end i \<le> max (iv_start x) (iv_end l)"
    using x(2) bi(2) by fastforce+
  from push_nonzero_correct [OF 3(3) this] have acc': "wf_set acc'" "elems acc' = elems acc \<union> ids_of l"
    "\<forall>i \<in> set acc'. iv_end i \<le> max (iv_start x) (iv_end l)"
    by (auto simp: acc'_def)
  have left: "ids_of l \<inter> elems (y # ys) = {}" using bi(3) y by (fastforce simp: mem_elems)
  have acc'_xs: "\<forall>i \<in> set acc'. \<forall>j \<in> set xs. iv_end i \<le> iv_start j"
    using acc'(3) x(1,3) bi(4) by fastforce
  have acc'_eq: "acc' = (if \<not> interval_IsZero l then adjoinOrAppend acc l else acc)"
    by (simp add: acc'_def push_nonzero_def)
  have step: "sub_loop acc (x # xs) (y # ys)
      = (if interval_IsZero r then sub_loop acc' xs (y # ys) else sub_loop acc' (r # xs) ys)"
    by (simp add: lr acc'_def push_nonzero_def)
  show ?case
  proof (cases "interval_IsZero r")
    case True
    then have "ids_of r = {}" by simp
    then have "ids_of x - elems (y # ys) = ids_of l" using bi(1) left by auto
    with 3(2) [OF lr [symmetric] acc'_eq _ acc'(1) x(4) 3(5) acc'_xs] True acc'(2) show ?thesis
      unfolding step by (simp add: Un_Diff Un_assoc)
  next
    case False
    have r: "iv_start r < iv_end r" using False by simp
    have "\<forall>i \<in> set acc'. iv_end i \<le> iv_start r"
      using acc'(3) bi(3,5,6) y(1) by fastforce
    moreover have "ids_of x - elems (y # ys) = ids_of l \<union> (ids_of r - elems ys)"
      using bi(1) left by auto
    moreover have "elems xs - elems (y # ys) = elems xs - elems ys"
      using x(3) r bi(5,7) by (fastforce simp: mem_elems)
    ultimately show ?thesis
      using 3(1) [OF lr [symmetric] acc'_eq False acc'(1) _ y(3)] False acc'(2) x acc'_xs bi(7) r
      unfolding step by (simp add: Un_Diff Un_assoc)
  qed
qed simp

lemma set_Sub_correct:
  assumes "wf_set s" and "wf_set b"
  shows "wf_set (set_Sub s b)" and "elems (set_Sub s b) = elems s - elems b"
proof -
  have "wf_set (set_Sub s b) \<and> elems (set_Sub s b) = elems s - elems b"
  proof (cases "set_Extent s")
    case None
    with assms(1) show ?thesis by (simp add: set_Sub_def set_Extent_def split: if_splits)
  next
    case (Some e)
    note cov = set_Extent_covers [OF assms(1) Some]
    have "searchLow s e = 0"
    proof (rule ccontr)
      assume "searchLow s e \<noteq> 0"
      moreover have "s \<noteq> []" using Some by (auto simp: set_Extent_def)
      ultimately have "interval_Before (s ! 0) e" using searchLow_before [OF assms(1)] by simp
      then show False using cov(2) \<open>s \<noteq> []\<close> by (auto simp: Before_iff hd_conv_nth)
    qed
    moreover have "elems s - elems (IntervalsBetween b e) = elems s - elems b"
      using IntervalsBetween_correct(2) [OF assms(2), of e] cov(1) by auto
    ultimately show ?thesis
      using sub_loop_correct [of "[]" s "IntervalsBetween b e"] assms IntervalsBetween_correct(1) Some
      by (simp add: set_Sub_def)
  qed
  then show "wf_set (set_Sub s b)" and "elems (set_Sub s b) = elems s - elems b" by auto
qed

lemma set_Add_single:
  assumes "wf_set s"
  shows "wf_set (set_Add s [i])" and "elems (set_Add s [i]) = elems s \<union> ids_of i"
proof -
  have "wf_set (set_Add s [i]) \<and> elems (set_Add s [i]) = elems s \<union> ids_of i"
  proof (cases "interval_IsZero i")
    case True
    then have "interval_Encompass i i = i" "interval_IsZero (interval_Intersect i i)"
      by (simp_all add: interval_Encompass_def interval_Intersect_def)
    then have "between_loop i (drop n [i]) = []" for n by (cases n) (simp_all add: Before_iff)
    then have "set_Add s [i] = s"
      using \<open>interval_Encompass i i = i\<close> by (simp add: set_Add_def set_Extent_def IntervalsBetween_def)
    moreover have "ids_of i = {}" using True by simp
    ultimately show ?thesis using assms by auto
  next
    case False
    then show ?thesis using set_Add_correct [OF assms, of "[i]"] by simp
  qed
  then show "wf_set (set_Add s [i])" and "elems (set_Add s [i]) = elems s \<union> ids_of i" by auto
qed

lemma set_ImmutableSet_wf: "wf_set s \<Longrightarrow> set_ImmutableSet s = Inr s"
  by (simp add: set_ImmutableSet_def NewSet_def CheckSorted_wf)

section \<open>The interface of the interval sets\<close>

text \<open>
  What the id sets rely on: an invariant every operation keeps, union and difference of
  the elements, and an enumeration as sorted disjoint intervals.
\<close>

locale interval_set =
  fixes inv :: "'s \<Rightarrow> bool" and ids :: "'s \<Rightarrow> int set"
    and empty_set :: 's and single :: "interval \<Rightarrow> 's"
    and add :: "'s \<Rightarrow> 's \<Rightarrow> 's" and sub :: "'s \<Rightarrow> 's \<Rightarrow> 's" and intervals :: "'s \<Rightarrow> interval list"
  assumes empty_ok: "inv empty_set" "ids empty_set = {}"
    and add_ok: "inv s \<Longrightarrow> inv t \<Longrightarrow> inv (add s t)" "inv s \<Longrightarrow> inv t \<Longrightarrow> ids (add s t) = ids s \<union> ids t"
    and add_single: "inv s \<Longrightarrow> inv (add s (single i))" "inv s \<Longrightarrow> ids (add s (single i)) = ids s \<union> ids_of i"
    and sub_ok: "inv s \<Longrightarrow> inv t \<Longrightarrow> inv (sub s t)" "inv s \<Longrightarrow> inv t \<Longrightarrow> ids (sub s t) = ids s - ids t"
    and intervals_ok: "inv s \<Longrightarrow> wf_set (intervals s)" "inv s \<Longrightarrow> elems (intervals s) = ids s"
begin

lemma add_all_from:
  "inv s \<Longrightarrow> inv (foldl (\<lambda>s i. add s (single i)) s is)
     \<and> ids (foldl (\<lambda>s i. add s (single i)) s is) = ids s \<union> elems is"
  by (induction "is" arbitrary: s) (auto simp: add_single)

lemma add_all:
  "inv (foldl (\<lambda>s i. add s (single i)) empty_set is)"
  "ids (foldl (\<lambda>s i. add s (single i)) empty_set is) = elems is"
  using add_all_from [OF empty_ok(1)] empty_ok(2) by auto

lemma sum_lengths_card: "wf_set xs \<Longrightarrow> (\<Sum>i\<leftarrow>xs. interval_length i) = int (card (elems xs))"
proof (induction xs)
  case (Cons x xs)
  have "ids_of x \<inter> elems xs = {}" using Cons.prems by (fastforce simp: mem_elems)
  then have "card (ids_of x \<union> elems xs) = card (ids_of x) + card (elems xs)"
    by (intro card_Un_disjoint) (simp_all add: ids_of_def)
  moreover have "int (card (ids_of x)) = interval_length x"
    by (simp add: ids_of_def interval_length_def)
  ultimately show ?case using Cons by simp
qed simp

lemma size_card: "inv s \<Longrightarrow> (\<Sum>i\<leftarrow>intervals s. interval_length i) = int (card (ids s))"
  using sum_lengths_card [OF intervals_ok(1)] intervals_ok(2) by simp

lemma finite_ids: "inv s \<Longrightarrow> finite (ids s)"
  using intervals_ok(2) finite_elems by metis

end

interpretation go_intervals: interval_set wf_set elems "[]" "\<lambda>i. [i]" set_Add set_Sub "\<lambda>s. s"
  by unfold_locales
    (simp_all add: set_Add_correct set_Add_single set_Sub_correct)

end
