(* ===== verification/Id_Set.thy ===== *)
theory Id_Set
  imports Interval_Set Id_Tools
begin

text \<open>
  \<open>storage/idset.go\<close>: sets of user or group ids on top of the interval sets, the choice of
  free ids, the pairing of host ids with container ids and the overlap check of mappings.
  The results state that the operations compute union, difference and cardinality, that
  \<open>findAvailable\<close> succeeds exactly when there are enough ids, that \<open>zip\<close> pairs the ids one to
  one, and that the overlap check is exact.
\<close>

section \<open>Operations\<close>

text \<open>A nil pointer to an \<open>idSet\<close> is \<open>None\<close>.\<close>

type_synonym idSet = "iset option"

definition newIDSet :: "interval list \<Rightarrow> idSet res" where
  "newIDSet intervals =
     and_then (set_ImmutableSet (foldl (\<lambda>s i. set_Add s [i]) [] intervals)) (\<lambda>s. Inr (Some s))"

definition getHostIDs :: "IDMap list \<Rightarrow> idSet res" where
  "getHostIDs idMaps = newIDSet (map (\<lambda>m. mk_interval (HostID m) (HostID m + Size m)) idMaps)"

definition getContainerIDs :: "IDMap list \<Rightarrow> idSet res" where
  "getContainerIDs idMaps = newIDSet (map (\<lambda>m. mk_interval (ContainerID m) (ContainerID m + Size m)) idMaps)"

definition idset_subtract :: "idSet \<Rightarrow> idSet \<Rightarrow> idSet" where
  "idset_subtract s t =
     (case s of None \<Rightarrow> None
      | Some a \<Rightarrow> (case t of None \<Rightarrow> Some a | Some b \<Rightarrow> Some (set_Sub a b)))"

definition idset_union :: "idSet \<Rightarrow> idSet \<Rightarrow> idSet" where
  "idset_union s t =
     (case s of None \<Rightarrow> t
      | Some a \<Rightarrow> (case t of None \<Rightarrow> Some a | Some b \<Rightarrow> Some (set_Add a b)))"

text \<open>The intervals the iterator yields until it returns nil.\<close>

definition idset_iterator :: "idSet \<Rightarrow> interval list" where
  "idset_iterator s = (case s of None \<Rightarrow> [] | Some a \<Rightarrow> a)"

definition idset_size :: "idSet \<Rightarrow> int" where
  "idset_size s = foldl (\<lambda>n i. n + interval_length i) 0 (idset_iterator s)"

fun findAvailable_loop :: "int \<Rightarrow> interval list \<Rightarrow> interval list \<times> int" where
  "findAvailable_loop n [] = ([], n)"
| "findAvailable_loop n (i # is) =
     (if n > 0
      then let i' = mk_interval (iv_start i) (min (iv_end i) (iv_start i + n))
           in (case findAvailable_loop (n - interval_length i') is of
                 (out, m) \<Rightarrow> (i' # out, m))
      else ([], n))"

definition findAvailable :: "idSet \<Rightarrow> int \<Rightarrow> idSet res" where
  "findAvailable s n =
     (case findAvailable_loop n (idset_iterator s) of
        (intervals, m) \<Rightarrow>
          if m > 0 then Inl ErrNoAvailableIDs
          else and_then (NewSet intervals) (\<lambda>s'. Inr (Some s')))"

function zip_loop :: "interval list \<Rightarrow> interval list \<Rightarrow> IDMap list" where
  "zip_loop (h # hs) (c # cs) =
     (let n = min (interval_length h) (interval_length c);
          out = (if n > 0 then [mk_IDMap (iv_start c) (iv_start h) n] else []);
          h' = (if n > 0 then h\<lparr>iv_start := iv_start h + n\<rparr> else h);
          c' = (if n > 0 then c\<lparr>iv_start := iv_start c + n\<rparr> else c)
      in out @ zip_loop (if interval_IsZero h' then hs else h' # hs)
                        (if interval_IsZero c' then cs else c' # cs))"
| "zip_loop [] cs = []"
| "zip_loop (h # hs) [] = []"
  by pat_completeness auto
termination
proof (relation "measure (\<lambda>(hs, cs). length hs + length cs)", goal_cases)
  case (2 h hs c cs n out h' c')
  then have "interval_IsZero h' \<or> interval_IsZero c'"
    by (auto simp: interval_length_def min_def max_def split: if_splits)
  then show ?case by auto
qed simp

definition idset_zip :: "idSet \<Rightarrow> idSet \<Rightarrow> IDMap list" where
  "idset_zip s container = zip_loop (idset_iterator s) (idset_iterator container)"

text \<open>
  The loop of \<open>hasOverlappingRanges\<close>: the container and host sets seen so far, and the
  mappings reported as conflicts. The flag \<open>overlaps\<close> is shared by the two tests.
\<close>

fun overlap_loop :: "iset \<Rightarrow> iset \<Rightarrow> IDMap list \<Rightarrow> IDMap list" where
  "overlap_loop containerIntervals hostIntervals [] = []"
| "overlap_loop containerIntervals hostIntervals (m # ms) =
     (let c = mk_interval (ContainerID m) (ContainerID m + Size m);
          h = mk_interval (HostID m) (HostID m + Size m);
          overlaps1 = (IntervalsBetween containerIntervals c \<noteq> []);
          added = overlaps1;
          conflicts1 = (if overlaps1 then [m] else []);
          overlaps2 = (overlaps1 \<or> IntervalsBetween hostIntervals h \<noteq> []);
          conflicts2 = (if overlaps2 \<and> \<not> added then [m] else [])
      in conflicts1 @ conflicts2
         @ overlap_loop (set_Add containerIntervals [c]) (set_Add hostIntervals [h]) ms)"

definition hasOverlappingRanges :: "IDMap list \<Rightarrow> go_error option" where
  "hasOverlappingRanges mappings =
     (if overlap_loop [] [] mappings \<noteq> [] then Some ErrInvalidMappings else None)"

section \<open>Sets and sizes\<close>

text \<open>The ids of a possibly nil set, and the invariant of the sets the code builds.\<close>

definition idset_ids :: "idSet \<Rightarrow> int set" where
  "idset_ids s = elems (idset_iterator s)"

definition idset_ok :: "idSet \<Rightarrow> bool" where
  "idset_ok s \<longleftrightarrow> wf_set (idset_iterator s)"

lemma idset_simps [simp]:
  "idset_ids None = {}" "idset_ids (Some a) = elems a"
  "idset_ok None" "idset_ok (Some a) \<longleftrightarrow> wf_set a"
  "idset_iterator None = []" "idset_iterator (Some a) = a"
  by (simp_all add: idset_ids_def idset_ok_def idset_iterator_def)

lemma newIDSet_correct:
  "\<exists>a. newIDSet is = Inr (Some a) \<and> wf_set a \<and> elems a = elems is"
  using go_intervals.add_all [of "is"] by (simp add: newIDSet_def set_ImmutableSet_wf)

lemma elems_map: "elems (map (\<lambda>m. mk_interval (f m) (f m + Size m)) ms) = (\<Union>m \<in> set ms. {f m ..< f m + Size m})"
  by (induction ms) (auto simp: ids_of_def)

lemma getHostIDs_correct:
  "\<exists>a. getHostIDs ms = Inr (Some a) \<and> wf_set a \<and> elems a = (\<Union>m \<in> set ms. host_range m)"
  using newIDSet_correct by (simp add: getHostIDs_def elems_map [symmetric] host_range_def)

lemma getContainerIDs_correct:
  "\<exists>a. getContainerIDs ms = Inr (Some a) \<and> wf_set a \<and> elems a = (\<Union>m \<in> set ms. container_range m)"
  using newIDSet_correct by (simp add: getContainerIDs_def elems_map [symmetric] container_range_def)

lemma idset_subtract_correct:
  assumes "idset_ok s" and "idset_ok t"
  shows "idset_ok (idset_subtract s t)" and "idset_ids (idset_subtract s t) = idset_ids s - idset_ids t"
  using assms set_Sub_correct by (auto simp: idset_subtract_def split: option.splits)

lemma idset_union_correct:
  assumes "idset_ok s" and "idset_ok t"
  shows "idset_ok (idset_union s t)" and "idset_ids (idset_union s t) = idset_ids s \<union> idset_ids t"
  using assms set_Add_correct by (auto simp: idset_union_def split: option.splits)

lemma foldl_lengths: "foldl (\<lambda>n i. n + interval_length i) k is = k + (\<Sum>i\<leftarrow>is. interval_length i)"
  by (induction "is" arbitrary: k) simp_all

lemma idset_size_card: "idset_ok s \<Longrightarrow> idset_size s = int (card (idset_ids s))"
  using go_intervals.size_card by (simp add: idset_size_def foldl_lengths idset_ok_def idset_ids_def)

text \<open>
  C6: the set operations of \<open>idset.go\<close>. Building a set from intervals never panics and
  collects their ids; \<open>union\<close> and \<open>subtract\<close> of well-formed sets, nil ones included, give
  the union and the difference of the ids and a well-formed set again; \<open>size\<close> is the number
  of ids.
\<close>

theorem idset_operations:
  "(\<exists>s. newIDSet is = Inr s \<and> idset_ok s \<and> idset_ids s = elems is)
   \<and> (idset_ok s \<and> idset_ok t \<longrightarrow>
        idset_ok (idset_union s t) \<and> idset_ids (idset_union s t) = idset_ids s \<union> idset_ids t
      \<and> idset_ok (idset_subtract s t) \<and> idset_ids (idset_subtract s t) = idset_ids s - idset_ids t
      \<and> idset_size s = int (card (idset_ids s)))"
  using newIDSet_correct [of "is"] idset_union_correct idset_subtract_correct idset_size_card
  by (auto intro: exI [of _ "Some _"])

theorem idset_operations_witness:
  "idset_ids (idset_subtract (Some [mk_interval 0 10, mk_interval 20 30]) (Some [mk_interval 5 25]))
     = {0 ..< 10} \<union> {20 ..< 30} - {5 ..< 25}
   \<and> idset_size (Some [mk_interval 0 10, mk_interval 20 30]) = 20"
  using idset_operations [of "[]" "Some [mk_interval 0 10, mk_interval 20 30]" "Some [mk_interval 5 25]"]
  by (simp add: ids_of_def idset_size_def interval_length_def)

section \<open>Choosing free ids\<close>

lemma findAvailable_loop_within:
  "(out, m) = findAvailable_loop n is \<Longrightarrow> j \<in> set out \<Longrightarrow>
     \<exists>i \<in> set is. iv_start i \<le> iv_start j \<and> iv_end j \<le> iv_end i"
  by (induction n "is" arbitrary: out m rule: findAvailable_loop.induct)
    (fastforce split: if_splits prod.splits simp: Let_def)+

lemma findAvailable_loop_correct:
  assumes "wf_set is" and "findAvailable_loop n is = (out, m)"
  shows "wf_set out \<and> elems out \<subseteq> elems is \<and> (\<Sum>i\<leftarrow>out. interval_length i) = n - m
    \<and> (0 < m \<longrightarrow> out = is) \<and> (0 \<le> n \<longrightarrow> 0 \<le> m)"
  using assms
proof (induction n "is" arbitrary: out m rule: findAvailable_loop.induct)
  case (2 n i "is")
  show ?case
  proof (cases "n > 0")
    case True
    define i' where "i' = mk_interval (iv_start i) (min (iv_end i) (iv_start i + n))"
    obtain out' where run: "findAvailable_loop (n - interval_length i') is = (out', m)" "out = i' # out'"
      using 2(3) True by (auto simp: i'_def Let_def split: prod.splits)
    note IH = 2(1) [OF True i'_def _ run(1)]
    have i: "iv_start i < iv_end i" "wf_set is" "\<forall>j \<in> set is. iv_end i < iv_start j" using 2(2) by auto
    have "iv_end i < iv_start j" if "j \<in> set out'" for j
      using findAvailable_loop_within [OF run(1) [symmetric] that] i(3) by force
    then have "wf_set out" using IH i True run(2) by (force simp: i'_def)
    moreover have "ids_of i' \<subseteq> ids_of i" by (auto simp: i'_def)
    moreover have "interval_length i' \<le> n" "0 \<le> interval_length i'"
      using True by (auto simp: i'_def interval_length_def)
    moreover have "i' = i" if "0 < n - interval_length i'"
      using that i(1) by (auto simp: i'_def interval_length_def min_def split: if_splits)
    moreover have "m \<le> n - interval_length i'"
      using IH i(2) by (metis diff_ge_0_iff_ge elems_def sum_list_nonneg interval_length_def max.cobounded1 imageE list.set_map)
    ultimately show ?thesis using IH i(2) run(2) by auto
  qed (use 2 in auto)
qed auto

lemma findAvailable_exact_card:
  assumes "idset_ok s" and "0 \<le> n"
  shows "if int (card (idset_ids s)) < n then findAvailable s n = Inl ErrNoAvailableIDs
    else \<exists>t. findAvailable s n = Inr t \<and> idset_ok t \<and> idset_ids t \<subseteq> idset_ids s \<and> int (card (idset_ids t)) = n"
proof -
  obtain out m where run: "findAvailable_loop n (idset_iterator s) = (out, m)"
    by (cases "findAvailable_loop n (idset_iterator s)")
  have wf: "wf_set (idset_iterator s)" using assms(1) by (simp add: idset_ok_def)
  note loop = findAvailable_loop_correct [OF wf run]
  have out: "int (card (elems out)) = n - m" using loop go_intervals.sum_lengths_card [of out] by auto
  have le: "int (card (elems out)) \<le> int (card (idset_ids s))"
    using loop by (simp add: idset_ids_def card_mono)
  show ?thesis
  proof (cases "m > 0")
    case True
    then have "n - m = int (card (idset_ids s))" using out loop by (simp add: idset_ids_def)
    with True run show ?thesis by (simp add: findAvailable_def)
  next
    case False
    then have "m = 0" using loop assms(2) by simp
    with run out le loop show ?thesis
      by (auto simp: findAvailable_def NewSet_def CheckSorted_wf idset_ids_def)
  qed
qed

text \<open>
  C4: \<open>findAvailable\<close> on a well-formed set and a non-negative count fails, with
  \<open>ErrNoAvailableIDs\<close>, exactly when the set has fewer ids than asked for; otherwise it
  returns a well-formed subset with exactly that many ids.
\<close>

theorem findAvailable_exact:
  assumes "idset_ok s" and "0 \<le> n"
  shows "if int (card (idset_ids s)) < n then findAvailable s n = Inl ErrNoAvailableIDs
    else \<exists>t. findAvailable s n = Inr t \<and> idset_ok t \<and> idset_ids t \<subseteq> idset_ids s \<and> int (card (idset_ids t)) = n"
  by (rule findAvailable_exact_card [OF assms])

theorem findAvailable_exact_witness:
  "findAvailable (Some [mk_interval 10 12, mk_interval 20 25]) 8 = Inl ErrNoAvailableIDs
   \<and> (\<exists>t. findAvailable (Some [mk_interval 10 12, mk_interval 20 25]) 3 = Inr t
         \<and> int (card (idset_ids t)) = 3)"
proof -
  let ?s = "Some [mk_interval 10 12, mk_interval 20 25]"
  have ok: "idset_ok ?s" by simp
  have "int (card (idset_ids ?s)) = 7"
    using idset_size_card [OF ok] by (simp add: idset_size_def interval_length_def)
  then show ?thesis
    using findAvailable_exact [OF ok, of 8] findAvailable_exact [OF ok, of 3] by auto
qed

section \<open>Pairing host and container ids\<close>

text \<open>What one step of the loop takes off the front of either list.\<close>

lemma advance:
  assumes "wf_set (x # xs)" and "0 < n" and "n \<le> interval_length x"
    and "ys = (if interval_IsZero (x\<lparr>iv_start := iv_start x + n\<rparr>) then xs else x\<lparr>iv_start := iv_start x + n\<rparr> # xs)"
  shows "wf_set ys" and "elems (x # xs) = {iv_start x ..< iv_start x + n} \<union> elems ys"
    and "\<forall>k \<in> elems ys. iv_start x + n \<le> k"
    and "(\<Sum>i\<leftarrow>ys. interval_length i) = (\<Sum>i\<leftarrow>x # xs. interval_length i) - n"
proof -
  have x: "iv_start x < iv_end x" "iv_start x + n \<le> iv_end x" "wf_set xs" "\<forall>j \<in> set xs. iv_end x < iv_start j"
    using assms by (auto simp: interval_length_def)
  have ids: "ids_of x = {iv_start x ..< iv_start x + n} \<union> {iv_start x + n ..< iv_end x}"
    using x assms(2) by (auto simp: ids_of_def)
  show "wf_set ys" "elems (x # xs) = {iv_start x ..< iv_start x + n} \<union> elems ys"
    "(\<Sum>i\<leftarrow>ys. interval_length i) = (\<Sum>i\<leftarrow>x # xs. interval_length i) - n"
    using x ids unfolding assms(4) by (auto simp: ids_of_def interval_length_def)
  have "iv_start x + n \<le> k" if "k \<in> elems xs" for k
    using that x(2,4) by (fastforce simp: mem_elems)
  then show "\<forall>k \<in> elems ys. iv_start x + n \<le> k"
    unfolding assms(4) by auto
qed

definition zips :: "int set \<Rightarrow> int set \<Rightarrow> IDMap list \<Rightarrow> bool" where
  "zips H C ms \<longleftrightarrow>
     disjoint_ranges host_range ms \<and> disjoint_ranges container_range ms
     \<and> (\<Union>m \<in> set ms. host_range m) \<subseteq> H \<and> (\<Union>m \<in> set ms. container_range m) \<subseteq> C
     \<and> (\<forall>m \<in> set ms. 0 < Size m)"

lemma zips_Cons:
  assumes "zips H C ms" and "0 < n" and "H' = {h ..< h + n} \<union> H" and "C' = {c ..< c + n} \<union> C"
    and "\<forall>k \<in> H. h + n \<le> k" and "\<forall>k \<in> C. c + n \<le> k"
  shows "zips H' C' (mk_IDMap c h n # ms)"
  using assms unfolding zips_def
  by (force simp: host_range_def container_range_def)

lemma zip_loop_step:
  assumes "wf_set (h # hs)" and "wf_set (c # cs)" and "n = min (interval_length h) (interval_length c)"
  shows "0 < n" and "n \<le> interval_length h" and "n \<le> interval_length c"
    and "zip_loop (h # hs) (c # cs) = mk_IDMap (iv_start c) (iv_start h) n
      # zip_loop (if interval_IsZero (h\<lparr>iv_start := iv_start h + n\<rparr>) then hs else h\<lparr>iv_start := iv_start h + n\<rparr> # hs)
          (if interval_IsZero (c\<lparr>iv_start := iv_start c + n\<rparr>) then cs else c\<lparr>iv_start := iv_start c + n\<rparr> # cs)"
proof -
  show n: "0 < n" and "n \<le> interval_length h" "n \<le> interval_length c"
    using assms by (auto simp: interval_length_def)
  then show "zip_loop (h # hs) (c # cs) = mk_IDMap (iv_start c) (iv_start h) n
      # zip_loop (if interval_IsZero (h\<lparr>iv_start := iv_start h + n\<rparr>) then hs else h\<lparr>iv_start := iv_start h + n\<rparr> # hs)
          (if interval_IsZero (c\<lparr>iv_start := iv_start c + n\<rparr>) then cs else c\<lparr>iv_start := iv_start c + n\<rparr> # cs)"
    unfolding zip_loop.simps Let_def assms(3) [symmetric] by simp
qed

lemma zip_loop_correct:
  assumes "wf_set hs" and "wf_set cs"
  shows "zips (elems hs) (elems cs) (zip_loop hs cs)
    \<and> sum_list (map Size (zip_loop hs cs))
      = min (\<Sum>i\<leftarrow>hs. interval_length i) (\<Sum>i\<leftarrow>cs. interval_length i)"
  using assms
proof (induction "length hs + length cs" arbitrary: hs cs rule: less_induct)
  case less
  have nonneg: "0 \<le> (\<Sum>i\<leftarrow>is. interval_length i)" for "is" by (intro sum_list_nonneg) (auto simp: interval_length_def)
  show ?case
  proof (cases "hs = [] \<or> cs = []")
    case True
    then show ?thesis using nonneg [of hs] nonneg [of cs] by (cases hs) (auto simp: zips_def min_def)
  next
    case False
    then obtain h hs' c cs' where eq: "hs = h # hs'" "cs = c # cs'" by (auto simp: neq_Nil_conv)
    define n where "n = min (interval_length h) (interval_length c)"
    note step = zip_loop_step [OF less.prems [unfolded eq] n_def]
    define hs1 where "hs1 = (if interval_IsZero (h\<lparr>iv_start := iv_start h + n\<rparr>) then hs' else h\<lparr>iv_start := iv_start h + n\<rparr> # hs')"
    define cs1 where "cs1 = (if interval_IsZero (c\<lparr>iv_start := iv_start c + n\<rparr>) then cs' else c\<lparr>iv_start := iv_start c + n\<rparr> # cs')"
    note H = advance [OF less.prems(1) [unfolded eq] step(1,2) hs1_def]
    note C = advance [OF less.prems(2) [unfolded eq] step(1,3) cs1_def]
    have "interval_IsZero (h\<lparr>iv_start := iv_start h + n\<rparr>) \<or> interval_IsZero (c\<lparr>iv_start := iv_start c + n\<rparr>)"
      by (auto simp: n_def interval_length_def min_def max_def)
    then have "length hs1 + length cs1 < length hs + length cs" by (auto simp: hs1_def cs1_def eq)
    note IH = less.hyps [OF this H(1) C(1)]
    have z: "zip_loop hs cs = mk_IDMap (iv_start c) (iv_start h) n # zip_loop hs1 cs1"
      unfolding eq step(4) hs1_def cs1_def ..
    show ?thesis
      unfolding z unfolding eq
      using zips_Cons [OF conjunct1 [OF IH] step(1) H(2) C(2) H(3) C(3)] IH H(4) C(4) by auto
  qed
qed

lemma disjoint_card:
  assumes "disjoint_ranges f ms" and "\<forall>m \<in> set ms. finite (f m) \<and> int (card (f m)) = Size m"
  shows "int (card (\<Union>m \<in> set ms. f m)) = sum_list (map Size ms)"
  using assms
proof (induction ms)
  case (Cons m ms)
  have "card (f m \<union> (\<Union>m \<in> set ms. f m)) = card (f m) + card (\<Union>m \<in> set ms. f m)"
    using Cons.prems by (intro card_Un_disjoint) auto
  with Cons show ?case by simp
qed simp

lemma idset_zip_pairs:
  assumes "idset_ok s" and "idset_ok t" and "card (idset_ids s) = card (idset_ids t)"
  shows "disjoint_ranges host_range (idset_zip s t) \<and> disjoint_ranges container_range (idset_zip s t)
    \<and> (\<Union>m \<in> set (idset_zip s t). host_range m) = idset_ids s
    \<and> (\<Union>m \<in> set (idset_zip s t). container_range m) = idset_ids t
    \<and> (\<forall>m \<in> set (idset_zip s t). 0 < Size m)"
proof -
  let ?ms = "idset_zip s t"
  have wf: "wf_set (idset_iterator s)" "wf_set (idset_iterator t)" using assms by (auto simp: idset_ok_def)
  note z = zip_loop_correct [OF wf, folded idset_zip_def idset_ids_def]
  then have d: "disjoint_ranges host_range ?ms" "disjoint_ranges container_range ?ms"
    "(\<Union>m \<in> set ?ms. host_range m) \<subseteq> idset_ids s" "(\<Union>m \<in> set ?ms. container_range m) \<subseteq> idset_ids t"
    "\<forall>m \<in> set ?ms. 0 < Size m"
    by (auto simp: zips_def)
  have sum: "sum_list (map Size ?ms) = int (card (idset_ids s))"
    using z go_intervals.sum_lengths_card [OF wf(1)] go_intervals.sum_lengths_card [OF wf(2)] assms(3)
    by (simp add: idset_ids_def)
  have ranges: "\<forall>m \<in> set ?ms. finite (host_range m) \<and> int (card (host_range m)) = Size m"
    "\<forall>m \<in> set ?ms. finite (container_range m) \<and> int (card (container_range m)) = Size m"
    using d(5) by (force simp: host_range_def container_range_def)+
  have "card (\<Union>m \<in> set ?ms. host_range m) = card (idset_ids s)"
    "card (\<Union>m \<in> set ?ms. container_range m) = card (idset_ids t)"
    using disjoint_card [OF d(1) ranges(1)] disjoint_card [OF d(2) ranges(2)] sum assms(3) by linarith+
  moreover have "finite (idset_ids s)" "finite (idset_ids t)" by (simp_all add: idset_ids_def)
  ultimately have "(\<Union>m \<in> set ?ms. host_range m) = idset_ids s" "(\<Union>m \<in> set ?ms. container_range m) = idset_ids t"
    using d(3,4) card_subset_eq by metis+
  with d show ?thesis by blast
qed

text \<open>
  C3: \<open>zip\<close> of two well-formed sets with equally many ids pairs them one to one: the host
  ranges of the result partition the host ids, its container ranges partition the container
  ids, and no mapping is empty.
\<close>

theorem idset_zip_partition:
  assumes "idset_ok s" and "idset_ok t" and "card (idset_ids s) = card (idset_ids t)"
  shows "disjoint_ranges host_range (idset_zip s t) \<and> disjoint_ranges container_range (idset_zip s t)
    \<and> (\<Union>m \<in> set (idset_zip s t). host_range m) = idset_ids s
    \<and> (\<Union>m \<in> set (idset_zip s t). container_range m) = idset_ids t
    \<and> (\<forall>m \<in> set (idset_zip s t). 0 < Size m)"
  by (rule idset_zip_pairs [OF assms])

theorem idset_zip_partition_witness:
  "idset_zip (Some [mk_interval 100 103, mk_interval 200 202]) (Some [mk_interval 0 1, mk_interval 5 9])
     = [mk_IDMap 0 100 1, mk_IDMap 5 101 2, mk_IDMap 7 200 2]
   \<and> (\<Union>m \<in> set [mk_IDMap 0 100 1, mk_IDMap 5 101 2, mk_IDMap 7 200 2]. container_range m)
       = {0 ..< 1} \<union> {5 ..< 9}"
proof -
  let ?s = "Some [mk_interval 100 103, mk_interval 200 202]" and ?t = "Some [mk_interval 0 1, mk_interval 5 9]"
  have ok: "idset_ok ?s" "idset_ok ?t" by simp_all
  have "int (card (idset_ids ?s)) = int (card (idset_ids ?t))"
    using idset_size_card [OF ok(1)] idset_size_card [OF ok(2)] by (simp add: idset_size_def interval_length_def)
  moreover have "idset_zip ?s ?t = [mk_IDMap 0 100 1, mk_IDMap 5 101 2, mk_IDMap 7 200 2]"
    by (simp add: idset_zip_def interval_length_def)
  ultimately show ?thesis
    using idset_zip_partition [OF ok] by (simp add: ids_of_def)
qed

section \<open>The overlap check\<close>

lemma IntervalsBetween_empty_iff:
  assumes "wf_set s"
  shows "IntervalsBetween s x = [] \<longleftrightarrow> elems s \<inter> ids_of x = {}"
proof -
  note b = IntervalsBetween_correct [OF assms, of x]
  have "elems is = {} \<longleftrightarrow> is = []" if "wf_set is" for "is"
    using that by (cases "is") (fastforce simp: ids_of_def)+
  then show ?thesis using b by metis
qed

lemma overlap_loop_empty_iff:
  assumes "wf_set cs" and "wf_set hs"
  shows "overlap_loop cs hs ms = [] \<longleftrightarrow>
    disjoint_ranges container_range ms \<and> disjoint_ranges host_range ms
    \<and> (\<forall>m \<in> set ms. container_range m \<inter> elems cs = {} \<and> host_range m \<inter> elems hs = {})"
  using assms
proof (induction ms arbitrary: cs hs)
  case (Cons m ms)
  let ?c = "mk_interval (ContainerID m) (ContainerID m + Size m)" and ?h = "mk_interval (HostID m) (HostID m + Size m)"
  have ids: "ids_of ?c = container_range m" "ids_of ?h = host_range m"
    by (simp_all add: ids_of_def container_range_def host_range_def)
  note C = set_Add_single [OF Cons.prems(1), of ?c, unfolded ids]
  note H = set_Add_single [OF Cons.prems(2), of ?h, unfolded ids]
  have "overlap_loop cs hs (m # ms) = [] \<longleftrightarrow>
      elems cs \<inter> container_range m = {} \<and> elems hs \<inter> host_range m = {}
      \<and> overlap_loop (set_Add cs [?c]) (set_Add hs [?h]) ms = []"
    using IntervalsBetween_empty_iff [OF Cons.prems(1), of ?c] IntervalsBetween_empty_iff [OF Cons.prems(2), of ?h]
    unfolding ids by (auto simp: Let_def)
  also have "\<dots> \<longleftrightarrow> disjoint_ranges container_range (m # ms) \<and> disjoint_ranges host_range (m # ms)
      \<and> (\<forall>m' \<in> set (m # ms). container_range m' \<inter> elems cs = {} \<and> host_range m' \<inter> elems hs = {})"
    unfolding Cons.IH [OF C(1) H(1)] C(2) H(2) by auto
  finally show ?case .
qed simp

lemma overlap_check_iff:
  "hasOverlappingRanges ms =
     (if disjoint_ranges container_range ms \<and> disjoint_ranges host_range ms
      then None else Some ErrInvalidMappings)"
  by (simp add: hasOverlappingRanges_def overlap_loop_empty_iff)

text \<open>
  C5: \<open>hasOverlappingRanges\<close> returns no error exactly when the container ranges of the
  mappings are pairwise disjoint and their host ranges are pairwise disjoint; otherwise it
  returns \<open>ErrInvalidMappings\<close>.
\<close>

theorem hasOverlappingRanges_iff:
  "hasOverlappingRanges ms =
     (if disjoint_ranges container_range ms \<and> disjoint_ranges host_range ms
      then None else Some ErrInvalidMappings)"
  by (rule overlap_check_iff)

end
