(* ===== verification/User_NS.thy ===== *)
theory User_NS
  imports Id_Set
begin

text \<open>
  \<open>storage/userns.go\<close>: the automatic user namespaces. The ids available to the user, the
  size an image needs, and the mapping computed from them. Sizes and layer owners are
  32-bit words as in the code. The results characterise the mapping exactly, show that it
  passes the overlap check of \<open>idset.go\<close>, and relate the computed size to the ids found in
  the image.
\<close>

section \<open>Available ids\<close>

text \<open>
  \<open>getAdditionalSubIDs\<close>. The process environment is an argument: whether it runs rootless,
  the \<open>USER\<close> variable, the effective and the rootless uid, the user database and the
  function \<open>NewIDMappings\<close> applied to the chosen name.
\<close>

record user_env =
  IsRootless :: bool
  env_USER :: string
  Geteuid :: int
  GetRootlessUID :: int
  LookupId :: "string \<Rightarrow> string option"
  new_mappings :: "string \<Rightarrow> IDMappings res"

definition RootAutoUserNsUser :: string where
  "RootAutoUserNsUser = ''containers''"

definition subid_user :: "user_env \<Rightarrow> string \<Rightarrow> string" where
  "subid_user e username =
     (if IsRootless e then
        (if env_USER e = ''''
         then (let uid = (if Geteuid e = 0 then format_int (GetRootlessUID e) else format_int (Geteuid e))
               in case LookupId e uid of Some name \<Rightarrow> name | None \<Rightarrow> env_USER e)
         else env_USER e)
      else if username = '''' then RootAutoUserNsUser
      else username)"

definition slice :: "'a list option \<Rightarrow> 'a list" where
  "slice xs = (case xs of None \<Rightarrow> [] | Some ys \<Rightarrow> ys)"

definition getAdditionalSubIDs :: "user_env \<Rightarrow> string \<Rightarrow> (idSet \<times> idSet) res" where
  "getAdditionalSubIDs e username =
     (case new_mappings e (subid_user e username) of
        Inl _ \<Rightarrow> Inr (None, None)
      | Inr mappings \<Rightarrow>
          and_then (getHostIDs (slice (map_uids mappings))) (\<lambda>uids.
          and_then (getHostIDs (slice (map_gids mappings))) (\<lambda>gids. Inr (uids, gids))))"

text \<open>\<open>getAvailableIDs\<close> caches the sets in the store; the model returns the new cache.\<close>

record id_cache =
  additionalUIDs :: idSet
  additionalGIDs :: idSet

definition getAvailableIDs :: "user_env \<Rightarrow> string \<Rightarrow> id_cache \<Rightarrow> (id_cache \<times> idSet \<times> idSet) res" where
  "getAvailableIDs e autoUsernsUser s =
     and_then
       (if additionalUIDs s = None
        then and_then (getAdditionalSubIDs e autoUsernsUser) (\<lambda>(uids, gids).
               Inr (s\<lparr>additionalUIDs := uids, additionalGIDs := gids\<rparr>))
        else Inr s) (\<lambda>s'.
     if \<not> IsRootless e then Inr (s', additionalUIDs s', additionalGIDs s')
     else
       and_then (newIDSet [mk_interval 1 (idset_size (additionalUIDs s') + 1)]) (\<lambda>u.
       and_then (newIDSet [mk_interval 1 (idset_size (additionalGIDs s') + 1)]) (\<lambda>g.
         Inr (s', u, g))))"

section \<open>The size an image needs\<close>

record passwd_user =
  pw_Name :: string
  pw_Uid :: int
  pw_Gid :: int

record group_entry =
  gr_Name :: string
  gr_Gid :: int

definition nobodyUser :: int where
  "nobodyUser = 65534"

definition bump_size :: "int \<Rightarrow> int \<Rightarrow> int" where
  "bump_size sz i = (if i > sz \<and> i \<noteq> nobodyUser then i + 1 else sz)"

definition is_nobody :: "string \<Rightarrow> bool" where
  "is_nobody name \<longleftrightarrow> name = ''nobody'' \<or> name = ''nogroup''"

definition user_step :: "int \<Rightarrow> passwd_user \<Rightarrow> int" where
  "user_step sz u =
     (if is_nobody (pw_Name u) then sz else bump_size (bump_size sz (pw_Uid u)) (pw_Gid u))"

definition group_step :: "int \<Rightarrow> group_entry \<Rightarrow> int" where
  "group_step sz g = (if is_nobody (gr_Name g) then sz else bump_size sz (gr_Gid g))"

text \<open>
  \<open>parseMountedFiles\<close>; \<open>None\<close> stands for a file that cannot be opened or parsed.
\<close>

definition parseMountedFiles :: "passwd_user list option \<Rightarrow> group_entry list option \<Rightarrow> 32 word" where
  "parseMountedFiles users groups =
     word_of_int (foldl group_step (foldl user_step 0 (slice users)) (slice groups))"

text \<open>
  The loop of \<open>getMaxSizeFromImage\<close> over the chain of layers: the owners recorded in each
  layer, in 32-bit arithmetic, the first of the stores that knows a layer deciding. The
  loop follows the parents until one is empty, and does not end on a cyclic chain.
\<close>

record owned_layer =
  ol_UIDs :: "32 word list"
  ol_GIDs :: "32 word list"
  ol_Parent :: string

definition owner_size :: "32 word \<Rightarrow> 32 word list \<Rightarrow> 32 word" where
  "owner_size sz ids = foldl (\<lambda>sz i. if i \<ge> sz then i + 1 else sz) sz ids"

fun first_store :: "(string \<Rightarrow> owned_layer option) list \<Rightarrow> string \<Rightarrow> owned_layer option" where
  "first_store [] name = None"
| "first_store (ls # stores) name = (case ls name of Some l \<Rightarrow> Some l | None \<Rightarrow> first_store stores name)"

partial_function (option) image_size_walk ::
  "(string \<Rightarrow> owned_layer option) list \<Rightarrow> string \<Rightarrow> 32 word \<Rightarrow> (32 word res) option" where
  "image_size_walk layerStores layerName sz =
     (case first_store layerStores layerName of
        None \<Rightarrow> Some (Inl (ErrFmt ''cannot find layer''))
      | Some layer \<Rightarrow>
          let sz' = owner_size (owner_size sz (ol_UIDs layer)) (ol_GIDs layer)
          in if ol_Parent layer = '''' then Some (Inr sz')
             else image_size_walk layerStores (ol_Parent layer) sz')"

section \<open>The mapping\<close>

definition auto_side :: "int \<Rightarrow> idSet \<Rightarrow> IDMap list \<Rightarrow> IDMap list \<Rightarrow> (idSet \<times> idSet) res" where
  "auto_side sz available used additional =
     and_then (getHostIDs (used @ additional)) (\<lambda>usedIDs.
     and_then (newIDSet [mk_interval 0 sz]) (\<lambda>targetIDs.
     and_then (getContainerIDs additional) (\<lambda>additionalIDs.
       Inr (idset_subtract available usedIDs, idset_subtract targetIDs additionalIDs))))"

definition getAutoUserNSIDMappings ::
  "int \<Rightarrow> idSet \<Rightarrow> idSet \<Rightarrow> IDMap list \<Rightarrow> IDMap list \<Rightarrow> IDMap list \<Rightarrow> IDMap list
   \<Rightarrow> (IDMap list \<times> IDMap list) res" where
  "getAutoUserNSIDMappings sz availableUIDs availableGIDs usedUIDMappings usedGIDMappings
     additionalUIDMappings additionalGIDMappings =
     and_then (auto_side sz availableUIDs usedUIDMappings additionalUIDMappings)
       (\<lambda>(freeUIDs, requestedContainerUIDs).
     and_then (auto_side sz availableGIDs usedGIDMappings additionalGIDMappings)
       (\<lambda>(freeGIDs, requestedContainerGIDs).
     and_then (findAvailable freeUIDs (idset_size requestedContainerUIDs)) (\<lambda>uids.
     and_then (findAvailable freeGIDs (idset_size requestedContainerGIDs)) (\<lambda>gids.
       Inr (idset_zip uids requestedContainerUIDs @ additionalUIDMappings,
            idset_zip gids requestedContainerGIDs @ additionalGIDMappings)))))"

record auto_options =
  opt_Size :: "32 word"
  opt_InitialSize :: "32 word"
  AdditionalUIDMappings :: "IDMap list"
  AdditionalGIDMappings :: "IDMap list"

text \<open>
  \<open>getAutoUserNS\<close>: the sets of \<open>getAvailableIDs\<close>, the mappings of the existing containers
  and the result of \<open>getMaxSizeFromImage\<close> (\<open>None\<close> when there is no image) are arguments.
\<close>

definition auto_size :: "32 word \<Rightarrow> 32 word \<Rightarrow> auto_options \<Rightarrow> 32 word res option \<Rightarrow> 32 word res" where
  "auto_size autoNsMinSize autoNsMaxSize options sizeFromImage =
     (let requestedSize = (if opt_Size options > 0 then opt_Size options else 0);
          initialSize = (if opt_InitialSize options > 0 then opt_InitialSize options else 1)
      in if requestedSize = 0
         then and_then
                (case sizeFromImage of
                   None \<Rightarrow> Inr (max autoNsMinSize initialSize)
                 | Some r \<Rightarrow> and_then r (\<lambda>n.
                     Inr (if n > max autoNsMinSize initialSize then n else max autoNsMinSize initialSize)))
                (\<lambda>sz. if autoNsMaxSize > 0 \<and> sz > autoNsMaxSize
                      then Inl (ErrFmt ''the container needs a user namespace bigger than the maximum value'')
                      else Inr sz)
         else Inr requestedSize)"

definition getAutoUserNS ::
  "32 word \<Rightarrow> 32 word \<Rightarrow> auto_options \<Rightarrow> (idSet \<times> idSet) res \<Rightarrow> (IDMap list \<times> IDMap list) list res
   \<Rightarrow> 32 word res option \<Rightarrow> (IDMap list \<times> IDMap list) res" where
  "getAutoUserNS autoNsMinSize autoNsMaxSize options available containers sizeFromImage =
     and_then available (\<lambda>(availableUIDs, availableGIDs).
     and_then containers (\<lambda>cs.
     and_then (auto_size autoNsMinSize autoNsMaxSize options sizeFromImage) (\<lambda>sz.
       getAutoUserNSIDMappings (uint sz) availableUIDs availableGIDs
         (concat (map fst cs)) (concat (map snd cs))
         (AdditionalUIDMappings options) (AdditionalGIDMappings options))))"

section \<open>The computed mapping is right\<close>

text \<open>What the additional mappings leave of the request, and the ids that are still free.\<close>

definition requested_ids :: "int \<Rightarrow> IDMap list \<Rightarrow> int set" where
  "requested_ids sz additional = {0 ..< sz} - (\<Union>m \<in> set additional. container_range m)"

definition free_ids :: "idSet \<Rightarrow> IDMap list \<Rightarrow> IDMap list \<Rightarrow> int set" where
  "free_ids available used additional = idset_ids available - (\<Union>m \<in> set (used @ additional). host_range m)"

definition auto_mapping :: "int set \<Rightarrow> int set \<Rightarrow> IDMap list \<Rightarrow> bool" where
  "auto_mapping requested free ms \<longleftrightarrow>
     disjoint_ranges container_range ms \<and> disjoint_ranges host_range ms
     \<and> (\<Union>m \<in> set ms. container_range m) = requested \<and> (\<Union>m \<in> set ms. host_range m) \<subseteq> free"

lemma auto_side_correct:
  assumes "idset_ok available"
  shows "\<exists>free req. auto_side sz available used additional = Inr (free, req) \<and> idset_ok free \<and> idset_ok req
    \<and> idset_ids free = free_ids available used additional \<and> idset_ids req = requested_ids sz additional"
proof -
  obtain u where u: "getHostIDs (used @ additional) = Inr (Some u)" "wf_set u"
    "elems u = (\<Union>m \<in> set (used @ additional). host_range m)"
    using getHostIDs_correct by blast
  obtain t where t: "newIDSet [mk_interval 0 sz] = Inr (Some t)" "wf_set t" "elems t = {0 ..< sz}"
    using newIDSet_correct [of "[mk_interval 0 sz]"] by (auto simp: ids_of_def)
  obtain c where c: "getContainerIDs additional = Inr (Some c)" "wf_set c"
    "elems c = (\<Union>m \<in> set additional. container_range m)"
    using getContainerIDs_correct by blast
  have "auto_side sz available used additional
      = Inr (idset_subtract available (Some u), idset_subtract (Some t) (Some c))"
    by (simp add: auto_side_def u(1) t(1) c(1))
  moreover have "idset_ok (idset_subtract available (Some u))" "idset_ok (idset_subtract (Some t) (Some c))"
    "idset_ids (idset_subtract available (Some u)) = free_ids available used additional"
    "idset_ids (idset_subtract (Some t) (Some c)) = requested_ids sz additional"
    using idset_subtract_correct [OF assms, of "Some u"] idset_subtract_correct [of "Some t" "Some c"] u t c
    by (simp_all add: free_ids_def requested_ids_def)
  ultimately show ?thesis by blast
qed

lemma auto_pick:
  assumes "idset_ok free" and "idset_ok req"
  shows "if card (idset_ids free) < card (idset_ids req)
    then findAvailable free (idset_size req) = Inl ErrNoAvailableIDs
    else \<exists>ids. findAvailable free (idset_size req) = Inr ids
           \<and> auto_mapping (idset_ids req) (idset_ids free) (idset_zip ids req)"
proof -
  have sz: "idset_size req = int (card (idset_ids req))" by (rule idset_size_card [OF assms(2)])
  show ?thesis
  proof (cases "card (idset_ids free) < card (idset_ids req)")
    case True
    with findAvailable_exact_card [OF assms(1), of "idset_size req"] sz show ?thesis by simp
  next
    case False
    with findAvailable_exact_card [OF assms(1), of "idset_size req"] sz
    obtain ids where ids: "findAvailable free (idset_size req) = Inr ids" "idset_ok ids"
      "idset_ids ids \<subseteq> idset_ids free" "card (idset_ids ids) = card (idset_ids req)" by auto
    with idset_zip_pairs [OF ids(2) assms(2) ids(4)] False show ?thesis
      by (auto simp: auto_mapping_def)
  qed
qed

lemma auto_mappings_cases:
  assumes "idset_ok availableUIDs" and "idset_ok availableGIDs"
  shows "if card (free_ids availableUIDs usedU addU) < card (requested_ids sz addU)
        \<or> card (free_ids availableGIDs usedG addG) < card (requested_ids sz addG)
    then getAutoUserNSIDMappings sz availableUIDs availableGIDs usedU usedG addU addG = Inl ErrNoAvailableIDs
    else \<exists>us gs. getAutoUserNSIDMappings sz availableUIDs availableGIDs usedU usedG addU addG
             = Inr (us @ addU, gs @ addG)
           \<and> auto_mapping (requested_ids sz addU) (free_ids availableUIDs usedU addU) us
           \<and> auto_mapping (requested_ids sz addG) (free_ids availableGIDs usedG addG) gs"
proof -
  obtain fu ru where u: "auto_side sz availableUIDs usedU addU = Inr (fu, ru)" "idset_ok fu" "idset_ok ru"
    "idset_ids fu = free_ids availableUIDs usedU addU" "idset_ids ru = requested_ids sz addU"
    using auto_side_correct [OF assms(1)] by blast
  obtain fg rg where g: "auto_side sz availableGIDs usedG addG = Inr (fg, rg)" "idset_ok fg" "idset_ok rg"
    "idset_ids fg = free_ids availableGIDs usedG addG" "idset_ids rg = requested_ids sz addG"
    using auto_side_correct [OF assms(2)] by blast
  from auto_pick [OF u(2,3)] auto_pick [OF g(2,3)] u g show ?thesis
    by (auto simp: getAutoUserNSIDMappings_def split: if_splits)
qed

text \<open>
  C1: \<open>getAutoUserNSIDMappings\<close> on well-formed sets fails, with \<open>ErrNoAvailableIDs\<close>,
  exactly when there are fewer free user or group ids than requested. Otherwise each side
  is an automatic part followed by the additional mappings, where the automatic part covers
  exactly the container ids from 0 to the size that the additional mappings leave open,
  without overlap on either side, and uses only host ids that are available, not used by a
  container and not used by an additional mapping.
\<close>

theorem getAutoUserNSIDMappings_exact:
  assumes "idset_ok availableUIDs" and "idset_ok availableGIDs"
  shows "if card (free_ids availableUIDs usedU addU) < card (requested_ids sz addU)
        \<or> card (free_ids availableGIDs usedG addG) < card (requested_ids sz addG)
    then getAutoUserNSIDMappings sz availableUIDs availableGIDs usedU usedG addU addG = Inl ErrNoAvailableIDs
    else \<exists>us gs. getAutoUserNSIDMappings sz availableUIDs availableGIDs usedU usedG addU addG
             = Inr (us @ addU, gs @ addG)
           \<and> auto_mapping (requested_ids sz addU) (free_ids availableUIDs usedU addU) us
           \<and> auto_mapping (requested_ids sz addG) (free_ids availableGIDs usedG addG) gs"
  by (rule auto_mappings_cases [OF assms])

theorem getAutoUserNSIDMappings_exact_witness:
  "getAutoUserNSIDMappings 10 (Some [mk_interval 1000 1005]) (Some [mk_interval 1000 1020]) [] [] [] []
     = Inl ErrNoAvailableIDs"
proof -
  have "card (free_ids (Some [mk_interval 1000 1005]) [] []) < card (requested_ids 10 [])"
    by (simp add: free_ids_def requested_ids_def ids_of_def)
  then show ?thesis
    using getAutoUserNSIDMappings_exact
      [of "Some [mk_interval 1000 1005]" "Some [mk_interval 1000 1020]" "[]" "[]" 10 "[]" "[]"] by simp
qed

lemma auto_mapping_append:
  assumes "auto_mapping (requested_ids sz add) (free_ids available used add) ms"
    and "disjoint_ranges container_range add" and "disjoint_ranges host_range add"
  shows "disjoint_ranges container_range (ms @ add) \<and> disjoint_ranges host_range (ms @ add)"
proof -
  have app: "disjoint_ranges f (xs @ ys)"
    if "disjoint_ranges f xs" "disjoint_ranges f ys" "(\<Union>x \<in> set xs. f x) \<inter> (\<Union>y \<in> set ys. f y) = {}"
    for f :: "IDMap \<Rightarrow> int set" and xs ys
    using that by (induction xs) auto
  show ?thesis
    using assms by (intro conjI app) (auto simp: auto_mapping_def requested_ids_def free_ids_def)
qed

lemma auto_mapping_unused:
  assumes "auto_mapping requested (free_ids available (concat used) add) ms"
  shows "\<forall>c \<in> set used. \<forall>m \<in> set ms. \<forall>m' \<in> set c. host_range m \<inter> host_range m' = {}"
proof (intro ballI)
  fix c m m'
  assume mem: "c \<in> set used" "m \<in> set ms" "m' \<in> set c"
  then have "m' \<in> set (concat used @ add)" by auto
  then have "host_range m' \<inter> free_ids available (concat used) add = {}" unfolding free_ids_def by blast
  moreover have "host_range m \<subseteq> free_ids available (concat used) add"
    using assms mem(2) by (auto simp: auto_mapping_def)
  ultimately show "host_range m \<inter> host_range m' = {}" by blast
qed



section \<open>The size covers the ids of the image\<close>

lemma bump_size_ge: "sz \<le> bump_size sz i" "i \<noteq> nobodyUser \<Longrightarrow> i \<le> bump_size sz i"
  by (auto simp: bump_size_def)

lemma bump_size_le: "sz \<le> b \<Longrightarrow> i < b \<Longrightarrow> bump_size sz i \<le> b"
  by (auto simp: bump_size_def)

lemma foldl_mono_ge:
  fixes f :: "int \<Rightarrow> 'a \<Rightarrow> int"
  assumes "\<And>sz x. sz \<le> f sz x"
  shows "sz \<le> foldl f sz xs" and "x \<in> set xs \<Longrightarrow> (\<And>sz. v \<le> f sz x) \<Longrightarrow> v \<le> foldl f sz xs"
proof -
  show ge: "sz \<le> foldl f sz xs" for sz xs
    by (induction xs arbitrary: sz) (auto intro: order_trans [OF assms])
  show "v \<le> foldl f sz xs" if "x \<in> set xs" "\<And>sz. v \<le> f sz x"
    using that(1)
  proof (induction xs arbitrary: sz)
    case (Cons y ys)
    then show ?case using that(2) ge [of "f sz x" ys] by (cases "y = x") (auto intro: order_trans)
  qed simp
qed

lemma foldl_bounded:
  fixes f :: "int \<Rightarrow> 'a \<Rightarrow> int"
  assumes "\<And>sz x. x \<in> set xs \<Longrightarrow> sz \<le> b \<Longrightarrow> f sz x \<le> b" and "sz \<le> b"
  shows "foldl f sz xs \<le> b"
  using assms by (induction xs arbitrary: sz) auto

text \<open>The entries \<open>parseMountedFiles\<close> looks at.\<close>

definition user_ids :: "passwd_user list \<Rightarrow> int set" where
  "user_ids users = (\<Union>u \<in> set users. if is_nobody (pw_Name u) then {} else {pw_Uid u, pw_Gid u}) - {nobodyUser}"

definition group_ids :: "group_entry list \<Rightarrow> int set" where
  "group_ids groups = (\<Union>g \<in> set groups. if is_nobody (gr_Name g) then {} else {gr_Gid g}) - {nobodyUser}"

lemma user_step_ge:
  "sz \<le> user_step sz u"
  "\<not> is_nobody (pw_Name u) \<Longrightarrow> i \<in> {pw_Uid u, pw_Gid u} \<Longrightarrow> i \<noteq> nobodyUser \<Longrightarrow> i \<le> user_step sz u"
  using bump_size_ge(1) [of sz "pw_Uid u"] bump_size_ge(1) [of "bump_size sz (pw_Uid u)" "pw_Gid u"]
    bump_size_ge(2) [of "pw_Uid u" sz] bump_size_ge(2) [of "pw_Gid u" "bump_size sz (pw_Uid u)"]
  by (auto simp: user_step_def)

lemma group_step_ge:
  "sz \<le> group_step sz g"
  "\<not> is_nobody (gr_Name g) \<Longrightarrow> gr_Gid g \<noteq> nobodyUser \<Longrightarrow> gr_Gid g \<le> group_step sz g"
  by (auto simp: group_step_def bump_size_ge)

lemma users_size_ge: "i \<in> user_ids users \<Longrightarrow> i \<le> foldl user_step sz users"
  unfolding user_ids_def
  by (auto split: if_splits intro!: foldl_mono_ge(2) [of user_step] user_step_ge)

lemma groups_size_ge: "i \<in> group_ids groups \<Longrightarrow> i \<le> foldl group_step sz groups"
  unfolding group_ids_def
  by (auto split: if_splits intro!: foldl_mono_ge(2) [of group_step] group_step_ge)

lemma parseMountedFiles_uint:
  assumes "\<forall>u \<in> set users. pw_Uid u < 2 ^ 32 - 1 \<and> pw_Gid u < 2 ^ 32 - 1"
    and "\<forall>g \<in> set groups. gr_Gid g < 2 ^ 32 - 1"
  shows "uint (parseMountedFiles (Some users) (Some groups)) = foldl group_step (foldl user_step 0 users) groups"
proof -
  have "foldl user_step 0 users \<le> 2 ^ 32 - 1" using assms(1)
    by (intro foldl_bounded) (auto simp: user_step_def intro!: bump_size_le)
  then have "foldl group_step (foldl user_step 0 users) groups \<le> 2 ^ 32 - 1" using assms(2)
    by (intro foldl_bounded [of groups]) (auto simp: group_step_def intro!: bump_size_le)
  moreover have "0 \<le> foldl user_step 0 users" by (rule foldl_mono_ge(1), rule user_step_ge)
  then have "0 \<le> foldl group_step (foldl user_step 0 users) groups"
    using foldl_mono_ge(1) [of group_step, OF group_step_ge(1)] order_trans by blast
  ultimately show ?thesis
    by (simp add: parseMountedFiles_def slice_def uint_word_of_int_eq take_bit_int_eq_self_iff)
qed

lemma parseMountedFiles_ge:
  assumes "\<forall>u \<in> set users. pw_Uid u < 2 ^ 32 - 1 \<and> pw_Gid u < 2 ^ 32 - 1"
    and "\<forall>g \<in> set groups. gr_Gid g < 2 ^ 32 - 1"
  shows "\<forall>i \<in> user_ids users \<union> group_ids groups. i \<le> uint (parseMountedFiles (Some users) (Some groups))"
  unfolding parseMountedFiles_uint [OF assms]
  using users_size_ge [of _ users 0] groups_size_ge
    foldl_mono_ge(1) [of group_step "foldl user_step 0 users" groups, OF group_step_ge(1)]
  by (metis UnE order_trans)



section \<open>The walk over the layers ends above every owner\<close>

text \<open>A chain of layers that ends at a layer without a parent.\<close>

inductive layer_chain :: "(string \<Rightarrow> owned_layer option) list \<Rightarrow> string \<Rightarrow> owned_layer list \<Rightarrow> bool"
  for stores where
  chain_base: "first_store stores name = Some l \<Longrightarrow> ol_Parent l = '''' \<Longrightarrow> layer_chain stores name [l]"
| chain_step: "first_store stores name = Some l \<Longrightarrow> ol_Parent l \<noteq> '''' \<Longrightarrow>
    layer_chain stores (ol_Parent l) ls \<Longrightarrow> layer_chain stores name (l # ls)"

inductive_cases layer_chain_NilE [elim!]: "layer_chain stores name []"
inductive_cases layer_chain_ConsE [elim]: "layer_chain stores name (l # ls)"

definition chain_size :: "32 word \<Rightarrow> owned_layer list \<Rightarrow> 32 word" where
  "chain_size sz ls = foldl (\<lambda>sz l. owner_size (owner_size sz (ol_UIDs l)) (ol_GIDs l)) sz ls"

lemma image_size_walk_chain:
  "layer_chain stores name ls \<Longrightarrow> image_size_walk stores name sz = Some (Inr (chain_size sz ls))"
  by (induction name ls arbitrary: sz rule: layer_chain.induct)
    (subst image_size_walk.simps, simp add: chain_size_def)+

lemma owner_size_above:
  assumes "- 1 \<notin> set ids"
  shows "sz \<le> owner_size sz ids \<and> (\<forall>i \<in> set ids. i < owner_size sz ids)"
  using assms
proof (induction ids arbitrary: sz)
  case (Cons i ids)
  define sz' where "sz' = (if i \<ge> sz then i + 1 else sz)"
  have "1 + i \<noteq> 0" using Cons.prems by (auto simp: add_eq_0_iff)
  then have "i < i + 1" by (simp add: word_less_nat_alt unatSuc add.commute)
  then have "sz \<le> sz' \<and> i < sz'" by (auto simp: sz'_def)
  moreover have "owner_size sz (i # ids) = owner_size sz' ids" by (simp add: owner_size_def sz'_def)
  ultimately show ?case using Cons by (auto intro: order_trans order_less_le_trans)
qed (simp add: owner_size_def)

lemma chain_size_above:
  assumes "\<forall>l \<in> set ls. - 1 \<notin> set (ol_UIDs l) \<and> - 1 \<notin> set (ol_GIDs l)"
  shows "sz \<le> chain_size sz ls \<and> (\<forall>l \<in> set ls. \<forall>i \<in> set (ol_UIDs l) \<union> set (ol_GIDs l). i < chain_size sz ls)"
  using assms
proof (induction ls arbitrary: sz)
  case (Cons l ls)
  define sz' where "sz' = owner_size (owner_size sz (ol_UIDs l)) (ol_GIDs l)"
  have "sz \<le> sz' \<and> (\<forall>i \<in> set (ol_UIDs l) \<union> set (ol_GIDs l). i < sz')"
    using owner_size_above [of "ol_UIDs l" sz] owner_size_above [of "ol_GIDs l" "owner_size sz (ol_UIDs l)"] Cons.prems
    unfolding sz'_def by (auto intro: order_trans order_less_le_trans)
  moreover have "chain_size sz (l # ls) = chain_size sz' ls" by (simp add: chain_size_def sz'_def)
  ultimately show ?case using Cons by (auto intro: order_trans order_less_le_trans)
qed (simp add: chain_size_def)



end
