(* ===== verification/Trunc_Index.thy ===== *)
theory Trunc_Index
  imports Go_Prelude
begin

text \<open>
  \<open>storage/pkg/truncindex\<close>: the index that finds an identifier by any unambiguous prefix.
  The prefix tree of the library the code calls is represented by the list of the keys it
  stores: \<open>Insert\<close> refuses a key it has, \<open>Delete\<close> reports whether it had the key, and
  \<open>VisitSubtree\<close> visits the keys that extend a prefix. The results give the exact answer of
  \<open>Get\<close> and the invariant that ties the tree to the map of identifiers, and the contract the
  stores rely on is a locale interpreted on these definitions.
\<close>

section \<open>Operations\<close>

record TruncIndex =
  trie :: "string list"
  index_ids :: "string list"

definition trie_Insert :: "string \<Rightarrow> string list \<Rightarrow> string list \<times> bool" where
  "trie_Insert key t = (if key \<in> set t then (t, False) else (t @ [key], True))"

definition trie_Delete :: "string \<Rightarrow> string list \<Rightarrow> string list \<times> bool" where
  "trie_Delete key t = (if key \<in> set t then (filter (\<lambda>k. k \<noteq> key) t, True) else (t, False))"

definition addID :: "TruncIndex \<Rightarrow> string \<Rightarrow> TruncIndex \<times> go_error option" where
  "addID idx k =
     (if CHR '' '' \<in> set k then (idx, Some ErrIllegalChar)
      else if k = '''' then (idx, Some ErrEmptyPrefix)
      else if k \<in> set (index_ids idx) then (idx, Some (ErrFmt ''id already exists''))
      else let idx1 = idx\<lparr>index_ids := index_ids idx @ [k]\<rparr>
           in (case trie_Insert k (trie idx1) of
                 (t, inserted) \<Rightarrow>
                   (idx1\<lparr>trie := t\<rparr>, if inserted then None else Some (ErrFmt ''failed to insert id''))))"

definition NewTruncIndex :: "string list \<Rightarrow> TruncIndex" where
  "NewTruncIndex ks = foldl (\<lambda>idx k. fst (addID idx k)) \<lparr>trie = [], index_ids = []\<rparr> ks"

definition index_Add :: "TruncIndex \<Rightarrow> string \<Rightarrow> TruncIndex \<times> go_error option" where
  "index_Add idx k = addID idx k"

definition index_Delete :: "TruncIndex \<Rightarrow> string \<Rightarrow> TruncIndex \<times> go_error option" where
  "index_Delete idx k =
     (if k \<notin> set (index_ids idx) \<or> k = '''' then (idx, Some (ErrFmt ''no such id''))
      else let idx1 = idx\<lparr>index_ids := filter (\<lambda>j. j \<noteq> k) (index_ids idx)\<rparr>
           in (case trie_Delete k (trie idx1) of
                 (t, deleted) \<Rightarrow>
                   (idx1\<lparr>trie := t\<rparr>, if deleted then None else Some (ErrFmt ''no such id''))))"

text \<open>The visitor of \<open>Get\<close> on the keys it is called with; \<open>found\<close> is the variable \<open>id\<close>.\<close>

fun get_visit :: "string \<Rightarrow> string list \<Rightarrow> string res" where
  "get_visit found [] = Inr found"
| "get_visit found (k # ks) = (if found \<noteq> '''' then Inl ErrAmbiguousPrefix else get_visit k ks)"

definition index_Get :: "TruncIndex \<Rightarrow> string \<Rightarrow> string res" where
  "index_Get idx s =
     (if s = '''' then Inl ErrEmptyPrefix
      else and_then (get_visit '''' (filter (prefix s) (trie idx))) (\<lambda>found.
             if found \<noteq> '''' then Inr found else Inl ErrNotExist))"

section \<open>Invariant\<close>

definition index_ok :: "TruncIndex \<Rightarrow> bool" where
  "index_ok idx \<longleftrightarrow> set (trie idx) = set (index_ids idx) \<and> distinct (trie idx) \<and> '''' \<notin> set (trie idx)"

definition legal_id :: "string \<Rightarrow> bool" where
  "legal_id k \<longleftrightarrow> k \<noteq> '''' \<and> CHR '' '' \<notin> set k"

lemma addID_ok:
  assumes "index_ok idx"
  shows "index_ok (fst (addID idx k))"
    and "set (index_ids (fst (addID idx k))) = set (index_ids idx) \<union> (if legal_id k then {k} else {})"
    and "snd (addID idx k) = None \<longleftrightarrow> legal_id k \<and> k \<notin> set (index_ids idx)"
  using assms by (auto simp: addID_def index_ok_def trie_Insert_def legal_id_def)

lemma NewTruncIndex_from:
  assumes "index_ok idx"
  shows "index_ok (foldl (\<lambda>idx k. fst (addID idx k)) idx ks)
    \<and> set (index_ids (foldl (\<lambda>idx k. fst (addID idx k)) idx ks)) = set (index_ids idx) \<union> {k \<in> set ks. legal_id k}"
  using assms
proof (induction ks arbitrary: idx)
  case (Cons k ks)
  then show ?case using addID_ok(1,2) [OF Cons.prems, of k] by auto
qed simp

lemma NewTruncIndex_ok:
  "index_ok (NewTruncIndex ks)" "set (index_ids (NewTruncIndex ks)) = {k \<in> set ks. legal_id k}"
  using NewTruncIndex_from [of "\<lparr>trie = [], index_ids = []\<rparr>" ks]
  by (auto simp: NewTruncIndex_def index_ok_def)

lemma index_Delete_ok:
  assumes "index_ok idx"
  shows "index_ok (fst (index_Delete idx k))"
    and "set (index_ids (fst (index_Delete idx k))) = set (index_ids idx) - {k}"
    and "snd (index_Delete idx k) = None \<longleftrightarrow> k \<in> set (index_ids idx)"
  using assms by (auto simp: index_Delete_def index_ok_def trie_Delete_def)

lemma get_visit_found: "found \<noteq> '''' \<Longrightarrow> get_visit found ks = (if ks = [] then Inr found else Inl ErrAmbiguousPrefix)"
  by (cases ks) auto

lemma get_visit_cases:
  "'''' \<notin> set ks \<Longrightarrow>
     get_visit '''' ks = (case ks of [] \<Rightarrow> Inr '''' | [k] \<Rightarrow> Inr k | _ \<Rightarrow> Inl ErrAmbiguousPrefix)"
  by (cases ks) (auto simp: get_visit_found split: list.splits)

lemma index_Get_matches:
  assumes "index_ok idx"
  shows "\<exists>m. distinct m \<and> set m = {k \<in> set (index_ids idx). prefix s k}
    \<and> index_Get idx s = (if s = '''' then Inl ErrEmptyPrefix
        else case m of [] \<Rightarrow> Inl ErrNotExist | [k] \<Rightarrow> Inr k | _ \<Rightarrow> Inl ErrAmbiguousPrefix)"
proof (intro exI conjI)
  let ?m = "filter (prefix s) (trie idx)"
  show "distinct ?m" "set ?m = {k \<in> set (index_ids idx). prefix s k}"
    using assms by (auto simp: index_ok_def)
  have ne: "'''' \<notin> set ?m" using assms by (auto simp: index_ok_def)
  then show "index_Get idx s = (if s = '''' then Inl ErrEmptyPrefix
      else case ?m of [] \<Rightarrow> Inl ErrNotExist | [k] \<Rightarrow> Inr k | _ \<Rightarrow> Inl ErrAmbiguousPrefix)"
    unfolding index_Get_def get_visit_cases [OF ne] by (cases ?m; cases "tl ?m") auto
qed

lemma index_Get_spec:
  assumes "index_ok idx"
  shows "index_Get idx s = Inr k \<longleftrightarrow>
    s \<noteq> '''' \<and> k \<in> set (index_ids idx) \<and> prefix s k
    \<and> (\<forall>j \<in> set (index_ids idx). prefix s j \<longrightarrow> j = k)"
proof -
  obtain m where m: "distinct m" "set m = {k \<in> set (index_ids idx). prefix s k}"
    "index_Get idx s = (if s = '''' then Inl ErrEmptyPrefix
        else case m of [] \<Rightarrow> Inl ErrNotExist | [k] \<Rightarrow> Inr k | _ \<Rightarrow> Inl ErrAmbiguousPrefix)"
    using index_Get_matches [OF assms] by blast
  have "index_Get idx s = Inr k \<longleftrightarrow> s \<noteq> '''' \<and> set m = {k}"
    using m(1,3) by (cases m; cases "tl m") auto
  then show ?thesis unfolding m(2) by blast
qed

text \<open>
  C17: the exact answer of the truncated index on a consistent index. \<open>Get\<close> returns an
  identifier exactly when the argument is a non-empty prefix of it and of no other stored
  identifier; it reports an ambiguous prefix exactly when two stored identifiers extend the
  argument, and a missing one exactly when none does.
\<close>

theorem index_Get_exact:
  assumes "index_ok idx"
  shows "(index_Get idx s = Inr k \<longleftrightarrow>
      s \<noteq> '''' \<and> k \<in> set (index_ids idx) \<and> prefix s k \<and> (\<forall>j \<in> set (index_ids idx). prefix s j \<longrightarrow> j = k))
    \<and> (index_Get idx s = Inl ErrAmbiguousPrefix \<longleftrightarrow>
        s \<noteq> '''' \<and> (\<exists>i \<in> set (index_ids idx). \<exists>j \<in> set (index_ids idx). i \<noteq> j \<and> prefix s i \<and> prefix s j))
    \<and> (index_Get idx s = Inl ErrNotExist \<longleftrightarrow> s \<noteq> '''' \<and> (\<forall>i \<in> set (index_ids idx). \<not> prefix s i))"
proof -
  obtain m where m: "distinct m" "set m = {k \<in> set (index_ids idx). prefix s k}"
    "index_Get idx s = (if s = '''' then Inl ErrEmptyPrefix
        else case m of [] \<Rightarrow> Inl ErrNotExist | [k] \<Rightarrow> Inr k | _ \<Rightarrow> Inl ErrAmbiguousPrefix)"
    using index_Get_matches [OF assms] by blast
  have "index_Get idx s = Inl ErrAmbiguousPrefix \<longleftrightarrow> s \<noteq> '''' \<and> (\<exists>i \<in> set m. \<exists>j \<in> set m. i \<noteq> j)"
    using m(1,3) by (cases m; cases "tl m") auto
  moreover have "index_Get idx s = Inl ErrNotExist \<longleftrightarrow> s \<noteq> '''' \<and> set m = {}"
    using m(3) by (cases m; cases "tl m") auto
  ultimately show ?thesis unfolding index_Get_spec [OF assms] m(2) by blast
qed

theorem index_Get_exact_witness:
  "index_Get (NewTruncIndex [''abc'', ''abd'']) ''ab'' = Inl ErrAmbiguousPrefix
   \<and> index_Get (NewTruncIndex [''abc'', ''abd'']) ''abd'' = Inr ''abd''"
proof -
  have ids: "set (index_ids (NewTruncIndex [''abc'', ''abd''])) = {''abc'', ''abd''}"
    by (simp add: NewTruncIndex_def addID_def trie_Insert_def)
  have "index_Get (NewTruncIndex [''abc'', ''abd'']) ''ab'' = Inl ErrAmbiguousPrefix"
    by (rule index_Get_exact [OF NewTruncIndex_ok(1), THEN conjunct2, THEN conjunct1, THEN iffD2], unfold ids) simp
  moreover have "index_Get (NewTruncIndex [''abc'', ''abd'']) ''abd'' = Inr ''abd''"
    by (rule index_Get_exact [OF NewTruncIndex_ok(1), THEN conjunct1, THEN iffD2], unfold ids) simp
  ultimately show ?thesis by (rule conjI)
qed

section \<open>The contract of the index\<close>

locale prefix_index =
  fixes ok :: "'i \<Rightarrow> bool" and ids :: "'i \<Rightarrow> string set"
    and new :: "string list \<Rightarrow> 'i" and add :: "'i \<Rightarrow> string \<Rightarrow> 'i" and del :: "'i \<Rightarrow> string \<Rightarrow> 'i"
    and get :: "'i \<Rightarrow> string \<Rightarrow> string res"
  assumes new_ok: "ok (new ks)" "ids (new ks) = {k \<in> set ks. legal_id k}"
    and add_ok: "ok i \<Longrightarrow> ok (add i k)" "ok i \<Longrightarrow> ids (add i k) = ids i \<union> (if legal_id k then {k} else {})"
    and del_ok: "ok i \<Longrightarrow> ok (del i k)" "ok i \<Longrightarrow> ids (del i k) = ids i - {k}"
    and get_ok: "ok i \<Longrightarrow> get i s = Inr k \<longleftrightarrow>
      s \<noteq> '''' \<and> k \<in> ids i \<and> prefix s k \<and> (\<forall>j \<in> ids i. prefix s j \<longrightarrow> j = k)"
begin

text \<open>The index mirrors a set of keys, up to those it refuses.\<close>

definition mirrors :: "'i \<Rightarrow> string set \<Rightarrow> bool" where
  "mirrors i K \<longleftrightarrow> ok i \<and> ids i = {k \<in> K. legal_id k}"

lemma mirrors_new: "mirrors (new ks) (set ks)"
  by (simp add: mirrors_def new_ok)

lemma mirrors_add: "mirrors i K \<Longrightarrow> mirrors (add i k) (insert k K)"
  by (auto simp: mirrors_def add_ok)

lemma mirrors_del: "mirrors i K \<Longrightarrow> mirrors (del i k) (K - {k})"
  unfolding mirrors_def using del_ok(1,2) [of i k] by blast

lemma mirrors_get_mem: "mirrors i K \<Longrightarrow> get i s = Inr k \<Longrightarrow> k \<in> K \<and> prefix s k"
  unfolding mirrors_def using get_ok [of i s k] by blast

lemma mirrors_get_unique:
  "mirrors i K \<Longrightarrow> s \<noteq> '''' \<Longrightarrow> k \<in> K \<Longrightarrow> legal_id k \<Longrightarrow> prefix s k \<Longrightarrow>
     \<forall>j \<in> K. prefix s j \<longrightarrow> j = k \<Longrightarrow> get i s = Inr k"
  unfolding mirrors_def using get_ok [of i s k] by blast

end

interpretation trunc: prefix_index index_ok "\<lambda>i. set (index_ids i)" NewTruncIndex
  "\<lambda>i k. fst (index_Add i k)" "\<lambda>i k. fst (index_Delete i k)" index_Get
  by unfold_locales
    (simp_all add: NewTruncIndex_ok index_Add_def addID_ok index_Delete_ok index_Get_spec)

end
