(* ===== verification/Store_Base.thy ===== *)
theory Store_Base
  imports Go_Strings Trunc_Index
begin

text \<open>
  What the image, container and layer stores share: names and identifiers
  (\<open>storage/utils.go\<close>, \<open>storage/store.go\<close>, \<open>storage/pkg/stringid\<close>,
  \<open>storage/pkg/stringutils\<close>), state transformers that may fail and may hit an I/O error, and
  the theory of in-memory indexes: what it means for a Go map to index a slice of records,
  and how insertion and deletion keep it that way.
\<close>

named_theorems preserves_intros \<open>rules for operations that keep an invariant\<close>
named_theorems store_simps \<open>unfolding rules for the store operations\<close>

section \<open>Names\<close>

fun dedupe_loop :: "'a list \<Rightarrow> 'a list \<Rightarrow> 'a list" where
  "dedupe_loop seen [] = []"
| "dedupe_loop seen (x # xs) =
     (if x \<in> set seen then dedupe_loop seen xs else x # dedupe_loop (x # seen) xs)"

definition dedupeStrings :: "string list \<Rightarrow> string list" where
  "dedupeStrings names = dedupe_loop [] names"

definition dedupeDigests :: "string list \<Rightarrow> string list" where
  "dedupeDigests digests = dedupe_loop [] digests"

datatype updateNameOperation = setNames | addNames | removeNames | otherNameOperation

definition applyNameOperation :: "string list \<Rightarrow> string list \<Rightarrow> updateNameOperation \<Rightarrow> string list res" where
  "applyNameOperation oldNames opParameters op =
     (case op of
        setNames \<Rightarrow> Inr (dedupeStrings opParameters)
      | removeNames \<Rightarrow> Inr (dedupeStrings (filter (\<lambda>name. name \<notin> set opParameters) oldNames))
      | addNames \<Rightarrow> Inr (dedupeStrings (opParameters @ oldNames))
      | otherNameOperation \<Rightarrow> Inl (ErrFmt ''invalid update name operation''))"

definition stringSliceWithoutValue :: "string list \<Rightarrow> string \<Rightarrow> string list" where
  "stringSliceWithoutValue xs v = filter (\<lambda>x. x \<noteq> v) xs"

definition validateMountOptions :: "string list \<Rightarrow> go_error option" where
  "validateMountOptions mountOptions =
     (if ''rw'' \<in> set mountOptions then Some (ErrFmt ''option not supported'') else None)"

text \<open>\<open>strings.EqualFold\<close> on ASCII text.\<close>

definition lower :: "char \<Rightarrow> char" where
  "lower c = (let n = of_char c :: nat in if 65 \<le> n \<and> n \<le> 90 then char_of (n + 32) else c)"

definition EqualFold :: "string \<Rightarrow> string \<Rightarrow> bool" where
  "EqualFold s t \<longleftrightarrow> map lower s = map lower t"

definition RemoveFromSlice :: "string list \<Rightarrow> string \<Rightarrow> string list" where
  "RemoveFromSlice xs s = filter (\<lambda>x. \<not> EqualFold s x) xs"

definition InSlice :: "string list \<Rightarrow> string \<Rightarrow> bool" where
  "InSlice xs s \<longleftrightarrow> (\<exists>x \<in> set xs. EqualFold s x)"

section \<open>Identifiers\<close>

definition hex_char :: "char \<Rightarrow> bool" where
  "hex_char c \<longleftrightarrow> c \<in> set ''abcdef0123456789''"

definition ValidateID :: "string \<Rightarrow> bool" where
  "ValidateID k \<longleftrightarrow> length k = 64 \<and> (\<forall>c \<in> set k. hex_char c)"

definition IsShortID :: "string \<Rightarrow> bool" where
  "IsShortID k \<longleftrightarrow> length k = 12 \<and> (\<forall>c \<in> set k. hex_char c)"

definition TruncateID :: "string \<Rightarrow> string" where
  "TruncateID k =
     (let k1 = (if CHR '':'' \<in> set k then tl (dropWhile (\<lambda>c. c \<noteq> CHR '':'') k) else k)
      in if length k1 > 12 then take 12 k1 else k1)"

text \<open>
  \<open>generateID\<close> on the sequence of values the random source yields, each already in
  hexadecimal; \<open>None\<close> when the sequence ends before an acceptable value.
\<close>

fun generateID :: "string list \<Rightarrow> (string \<times> string list) option" where
  "generateID [] = None"
| "generateID (k # draws) =
     (if strconv_Atoi (TruncateID k) \<noteq> None then generateID draws else Some (k, draws))"

text \<open>The loop of the stores that draws identifiers until one is not in use.\<close>

function fresh_id :: "(string \<Rightarrow> bool) \<Rightarrow> string list \<Rightarrow> string option" where
  "fresh_id used draws =
     (case generateID draws of
        None \<Rightarrow> None
      | Some (k, rest) \<Rightarrow> if used k then fresh_id used rest else Some k)"
  by pat_completeness auto

lemma generateID_shorter: "generateID draws = Some (k, rest) \<Longrightarrow> length rest < length draws"
  by (induction draws rule: generateID.induct) (auto split: if_splits)

termination fresh_id
  by (relation "measure (\<lambda>(used, draws). length draws)") (auto dest: generateID_shorter)

declare fresh_id.simps [simp del]

section \<open>Flags\<close>

text \<open>
  The values in a record's map of flags, of Go type \<open>any\<close>: booleans, strings, slices of strings and
  slices of values; other values are kept as they are. In a JSON file both kinds of slices are
  arrays, which are read back as slices of values.
\<close>

datatype flag_value = FlagBool bool | FlagString string | FlagStrings "string list" | FlagList "flag_value list" | FlagOther string

fun json_flag :: "flag_value \<Rightarrow> flag_value" where
  "json_flag (FlagStrings xs) = FlagList (map FlagString xs)"
| "json_flag (FlagList vs) = FlagList (map json_flag vs)"
| "json_flag v = v"

lemma json_flag_idem [simp]: "json_flag (json_flag v) = json_flag v"
  by (induction v rule: json_flag.induct) simp_all

definition json_flags :: "(string \<rightharpoonup> flag_value) \<Rightarrow> (string \<rightharpoonup> flag_value)" where
  "json_flags m = (\<lambda>k. map_option json_flag (m k))"

lemma json_flags_idem [simp]: "json_flags (json_flags m) = json_flags m"
  by (simp add: json_flags_def option.map_comp comp_def)

section \<open>Operations that may fail\<close>

text \<open>
  An operation takes a state to a result and a new state; a failing operation keeps the
  changes it made before it failed.
\<close>

type_synonym ('s, 'a) op = "'s \<Rightarrow> 'a res \<times> 's"

definition op_return :: "'a \<Rightarrow> ('s, 'a) op" where
  "op_return x s = (Inr x, s)"

definition op_fail :: "go_error \<Rightarrow> ('s, 'a) op" where
  "op_fail e s = (Inl e, s)"

definition op_then :: "('s, 'a) op \<Rightarrow> ('a \<Rightarrow> ('s, 'b) op) \<Rightarrow> ('s, 'b) op" where
  "op_then m f s = (case m s of (Inl e, s') \<Rightarrow> (Inl e, s') | (Inr x, s') \<Rightarrow> f x s')"

definition op_seq :: "('s, 'a) op \<Rightarrow> ('s, 'b) op \<Rightarrow> ('s, 'b) op" where
  "op_seq m n = op_then m (\<lambda>_. n)"

definition op_update :: "('s \<Rightarrow> 's) \<Rightarrow> ('s, unit) op" where
  "op_update f s = (Inr (), f s)"

definition op_read :: "('s \<Rightarrow> 'a) \<Rightarrow> ('a \<Rightarrow> ('s, 'b) op) \<Rightarrow> ('s, 'b) op" where
  "op_read g f s = f (g s) s"

text \<open>\<open>if err := f(); err != nil \<open>{\<close> log \<open>}\<close>\<close>: run an operation and ignore its error.\<close>

definition op_ignore :: "('s, 'a) op \<Rightarrow> ('s, unit) op" where
  "op_ignore m s = (Inr (), snd (m s))"

text \<open>A deferred clean-up that runs when the operation fails; the error is kept.\<close>

definition op_cleanup :: "('s, 'a) op \<Rightarrow> ('s, 'b) op \<Rightarrow> ('s, 'a) op" where
  "op_cleanup m n s =
     (case m s of (Inl e, s') \<Rightarrow> (Inl e, snd (n s')) | (Inr x, s') \<Rightarrow> (Inr x, s'))"

fun op_each :: "('a \<Rightarrow> ('s, unit) op) \<Rightarrow> 'a list \<Rightarrow> ('s, unit) op" where
  "op_each f [] = op_return ()"
| "op_each f (x # xs) = op_seq (f x) (op_each f xs)"

lemmas op_defs [store_simps] = op_return_def op_fail_def op_then_def op_seq_def op_update_def op_read_def
  op_ignore_def op_cleanup_def

text \<open>
  Running an operation on a concrete state: the rules only rewrite operations that are applied to
  a state, so that branches that are not taken are never unfolded.
\<close>

lemma op_seq_run: "op_seq m n s = (case m s of (Inl e, s') \<Rightarrow> (Inl e, s') | (Inr x, s') \<Rightarrow> n s')"
  by (simp add: op_seq_def op_then_def)

lemma op_each_run:
  "op_each f [] s = (Inr (), s)"
  "op_each f (x # xs) s = (case f x s of (Inl e, s') \<Rightarrow> (Inl e, s') | (Inr _, s') \<Rightarrow> op_each f xs s')"
  by (simp_all add: op_return_def op_seq_run)

lemmas op_run = op_return_def op_fail_def op_then_def op_seq_run op_update_def op_read_def op_ignore_def op_cleanup_def op_each_run

lemma op_seq_Inr: "op_seq m n s = (Inr x, t) \<longleftrightarrow> (\<exists>y u. m s = (Inr y, u) \<and> n u = (Inr x, t))"
  by (auto simp: op_seq_run split: prod.splits sum.splits)

lemma op_then_Inr: "op_then m f s = (Inr x, t) \<longleftrightarrow> (\<exists>y u. m s = (Inr y, u) \<and> f y u = (Inr x, t))"
  by (auto simp: op_then_def split: prod.splits sum.splits)

definition succeeded :: "'a res \<Rightarrow> bool" where
  "succeeded r \<longleftrightarrow> (\<exists>x. r = Inr x)"

lemma succeeded_simps [simp]: "succeeded (Inr x)" "\<not> succeeded (Inl e)"
  by (simp_all add: succeeded_def)

text \<open>
  An operation, when it succeeds, leads to a state with a property: \<open>establishes P m Q\<close>
  assumes \<open>P\<close> before and gives \<open>Q\<close> after.
\<close>

definition establishes :: "('s \<Rightarrow> bool) \<Rightarrow> ('s, 'a) op \<Rightarrow> ('s \<Rightarrow> bool) \<Rightarrow> bool" where
  "establishes P m Q \<longleftrightarrow> (\<forall>s r s'. P s \<and> m s = (r, s') \<and> succeeded r \<longrightarrow> Q s')"

lemma establishesD: "establishes P m Q \<Longrightarrow> P s \<Longrightarrow> m s = (Inr x, s') \<Longrightarrow> Q s'"
  unfolding establishes_def by (metis succeeded_simps(1))

lemma establishes_weaken: "establishes P m Q \<Longrightarrow> (\<And>s. P' s \<Longrightarrow> P s) \<Longrightarrow> establishes P' m Q"
  unfolding establishes_def by blast

lemma establishes_conseq:
  "establishes P m Q \<Longrightarrow> (\<And>s. P' s \<Longrightarrow> P s) \<Longrightarrow> (\<And>s. Q s \<Longrightarrow> Q' s) \<Longrightarrow> establishes P' m Q'"
  unfolding establishes_def by blast

lemma establishes_return: "(\<And>s. P s \<Longrightarrow> Q s) \<Longrightarrow> establishes P (op_return x) Q"
  by (simp add: establishes_def op_return_def)

lemma establishes_fail: "establishes P (op_fail e) Q"
  by (auto simp: establishes_def op_fail_def)

lemma establishes_then:
  assumes "establishes P m R" and "\<And>x. establishes R (f x) Q"
  shows "establishes P (op_then m f) Q"
  unfolding establishes_def
proof (intro allI impI, elim conjE)
  fix s r s'
  assume s: "P s" "op_then m f s = (r, s')" "succeeded r"
  obtain r1 s1 where m: "m s = (r1, s1)" by fastforce
  with s obtain x where x: "r1 = Inr x" "f x s1 = (r, s')"
    by (cases r1) (auto simp: op_then_def)
  then have "R s1" using assms(1) s(1) m unfolding establishes_def by (metis succeeded_simps(1))
  with assms(2) x s(3) show "Q s'" unfolding establishes_def by blast
qed

lemma establishes_seq: "establishes P m R \<Longrightarrow> establishes R n Q \<Longrightarrow> establishes P (op_seq m n) Q"
  unfolding op_seq_def by (rule establishes_then)

lemma establishes_read: "(\<And>x. establishes P (f x) Q) \<Longrightarrow> establishes P (op_read g f) Q"
  by (simp add: establishes_def op_read_def)

lemma establishes_if:
  "(b \<Longrightarrow> establishes P m Q) \<Longrightarrow> (\<not> b \<Longrightarrow> establishes P n Q) \<Longrightarrow> establishes P (if b then m else n) Q"
  by simp

lemma establishes_update: "(\<And>s. P s \<Longrightarrow> Q (f s)) \<Longrightarrow> establishes P (op_update f) Q"
  by (auto simp: establishes_def op_update_def)

lemma establishes_cleanup: "establishes P m Q \<Longrightarrow> establishes P (op_cleanup m n) Q"
  unfolding establishes_def op_cleanup_def
  by (auto split: prod.splits sum.splits) (metis succeeded_simps(1))

lemma establishes_each: "(\<And>x. x \<in> set xs \<Longrightarrow> establishes P (f x) P) \<Longrightarrow> establishes P (op_each f xs) P"
  by (induction xs) (auto intro: establishes_return establishes_seq)

text \<open>An operation keeps a property of the state, whether it fails or not.\<close>

definition preserves :: "('s \<Rightarrow> bool) \<Rightarrow> ('s, 'a) op \<Rightarrow> bool" where
  "preserves P m \<longleftrightarrow> (\<forall>s. P s \<longrightarrow> P (snd (m s)))"

lemma preservesD: "preserves P m \<Longrightarrow> P s \<Longrightarrow> m s = (r, s') \<Longrightarrow> P s'"
  by (metis preserves_def snd_conv)

lemma preserves_return [preserves_intros]: "preserves P (op_return x)"
  by (simp add: preserves_def op_return_def)

lemma preserves_fail [preserves_intros]: "preserves P (op_fail e)"
  by (simp add: preserves_def op_fail_def)

lemma preserves_then [preserves_intros]:
  "preserves P m \<Longrightarrow> (\<And>x. preserves P (f x)) \<Longrightarrow> preserves P (op_then m f)"
  by (auto simp: preserves_def op_then_def split: prod.splits sum.splits)

lemma preserves_seq [preserves_intros]: "preserves P m \<Longrightarrow> preserves P n \<Longrightarrow> preserves P (op_seq m n)"
  by (simp add: op_seq_def preserves_then)

lemma preserves_read [preserves_intros]: "(\<And>x. preserves P (f x)) \<Longrightarrow> preserves P (op_read g f)"
  by (simp add: preserves_def op_read_def)

lemma preserves_update: "(\<And>s. P s \<Longrightarrow> P (f s)) \<Longrightarrow> preserves P (op_update f)"
  by (simp add: preserves_def op_update_def)

lemma preserves_ignore [preserves_intros]: "preserves P m \<Longrightarrow> preserves P (op_ignore m)"
  by (simp add: preserves_def op_ignore_def)

lemma preserves_cleanup [preserves_intros]:
  "preserves P m \<Longrightarrow> preserves P n \<Longrightarrow> preserves P (op_cleanup m n)"
  by (auto simp: preserves_def op_cleanup_def split: prod.splits sum.splits)

lemma preserves_if [preserves_intros]:
  "(b \<Longrightarrow> preserves P m) \<Longrightarrow> (\<not> b \<Longrightarrow> preserves P n) \<Longrightarrow> preserves P (if b then m else n)"
  by simp

lemma preserves_each [preserves_intros]: "(\<And>x. x \<in> set xs \<Longrightarrow> preserves P (f x)) \<Longrightarrow> preserves P (op_each f xs)"
  by (induction xs) (auto intro: preserves_intros)

text \<open>An operation leads from states with one property to states with another, whether it fails or not.\<close>

definition leads :: "('s \<Rightarrow> bool) \<Rightarrow> ('s, 'a) op \<Rightarrow> ('s \<Rightarrow> bool) \<Rightarrow> bool" where
  "leads P m Q \<longleftrightarrow> (\<forall>s. P s \<longrightarrow> Q (snd (m s)))"

lemma preserves_leads: "preserves P m \<longleftrightarrow> leads P m P"
  by (simp add: preserves_def leads_def)

lemma leads_then:
  "leads P m Q' \<Longrightarrow> (\<And>s x s'. P s \<Longrightarrow> m s = (Inr x, s') \<Longrightarrow> R s') \<Longrightarrow> (\<And>x. leads R (f x) Q) \<Longrightarrow> (\<And>s. Q' s \<Longrightarrow> Q s) \<Longrightarrow>
     leads P (op_then m f) Q"
  unfolding leads_def op_then_def by (force split: prod.splits sum.splits)

lemma leads_seq_keep: "preserves P m \<Longrightarrow> leads P n Q \<Longrightarrow> (\<And>s. P s \<Longrightarrow> Q s) \<Longrightarrow> leads P (op_seq m n) Q"
  unfolding op_seq_def by (rule leads_then [where Q' = P and R = P]) (auto simp: preserves_leads dest: preservesD [unfolded preserves_leads])

lemma leads_then_keep:
  "preserves P m \<Longrightarrow> (\<And>x. leads P (f x) Q) \<Longrightarrow> (\<And>s. P s \<Longrightarrow> Q s) \<Longrightarrow> leads P (op_then m f) Q"
  by (rule leads_then [where Q' = P and R = P]) (auto simp: preserves_leads dest: preservesD [unfolded preserves_leads])

lemma leads_read: "(\<And>s. P s \<Longrightarrow> leads (\<lambda>t. P t \<and> g t = g s) (f (g s)) Q) \<Longrightarrow> leads P (op_read g f) Q"
  by (simp add: leads_def op_read_def)

lemma leads_read_any: "(\<And>x. leads P (f x) Q) \<Longrightarrow> leads P (op_read g f) Q"
  by (simp add: leads_def op_read_def)

lemma leads_update: "(\<And>s. P s \<Longrightarrow> Q (f s)) \<Longrightarrow> leads P (op_update f) Q"
  by (simp add: leads_def op_update_def)

lemma leads_seq_update: "(\<And>s. P s \<Longrightarrow> R (f s)) \<Longrightarrow> leads R n Q \<Longrightarrow> leads P (op_seq (op_update f) n) Q"
  by (simp add: leads_def op_seq_def op_then_def op_update_def)

lemma leads_fail: "(\<And>s. P s \<Longrightarrow> Q s) \<Longrightarrow> leads P (op_fail e) Q"
  by (simp add: leads_def op_fail_def)

lemma leads_weaken: "leads P m Q \<Longrightarrow> (\<And>s. P' s \<Longrightarrow> P s) \<Longrightarrow> (\<And>s. Q s \<Longrightarrow> Q' s) \<Longrightarrow> leads P' m Q'"
  by (simp add: leads_def)

lemma establishes_preserves:
  "preserves P m \<Longrightarrow> establishes P m Q \<Longrightarrow> establishes P m (\<lambda>s. P s \<and> Q s)"
  unfolding establishes_def preserves_def by (metis snd_conv)

lemma preserves_establishes: "preserves P m \<Longrightarrow> establishes P m P"
  unfolding establishes_def preserves_def by (metis snd_conv)

lemma establishes_any: "(\<And>s. P s \<Longrightarrow> establishes (\<lambda>t. t = s) m Q) \<Longrightarrow> establishes P m Q"
  unfolding establishes_def by blast

text \<open>An operation always succeeds on states with a property, and keeps it.\<close>

named_theorems completes_intros \<open>rules for operations that succeed\<close>

definition completes :: "('s \<Rightarrow> bool) \<Rightarrow> ('s, 'a) op \<Rightarrow> bool" where
  "completes P m \<longleftrightarrow> (\<forall>s. P s \<longrightarrow> succeeded (fst (m s)) \<and> P (snd (m s)))"

lemma completes_return [completes_intros]: "completes P (op_return x)"
  by (simp add: completes_def op_return_def)

lemma completes_then [completes_intros]:
  "completes P m \<Longrightarrow> (\<And>x. completes P (f x)) \<Longrightarrow> completes P (op_then m f)"
  unfolding completes_def op_then_def by (fastforce simp: succeeded_def split: prod.splits sum.splits)

lemma completes_seq [completes_intros]: "completes P m \<Longrightarrow> completes P n \<Longrightarrow> completes P (op_seq m n)"
  by (simp add: op_seq_def completes_then)

lemma completes_read [completes_intros]: "(\<And>x. completes P (f x)) \<Longrightarrow> completes P (op_read g f)"
  by (simp add: completes_def op_read_def)

lemma completes_update: "(\<And>s. P s \<Longrightarrow> P (f s)) \<Longrightarrow> completes P (op_update f)"
  by (simp add: completes_def op_update_def)

lemma completes_each [completes_intros]: "(\<And>x. x \<in> set xs \<Longrightarrow> completes P (f x)) \<Longrightarrow> completes P (op_each f xs)"
  by (induction xs) (auto intro: completes_intros)

section \<open>Input and output\<close>

text \<open>
  The part of the state every store has. Each call into the operating system takes the next
  element of \<open>faults\<close>: it fails with that error or, on \<open>None\<close> and when the list is used up,
  succeeds. \<open>lock_disk\<close> is the last-write mark in the lock file and \<open>lastWrite\<close> the mark of the
  contents held in memory; a fresh mark is the successor of the previous one.
\<close>

record store_io =
  faults :: "go_error option list"
  IsReadWrite :: bool
  lock_disk :: nat
  lastWrite :: nat

definition io_call :: "('z store_io_scheme, unit) op" where
  "io_call s =
     (case faults s of
        [] \<Rightarrow> (Inr (), s)
      | None # fs \<Rightarrow> (Inr (), s\<lparr>faults := fs\<rparr>)
      | Some e # fs \<Rightarrow> (Inl e, s\<lparr>faults := fs\<rparr>))"

text \<open>\<open>RecordWrite\<close>: write a new mark to the lock file and return it.\<close>

definition RecordWrite :: "('z store_io_scheme, nat) op" where
  "RecordWrite =
     op_seq io_call
       (op_read lock_disk (\<lambda>lw. op_seq (op_update (\<lambda>s. s\<lparr>lock_disk := Suc lw\<rparr>)) (op_return (Suc lw))))"

text \<open>\<open>ModifiedSince\<close>: the mark in the lock file, and whether it differs from the previous one.\<close>

definition ModifiedSince :: "nat \<Rightarrow> ('z store_io_scheme, nat \<times> bool) op" where
  "ModifiedSince previous = op_seq io_call (op_read lock_disk (\<lambda>lw. op_return (lw, lw \<noteq> previous)))"

text \<open>\<open>GetLastWrite\<close>: the mark in the lock file.\<close>

definition GetLastWrite :: "('z store_io_scheme, nat) op" where
  "GetLastWrite = op_seq io_call (op_read lock_disk op_return)"

lemma io_call_Inr: "io_call s = (Inr x, t) \<Longrightarrow> \<exists>fs. t = s\<lparr>faults := fs\<rparr>"
  by (cases s) (auto simp: io_call_def split: list.splits option.splits)

lemma io_call_preserves [preserves_intros]:
  "(\<And>s fs. P s \<Longrightarrow> P (s\<lparr>faults := fs\<rparr>)) \<Longrightarrow> preserves P io_call"
  by (auto simp: preserves_def io_call_def split: list.splits option.splits)

lemma RecordWrite_preserves [preserves_intros]:
  "(\<And>s fs. P s \<Longrightarrow> P (s\<lparr>faults := fs\<rparr>)) \<Longrightarrow> (\<And>s lw. P s \<Longrightarrow> P (s\<lparr>lock_disk := lw\<rparr>)) \<Longrightarrow> preserves P RecordWrite"
  unfolding RecordWrite_def by (intro preserves_intros preserves_update) auto

lemma io_call_no_faults [simp]: "faults s = [] \<Longrightarrow> io_call s = (Inr (), s)"
  by (simp add: io_call_def)

lemma io_call_completes [completes_intros]: "(\<And>s. P s \<Longrightarrow> faults s = []) \<Longrightarrow> completes P io_call"
  by (simp add: completes_def)

lemma RecordWrite_completes:
  "(\<And>s. P s \<Longrightarrow> faults s = []) \<Longrightarrow> (\<And>s lw. P s \<Longrightarrow> P (s\<lparr>lock_disk := lw\<rparr>)) \<Longrightarrow> completes P RecordWrite"
  unfolding RecordWrite_def by (intro completes_intros completes_update)

text \<open>
  The loop of \<open>GarbageCollect\<close> over the entries of a store's directory, each a name with a flag for
  directories: \<open>remove\<close> deletes a data directory. The first error is reported, the loop goes on.
\<close>

fun gc_loop ::
  "(string \<Rightarrow> bool) \<Rightarrow> (string \<Rightarrow> 'z store_io_scheme \<Rightarrow> 'z store_io_scheme) \<Rightarrow> (string \<times> bool) list \<Rightarrow>
     go_error option \<Rightarrow> 'z store_io_scheme \<Rightarrow> go_error option \<times> 'z store_io_scheme" where
  "gc_loop known remove [] err s = (err, s)"
| "gc_loop known remove ((ident, dir) # entries) err s =
     (if \<not> dir \<or> \<not> ValidateID ident then gc_loop known remove entries err s
      else if known ident then gc_loop known remove entries err s
      else (case io_call s of
              (Inl e, s1) \<Rightarrow> gc_loop known remove entries (if err = None then Some e else err) s1
            | (Inr _, s1) \<Rightarrow> gc_loop known remove entries err (remove ident s1)))"

lemma gc_loop_preserves:
  assumes "\<And>s fs. P s \<Longrightarrow> P (s\<lparr>faults := fs\<rparr>)" and "\<And>ident s. P s \<Longrightarrow> \<not> known ident \<Longrightarrow> P (remove ident s)" and "P s"
  shows "P (snd (gc_loop known remove entries err s))"
  using assms(3)
proof (induction entries arbitrary: err s)
  case (Cons entry entries)
  obtain ident dir where e: "entry = (ident, dir)" by fastforce
  obtain r s1 where c: "io_call s = (r, s1)" by fastforce
  have "preserves P io_call" by (rule io_call_preserves) (rule assms(1))
  from preservesD [OF this Cons.prems c] have "P s1" .
  then show ?case using Cons.IH Cons.prems assms(2) c e by (cases r) simp_all
qed simp

text \<open>Without I/O errors every directory of an unknown record is removed.\<close>

lemma gc_loop_quiet:
  assumes "\<And>ident s. faults (remove ident s) = faults s" and "faults s = []"
  shows "gc_loop known remove entries err s =
    (err, fold remove (map fst (filter (\<lambda>(ident, dir). dir \<and> ValidateID ident \<and> \<not> known ident) entries)) s)"
  using assms(2)
proof (induction entries arbitrary: s)
  case (Cons entry entries)
  then show ?case by (cases entry) (simp add: assms(1))
qed simp

section \<open>Indexes\<close>

text \<open>
  A Go map from keys to records indexes a slice: a key leads to a record exactly when the
  record is in the slice and has the key. \<open>multi_ok\<close> is the same for a map to lists of
  records, where keys without records are absent.
\<close>

definition map_ok :: "('p \<Rightarrow> 'k set) \<Rightarrow> 'p set \<Rightarrow> ('k \<rightharpoonup> 'p) \<Rightarrow> bool" where
  "map_ok keys R m \<longleftrightarrow> (\<forall>k p. m k = Some p \<longleftrightarrow> p \<in> R \<and> k \<in> keys p)"

definition multi_ok :: "('p \<Rightarrow> 'k set) \<Rightarrow> 'p set \<Rightarrow> ('k \<rightharpoonup> 'p list) \<Rightarrow> bool" where
  "multi_ok keys R m \<longleftrightarrow>
     (\<forall>k. case m k of
            None \<Rightarrow> \<forall>p \<in> R. k \<notin> keys p
          | Some l \<Rightarrow> l \<noteq> [] \<and> distinct l \<and> set l = {p \<in> R. k \<in> keys p})"

text \<open>Setting and deleting several keys, and the list operations on a digest index.\<close>

definition put_all :: "'k list \<Rightarrow> 'p \<Rightarrow> ('k \<rightharpoonup> 'p) \<Rightarrow> ('k \<rightharpoonup> 'p)" where
  "put_all ks p m = foldl (\<lambda>m k. m(k \<mapsto> p)) m ks"

definition del_all :: "'k list \<Rightarrow> ('k \<rightharpoonup> 'p) \<Rightarrow> ('k \<rightharpoonup> 'p)" where
  "del_all ks m = foldl (\<lambda>m k. m(k := None)) m ks"

definition list_of :: "('k \<rightharpoonup> 'p list) \<Rightarrow> 'k \<Rightarrow> 'p list" where
  "list_of m k = (case m k of None \<Rightarrow> [] | Some l \<Rightarrow> l)"

definition append_key :: "'p \<Rightarrow> ('k \<rightharpoonup> 'p list) \<Rightarrow> 'k \<Rightarrow> ('k \<rightharpoonup> 'p list)" where
  "append_key p m k = m(k \<mapsto> list_of m k @ [p])"

definition prune_key :: "'p \<Rightarrow> ('k \<rightharpoonup> 'p list) \<Rightarrow> 'k \<Rightarrow> ('k \<rightharpoonup> 'p list)" where
  "prune_key p m k =
     (let pruned = filter (\<lambda>q. q \<noteq> p) (list_of m k)
      in if pruned = [] then m(k := None) else m(k \<mapsto> pruned))"

lemma put_all_simps [simp]: "put_all [] p m = m" "put_all (k # ks) p m = put_all ks p (m(k \<mapsto> p))"
  by (simp_all add: put_all_def)

lemma del_all_simps [simp]: "del_all [] m = m" "del_all (k # ks) m = del_all ks (m(k := None))"
  by (simp_all add: del_all_def)

lemma put_all_apply: "put_all ks p m k = (if k \<in> set ks then Some p else m k)"
  unfolding put_all_def by (induction ks arbitrary: m) auto

lemma del_all_apply: "del_all ks m k = (if k \<in> set ks then None else m k)"
  unfolding del_all_def by (induction ks arbitrary: m) auto

lemma map_ok_unique: "map_ok keys R m \<Longrightarrow> p \<in> R \<Longrightarrow> q \<in> R \<Longrightarrow> k \<in> keys p \<Longrightarrow> k \<in> keys q \<Longrightarrow> p = q"
  unfolding map_ok_def by (metis option.inject)

lemma map_ok_empty [simp]: "map_ok keys {} Map.empty"
  by (simp add: map_ok_def)

lemma multi_ok_empty [simp]: "multi_ok keys {} Map.empty"
  by (simp add: multi_ok_def)

lemma map_ok_mem: "map_ok keys R m \<Longrightarrow> m k = Some p \<Longrightarrow> p \<in> R \<and> k \<in> keys p"
  by (simp add: map_ok_def)

lemma map_ok_dom: "map_ok keys R m \<Longrightarrow> dom m = (\<Union>p \<in> R. keys p)"
  by (auto simp: map_ok_def dom_def)

lemma map_ok_cong: "(\<And>p. p \<in> R \<Longrightarrow> keys p = keys' p) \<Longrightarrow> map_ok keys R m \<longleftrightarrow> map_ok keys' R m"
  by (auto simp: map_ok_def)

lemma multi_ok_cong: "(\<And>p. p \<in> R \<Longrightarrow> keys p = keys' p) \<Longrightarrow> multi_ok keys R m \<longleftrightarrow> multi_ok keys' R m"
proof -
  assume eq: "\<And>p. p \<in> R \<Longrightarrow> keys p = keys' p"
  then have "{p \<in> R. k \<in> keys p} = {p \<in> R. k \<in> keys' p}" for k by auto
  with eq show ?thesis by (simp add: multi_ok_def cong: option.case_cong)
qed

text \<open>A new record with keys nobody has.\<close>

lemma map_ok_insert:
  assumes "map_ok keys R m" and "p \<notin> R" and "\<forall>k \<in> set ks. m k = None" and "keys p = set ks"
  shows "map_ok keys (insert p R) (put_all ks p m)"
  unfolding map_ok_def put_all_apply
proof (intro allI)
  fix k q
  have "q \<in> R \<and> k \<in> keys q \<longleftrightarrow> m k = Some q" using assms(1) by (simp add: map_ok_def)
  then show "(if k \<in> set ks then Some p else m k) = Some q \<longleftrightarrow> q \<in> insert p R \<and> k \<in> keys q"
    using assms(2-4) by (cases "q = p") auto
qed

text \<open>A record and all its keys are taken out.\<close>

lemma map_ok_remove:
  assumes "map_ok keys R m" and "p \<in> R" and "keys p = set ks"
  shows "map_ok keys (R - {p}) (del_all ks m)"
  unfolding map_ok_def del_all_apply
proof (intro allI)
  fix k q
  show "(if k \<in> set ks then None else m k) = Some q \<longleftrightarrow> q \<in> R - {p} \<and> k \<in> keys q"
  proof -
    have mk: "m k = Some r \<longleftrightarrow> r \<in> R \<and> k \<in> keys r" for r using assms(1) by (simp add: map_ok_def)
    then have "k \<in> set ks \<longleftrightarrow> m k = Some p" using assms(2,3) by blast
    then show ?thesis using mk [of q] by auto
  qed
qed

text \<open>
  The keys of \<open>p\<close> are replaced by \<open>ks\<close>, and whoever had one of them loses it: the effect of
  renaming a record.
\<close>

lemma map_ok_steal:
  assumes "map_ok keys R m" and "p \<in> R" and "keys p = set old"
    and "keys' p = set ks" and "\<And>q. q \<in> R \<Longrightarrow> q \<noteq> p \<Longrightarrow> keys' q = keys q - set ks"
  shows "map_ok keys' R (put_all ks p (del_all old m))"
  unfolding map_ok_def put_all_apply del_all_apply
proof (intro allI)
  fix k q
  show "(if k \<in> set ks then Some p else if k \<in> set old then None else m k) = Some q
      \<longleftrightarrow> q \<in> R \<and> k \<in> keys' q"
  proof -
    have mk: "m k = Some r \<longleftrightarrow> r \<in> R \<and> k \<in> keys r" for r using assms(1) by (simp add: map_ok_def)
    then have old: "k \<in> set old \<Longrightarrow> m k = Some p" using assms(2,3) by blast
    show ?thesis
    proof (cases "q = p")
      case True
      then show ?thesis using mk [of p] assms(2-4) by auto
    next
      case False
      then show ?thesis using mk [of q] old assms(5) by auto
    qed
  qed
qed

text \<open>
  The loop of a renaming, on the names of all records and the map: a record that has a name which is
  taken loses it.
\<close>

fun steal_name :: "'p \<Rightarrow> ('p \<Rightarrow> 'k list) \<times> ('k \<rightharpoonup> 'p) \<Rightarrow> 'k \<Rightarrow> ('p \<Rightarrow> 'k list) \<times> ('k \<rightharpoonup> 'p)" where
  "steal_name p (nm, m) k =
     ((case m k of Some q \<Rightarrow> nm(q := filter (\<lambda>x. x \<noteq> k) (nm q)) | None \<Rightarrow> nm), m(k \<mapsto> p))"

lemma steal_names:
  assumes "distinct ks" and "foldl (steal_name p) (nm, m) ks = (nm', m')"
  shows "m' = put_all ks p m" and "q \<noteq> p \<Longrightarrow> nm' q = filter (\<lambda>x. \<not> (x \<in> set ks \<and> m x = Some q)) (nm q)"
proof -
  have "m' = put_all ks p m \<and> (\<forall>q. q \<noteq> p \<longrightarrow> nm' q = filter (\<lambda>x. \<not> (x \<in> set ks \<and> m x = Some q)) (nm q))"
    using assms
  proof (induction ks arbitrary: nm m)
    case (Cons k ks)
    let ?nm = "case m k of Some q \<Rightarrow> nm(q := filter (\<lambda>x. x \<noteq> k) (nm q)) | None \<Rightarrow> nm"
    have IH: "m' = put_all ks p (m(k \<mapsto> p))"
      "\<forall>q. q \<noteq> p \<longrightarrow> nm' q = filter (\<lambda>x. \<not> (x \<in> set ks \<and> (m(k \<mapsto> p)) x = Some q)) (?nm q)"
      using Cons.IH [of ?nm "m(k \<mapsto> p)"] Cons.prems by (simp_all del: fun_upd_apply)
    have "filter (\<lambda>x. \<not> (x \<in> set ks \<and> (m(k \<mapsto> p)) x = Some q)) (?nm q)
        = filter (\<lambda>x. \<not> (x \<in> set (k # ks) \<and> m x = Some q)) (nm q)" if "q \<noteq> p" for q
      using Cons.prems(1) that by (auto split: option.split intro!: filter_cong)
    then show ?case using IH by simp
  qed simp
  then show "m' = put_all ks p m" "q \<noteq> p \<Longrightarrow> nm' q = filter (\<lambda>x. \<not> (x \<in> set ks \<and> m x = Some q)) (nm q)" by simp_all
qed

lemma map_ok_rename:
  assumes ok: "map_ok (\<lambda>q. set (nm q)) R m" and p: "p \<in> R" and d: "distinct ks"
    and f: "foldl (steal_name p) (nm, del_all (nm p) m) ks = (nm', m')"
  shows "map_ok (\<lambda>q. set ((nm'(p := ks)) q)) R m'"
proof -
  have "set (nm' q) = set (nm q) - set ks" if "q \<in> R" "q \<noteq> p" for q
  proof -
    have "m x = Some q \<longleftrightarrow> x \<in> set (nm q)" "m x = Some p \<longleftrightarrow> x \<in> set (nm p)" for x
      using ok that p by (simp_all add: map_ok_def)
    then have "del_all (nm p) m x = Some q \<longleftrightarrow> x \<in> set (nm q)" for x
      using that by (simp add: del_all_apply) (metis option.inject)
    then show ?thesis using steal_names(2) [OF d f that(2)] by auto
  qed
  then show ?thesis
    unfolding steal_names(1) [OF d f] using p by (intro map_ok_steal [OF ok p]) auto
qed

section \<open>Digest indexes by identifier\<close>

text \<open>
  A map from digests to identifiers of records is sound: it never has an identifier twice, and leads to
  records that have the digest.
\<close>

definition sums_ok :: "('p \<Rightarrow> string) \<Rightarrow> ('p \<Rightarrow> string) \<Rightarrow> 'p set \<Rightarrow> (string \<Rightarrow> string list) \<Rightarrow> bool" where
  "sums_ok ident dig R m \<longleftrightarrow>
     (\<forall>d. distinct (m d) \<and> (\<forall>k \<in> set (m d). d \<noteq> '''' \<and> (\<exists>p \<in> R. ident p = k \<and> dig p = d)))"

lemma sums_ok_empty [simp]: "sums_ok ident dig R (\<lambda>_. [])"
  by (simp add: sums_ok_def)

lemma sums_ok_cong:
  "(\<And>p. p \<in> R \<Longrightarrow> ident p = ident' p \<and> dig p = dig' p) \<Longrightarrow> sums_ok ident dig R m \<longleftrightarrow> sums_ok ident' dig' R m"
  unfolding sums_ok_def by (metis (no_types, lifting))

lemma sums_ok_grow: "sums_ok ident dig R m \<Longrightarrow> R \<subseteq> R' \<Longrightarrow> sums_ok ident dig R' m"
  unfolding sums_ok_def by (meson subsetD)

lemma sums_ok_remove:
  assumes "sums_ok ident dig R m"
  shows "sums_ok ident dig (R - {p}) (\<lambda>d. remove1 (ident p) (m d))"
  unfolding sums_ok_def
proof (intro allI conjI ballI)
  fix d k
  show "distinct (remove1 (ident p) (m d))" using assms by (simp add: sums_ok_def)
  assume k: "k \<in> set (remove1 (ident p) (m d))"
  then have "k \<in> set (m d)" "k \<noteq> ident p" using assms by (auto simp: sums_ok_def)
  then show "d \<noteq> ''''" "\<exists>q \<in> R - {p}. ident q = k \<and> dig q = d" using assms unfolding sums_ok_def by blast+
qed

lemma multi_ok_iff:
  "multi_ok keys R m \<longleftrightarrow>
     (\<forall>k. m k \<noteq> Some [] \<and> distinct (list_of m k) \<and> set (list_of m k) = {p \<in> R. k \<in> keys p})"
  unfolding multi_ok_def list_of_def
  by (rule iff_allI) (auto split: option.splits)

lemma foldl_append_key:
  "distinct ks \<Longrightarrow>
     foldl (append_key p) m ks k = (if k \<in> set ks then Some (list_of m k @ [p]) else m k)"
  by (induction ks arbitrary: m) (auto simp: append_key_def list_of_def)

lemma foldl_prune_key:
  "foldl (prune_key p) m ks k =
     (if k \<in> set ks then (let l = filter (\<lambda>q. q \<noteq> p) (list_of m k) in if l = [] then None else Some l) else m k)"
  by (induction ks arbitrary: m) (auto simp: prune_key_def list_of_def Let_def split: option.splits)

lemma multi_ok_insert:
  assumes "multi_ok keys R m" and "p \<notin> R" and "distinct ks" and "keys p = set ks"
  shows "multi_ok keys (insert p R) (foldl (append_key p) m ks)"
proof -
  have l: "distinct (list_of m k)" "set (list_of m k) = {q \<in> R. k \<in> keys q}" "m k \<noteq> Some []" for k
    using assms(1) by (auto simp: multi_ok_iff)
  have "list_of (foldl (append_key p) m ks) k = (if k \<in> set ks then list_of m k @ [p] else list_of m k)" for k
    by (simp add: list_of_def [of "foldl (append_key p) m ks"] foldl_append_key [OF assms(3)])
      (simp add: list_of_def)
  then show ?thesis
    unfolding multi_ok_iff using l assms(2,4) by (auto simp: foldl_append_key [OF assms(3)])
qed

lemma multi_ok_remove:
  assumes "multi_ok keys R m" and "keys p = set ks"
  shows "multi_ok keys (R - {p}) (foldl (prune_key p) m ks)"
proof -
  have l: "distinct (list_of m k)" "set (list_of m k) = {q \<in> R. k \<in> keys q}" "m k \<noteq> Some []" for k
    using assms(1) by (auto simp: multi_ok_iff)
  have "list_of (foldl (prune_key p) m ks) k = (if k \<in> set ks then filter (\<lambda>q. q \<noteq> p) (list_of m k) else list_of m k)" for k
    by (simp add: list_of_def [of "foldl (prune_key p) m ks"] foldl_prune_key Let_def)
      (simp add: list_of_def)
  then show ?thesis
    unfolding multi_ok_iff using l assms(2) by (auto simp: foldl_prune_key Let_def)
qed

section \<open>Facts on names and identifiers\<close>

lemma dedupe_loop_set: "set (dedupe_loop seen xs) = set xs - set seen"
  by (induction seen xs rule: dedupe_loop.induct) auto

lemma dedupe_loop_distinct: "distinct (dedupe_loop seen xs)"
  by (induction seen xs rule: dedupe_loop.induct) (auto simp: dedupe_loop_set)

lemma dedupe_loop_id: "distinct xs \<Longrightarrow> set xs \<inter> set seen = {} \<Longrightarrow> dedupe_loop seen xs = xs"
  by (induction seen xs rule: dedupe_loop.induct) auto

lemma dedupeStrings_facts [simp]:
  "set (dedupeStrings xs) = set xs" "distinct (dedupeStrings xs)" "distinct xs \<Longrightarrow> dedupeStrings xs = xs"
  by (simp_all add: dedupeStrings_def dedupe_loop_set dedupe_loop_distinct dedupe_loop_id)

lemma applyNameOperation_Inr:
  "applyNameOperation old ps op = Inr names \<Longrightarrow>
     distinct names \<and> set names = (case op of setNames \<Rightarrow> set ps | addNames \<Rightarrow> set ps \<union> set old
       | removeNames \<Rightarrow> set old - set ps | otherNameOperation \<Rightarrow> {})"
  by (cases op) (auto simp: applyNameOperation_def)

lemma generateID_rest: "generateID draws = Some (k, rest) \<Longrightarrow> k \<in> set draws \<and> set rest \<subseteq> set draws \<and> strconv_Atoi (TruncateID k) = None"
  by (induction draws rule: generateID.induct) (auto split: if_splits)

lemma fresh_id_unused: "fresh_id used draws = Some k \<Longrightarrow> \<not> used k \<and> k \<in> set draws"
proof (induction used draws rule: fresh_id.induct)
  case (1 used draws)
  obtain j rest where g: "generateID draws = Some (j, rest)"
    using 1(2) fresh_id.simps [of used draws] by (auto split: option.splits)
  note rest = generateID_rest [OF g]
  show ?case
  proof (cases "used j")
    case True
    then have "fresh_id used rest = Some k" using 1(2) g fresh_id.simps [of used draws] by simp
    with 1(1) [OF g refl True] rest show ?thesis by blast
  next
    case False
    then show ?thesis using 1(2) g rest fresh_id.simps [of used draws] by simp
  qed
qed

text \<open>
  An acceptable value that is not in use, anywhere in the sequence of draws, is enough for
  the loop to end.
\<close>

lemma fresh_id_total:
  "k \<in> set draws \<Longrightarrow> strconv_Atoi (TruncateID k) = None \<Longrightarrow> \<not> used k \<Longrightarrow> \<exists>j. fresh_id used draws = Some j"
proof (induction used draws rule: fresh_id.induct)
  case (1 used draws)
  have "\<exists>j rest. generateID draws = Some (j, rest) \<and> (j = k \<or> k \<in> set rest)"
    using 1(2,3) by (induction draws) auto
  then obtain j rest where g: "generateID draws = Some (j, rest)" "j = k \<or> k \<in> set rest" by blast
  show ?case
  proof (cases "used j")
    case True
    then have "k \<in> set rest" using g(2) 1(4) by blast
    from 1(1) [OF g(1) refl True this 1(3,4)] True g(1) show ?thesis
      by (simp add: fresh_id.simps [of used draws])
  next
    case False
    then show ?thesis using g by (simp add: fresh_id.simps [of used draws])
  qed
qed

section \<open>Looking up a record\<close>

text \<open>
  The three stores find a record by its ID, by one of its names, through a further map (the
  layer of a container) and by a prefix of its ID, in this order. The locale has the maps a store
  keeps as its operations and what its invariant promises about them as laws; what a
  lookup finds follows from them.
\<close>

locale record_store =
  fixes ok :: "'s \<Rightarrow> bool" and recs :: "'s \<Rightarrow> 'p list"
    and ident :: "'s \<Rightarrow> 'p \<Rightarrow> string" and names :: "'s \<Rightarrow> 'p \<Rightarrow> string list"
    and byid :: "'s \<Rightarrow> string \<rightharpoonup> 'p" and byname :: "'s \<Rightarrow> string \<rightharpoonup> 'p"
    and other :: "'s \<Rightarrow> string \<rightharpoonup> 'p" and idx :: "'s \<Rightarrow> TruncIndex" and find :: "'s \<Rightarrow> string \<rightharpoonup> 'p"
  assumes ids: "ok s \<Longrightarrow> map_ok (\<lambda>p. {ident s p}) (set (recs s)) (byid s)"
    and names: "ok s \<Longrightarrow> map_ok (\<lambda>p. set (names s p)) (set (recs s)) (byname s)"
    and other: "ok s \<Longrightarrow> other s k = Some p \<Longrightarrow> p \<in> set (recs s)"
    and idx: "ok s \<Longrightarrow> trunc.mirrors (idx s) (dom (byid s))"
    and find: "find s k =
      (case byid s k of
         Some p \<Rightarrow> Some p
       | None \<Rightarrow>
           (case byname s k of
              Some p \<Rightarrow> Some p
            | None \<Rightarrow>
                (case other s k of
                   Some p \<Rightarrow> Some p
                 | None \<Rightarrow> (case index_Get (idx s) k of Inr longid \<Rightarrow> byid s longid | Inl _ \<Rightarrow> None))))"
begin

lemma byid_iff: "ok s \<Longrightarrow> byid s k = Some p \<longleftrightarrow> p \<in> set (recs s) \<and> ident s p = k"
  using ids [of s] by (auto simp: map_ok_def)

lemma byname_iff: "ok s \<Longrightarrow> byname s k = Some p \<longleftrightarrow> p \<in> set (recs s) \<and> k \<in> set (names s p)"
  using names [of s] by (simp add: map_ok_def)

lemma byid_None: "ok s \<Longrightarrow> byid s k = None \<longleftrightarrow> (\<forall>q \<in> set (recs s). ident s q \<noteq> k)"
  using byid_iff [of s k] by (cases "byid s k") auto

lemma byname_None: "ok s \<Longrightarrow> byname s k = None \<longleftrightarrow> (\<forall>q \<in> set (recs s). k \<notin> set (names s q))"
  using byname_iff [of s k] by (cases "byname s k") auto

lemma ident_inj: "ok s \<Longrightarrow> p \<in> set (recs s) \<Longrightarrow> q \<in> set (recs s) \<Longrightarrow> ident s p = ident s q \<Longrightarrow> p = q"
  using byid_iff [of s "ident s q" p] byid_iff [of s "ident s q" q] by simp

lemma name_owner:
  "ok s \<Longrightarrow> p \<in> set (recs s) \<Longrightarrow> q \<in> set (recs s) \<Longrightarrow> k \<in> set (names s p) \<Longrightarrow> k \<in> set (names s q) \<Longrightarrow> p = q"
  using byname_iff [of s k p] byname_iff [of s k q] by simp

lemma find_mem:
  assumes ok: "ok s" and f: "find s k = Some p"
  shows "p \<in> set (recs s) \<and> (ident s p = k \<or> k \<in> set (names s p) \<or> other s k = Some p \<or> prefix k (ident s p))"
proof -
  consider "byid s k = Some p" | "byname s k = Some p" | "other s k = Some p"
    | longid where "index_Get (idx s) k = Inr longid" "byid s longid = Some p"
    using f by (auto simp: find split: option.splits sum.splits)
  then show ?thesis
  proof cases
    case (4 longid)
    then show ?thesis
      using byid_iff [OF ok, of longid p] trunc.mirrors_get_mem [OF idx [OF ok], of k longid] by simp
  qed (use byid_iff [OF ok, of k p] byname_iff [OF ok, of k p] other [OF ok, of k p] in simp_all)
qed

lemma find_ident: "ok s \<Longrightarrow> p \<in> set (recs s) \<Longrightarrow> find s (ident s p) = Some p"
  using byid_iff [of s "ident s p" p] by (simp add: find)

lemma find_name:
  assumes "ok s" and "p \<in> set (recs s)" and "k \<in> set (names s p)" and "\<forall>q \<in> set (recs s). ident s q \<noteq> k"
  shows "find s k = Some p"
proof -
  have "byid s k = None" "byname s k = Some p" using assms by (simp_all add: byid_None byname_iff)
  then show ?thesis by (simp add: find)
qed

lemma find_prefix:
  assumes ok: "ok s" and "p \<in> set (recs s)" and "k \<noteq> ''''" and "prefix k (ident s p)" and "legal_id (ident s p)"
    and "\<forall>q \<in> set (recs s). k \<notin> set (names s q)" and "other s k = None"
    and uniq: "\<forall>q \<in> set (recs s). prefix k (ident s q) \<longrightarrow> q = p"
  shows "find s k = Some p"
proof (cases "byid s k")
  case (Some q)
  then have "q = p" using byid_iff [OF ok, of k q] uniq by auto
  with Some show ?thesis by (simp add: find)
next
  case None
  have i: "byid s (ident s p) = Some p" using byid_iff [OF ok] assms(2) by blast
  moreover have "\<forall>j \<in> dom (byid s). prefix k j \<longrightarrow> j = ident s p"
    using byid_iff [OF ok] uniq by auto
  ultimately have "index_Get (idx s) k = Inr (ident s p)"
    using trunc.mirrors_get_unique [OF idx [OF ok] assms(3) _ assms(5,4)] by blast
  moreover have "byname s k = None" using byname_None [OF ok] assms(6) by blast
  ultimately show ?thesis using None i assms(7) by (simp add: find)
qed

lemma find_None:
  "ok s \<Longrightarrow> find s k = None \<Longrightarrow> p \<in> set (recs s) \<Longrightarrow> ident s p \<noteq> k \<and> k \<notin> set (names s p)"
  using byid_None [of s k] byname_None [of s k] by (auto simp: find split: option.splits)

end

end
