(* ===== verification/Big_Data_Names.thy ===== *)
theory Big_Data_Names
  imports Go_Prelude
begin

text \<open>
  \<open>makeBigDataBaseName\<close> of \<open>storage/store.go\<close>: the file name under which a big data item of an
  image or a container is kept, with the rune reader and the base64 encoding it uses. The
  results say for which keys different items get different files.
\<close>

section \<open>File names of big data items\<close>

text \<open>The number of bytes \<open>ReadRune\<close> consumes at the front of a byte string.\<close>

definition byte :: "char \<Rightarrow> nat" where
  "byte c = of_char c"

definition cont :: "nat \<Rightarrow> nat \<Rightarrow> char list \<Rightarrow> nat \<Rightarrow> bool" where
  "cont lo hi cs i \<longleftrightarrow> i < length cs \<and> lo \<le> byte (cs ! i) \<and> byte (cs ! i) \<le> hi"

definition rune_size :: "string \<Rightarrow> nat" where
  "rune_size cs =
     (let b = byte (hd cs)
      in if b < 0x80 then 1
         else if 0xC2 \<le> b \<and> b \<le> 0xDF \<and> cont 0x80 0xBF cs 1 then 2
         else if 0xE0 \<le> b \<and> b \<le> 0xEF
                 \<and> cont (if b = 0xE0 then 0xA0 else 0x80) (if b = 0xED then 0x9F else 0xBF) cs 1
                 \<and> cont 0x80 0xBF cs 2 then 3
         else if 0xF0 \<le> b \<and> b \<le> 0xF4
                 \<and> cont (if b = 0xF0 then 0x90 else 0x80) (if b = 0xF4 then 0x8F else 0xBF) cs 1
                 \<and> cont 0x80 0xBF cs 2 \<and> cont 0x80 0xBF cs 3 then 4
         else 1)"

text \<open>\<open>base64.StdEncoding.EncodeToString\<close>.\<close>

definition base64_char :: "nat \<Rightarrow> char" where
  "base64_char n = ''ABCDEFGHIJKLMNOPQRSTUVWXYZabcdefghijklmnopqrstuvwxyz0123456789+/'' ! n"

fun base64 :: "string \<Rightarrow> string" where
  "base64 [] = []"
| "base64 [a] =
     [base64_char (byte a div 4), base64_char (byte a mod 4 * 16), CHR ''='', CHR ''='']"
| "base64 [a, b] =
     [base64_char (byte a div 4), base64_char (byte a mod 4 * 16 + byte b div 16),
      base64_char (byte b mod 16 * 4), CHR ''='']"
| "base64 (a # b # c # cs) =
     base64_char (byte a div 4) # base64_char (byte a mod 4 * 16 + byte b div 16)
     # base64_char (byte b mod 16 * 4 + byte c div 64) # base64_char (byte c mod 64) # base64 cs"

text \<open>The loop over the runes: what is left unread when it stops.\<close>

definition plain_char :: "char \<Rightarrow> bool" where
  "plain_char c \<longleftrightarrow>
     \<not> (c \<noteq> CHR ''.'' \<and> (byte c < byte (CHR ''0'') \<or> byte c > byte (CHR ''9''))
        \<and> (byte c < byte (CHR ''a'') \<or> byte c > byte (CHR ''z'')))"

fun unread :: "string \<Rightarrow> string" where
  "unread [] = []"
| "unread (c # cs) =
     (if rune_size (c # cs) \<noteq> 1 \<or> \<not> plain_char c then drop (rune_size (c # cs)) (c # cs) else unread cs)"

definition makeBigDataBaseName :: "string \<Rightarrow> string" where
  "makeBigDataBaseName key = (if unread key \<noteq> [] then CHR ''='' # base64 key else key)"

section \<open>Properties\<close>

lemma byte_less: "byte c < 256"
  by (simp add: byte_def)

lemma byte_inj: "byte a = byte b \<Longrightarrow> a = b"
  by (simp add: byte_def)

lemma base64_char_inj:
  assumes "m < 64" and "n < 64" and "base64_char m = base64_char n"
  shows "m = n"
proof -
  let ?t = "''ABCDEFGHIJKLMNOPQRSTUVWXYZabcdefghijklmnopqrstuvwxyz0123456789+/''"
  have "distinct ?t" "length ?t = 64" by code_simp+
  then show ?thesis using assms nth_eq_iff_index_eq [of ?t m n] by (simp add: base64_char_def)
qed

lemma base64_char_not_pad: "n < 64 \<Longrightarrow> base64_char n \<noteq> CHR ''=''"
proof -
  assume n: "n < 64"
  let ?t = "''ABCDEFGHIJKLMNOPQRSTUVWXYZabcdefghijklmnopqrstuvwxyz0123456789+/''"
  have "CHR ''='' \<notin> set ?t" "length ?t = 64" by code_simp+
  then show ?thesis using n nth_mem [of n ?t] by (auto simp: base64_char_def)
qed

lemma digits_bound:
  fixes x y :: nat
  shows "x < 4 \<Longrightarrow> y < 16 \<Longrightarrow> x * 16 + y < 64" and "x < 16 \<Longrightarrow> y < 4 \<Longrightarrow> x * 4 + y < 64"
  by simp_all

lemma digits_unique:
  fixes x y x' y' :: nat
  assumes "x * k + y = x' * k + y'" and "y < k" and "y' < k"
  shows "x = x'" and "y = y'"
proof -
  have "(x * k + y) div k = (x' * k + y') div k" "(x * k + y) mod k = (x' * k + y') mod k"
    using assms(1) by simp_all
  then show "x = x'" "y = y'" using assms(2,3) by simp_all
qed

lemma byte_parts: "byte a div 4 < 64" "byte a div 16 < 16" "byte a div 64 < 4"
  "byte a mod 4 < 4" "byte a mod 16 < 16" "byte a mod 64 < 64"
  using byte_less [of a] by simp_all

lemma sextets:
  "byte a div 4 < 64" "byte a mod 4 * 16 < 64" "byte a mod 4 * 16 + byte b div 16 < 64"
  "byte b mod 16 * 4 < 64" "byte b mod 16 * 4 + byte c div 64 < 64" "byte c mod 64 < 64"
proof -
  show "byte a mod 4 * 16 + byte b div 16 < 64" by (intro digits_bound byte_parts)
  show "byte b mod 16 * 4 + byte c div 64 < 64" by (intro digits_bound byte_parts)
  show "byte a mod 4 * 16 < 64" using digits_bound(1) [OF byte_parts(4) [of a], of 0] by simp
  show "byte b mod 16 * 4 < 64" using digits_bound(2) [OF byte_parts(5) [of b], of 0] by simp
qed (rule byte_parts)+

lemma byte_eqI: "byte a div k = byte a' div k \<Longrightarrow> byte a mod k = byte a' mod k \<Longrightarrow> a = a'"
  by (rule byte_inj) (metis div_mult_mod_eq)

lemma sextets_inj2:
  assumes "byte a div 4 = byte a' div 4" and "byte a mod 4 * 16 + byte b div 16 = byte a' mod 4 * 16 + byte b' div 16"
  shows "a = a'" and "byte b div 16 = byte b' div 16"
  using byte_eqI [OF assms(1)] digits_unique [OF assms(2) byte_parts(2) byte_parts(2)] by auto

lemma sextets_inj3:
  assumes "byte b div 16 = byte b' div 16" and "byte b mod 16 * 4 + byte c div 64 = byte b' mod 16 * 4 + byte c' div 64"
    and "byte c mod 64 = byte c' mod 64"
  shows "b = b'" and "c = c'"
  using byte_eqI [OF assms(1)] byte_eqI [OF _ assms(3)]
    digits_unique [OF assms(2) byte_parts(3) byte_parts(3)] by auto

lemma sextets_inj1:
  "byte a div 4 = byte a' div 4 \<Longrightarrow> byte a mod 4 * 16 = byte a' mod 4 * 16 \<Longrightarrow> a = a'"
  "byte b div 16 = byte b' div 16 \<Longrightarrow> byte b mod 16 * 4 = byte b' mod 16 * 4 \<Longrightarrow> b = b'"
  using byte_eqI by simp_all

lemma base64_inj: "base64 s = base64 t \<Longrightarrow> s = t"
proof (induction s arbitrary: t rule: base64.induct)
  case 1
  then show ?case by (cases t rule: base64.cases) auto
next
  case (2 a)
  show ?case
  proof (cases t rule: base64.cases)
    case (2 a')
    with "2.prems" have "byte a div 4 = byte a' div 4" "byte a mod 4 * 16 = byte a' mod 4 * 16"
      by (auto dest!: base64_char_inj [OF sextets(1) sextets(1)] base64_char_inj [OF sextets(2) sextets(2)])
    with sextets_inj1(1) 2 show ?thesis by simp
  qed (use "2.prems" base64_char_not_pad [OF sextets(4)] base64_char_not_pad [OF sextets(5)] in \<open>auto dest: sym\<close>)
next
  case (3 a b)
  show ?case
  proof (cases t rule: base64.cases)
    case (3 a' b')
    with "3.prems" have e: "byte a div 4 = byte a' div 4"
      "byte a mod 4 * 16 + byte b div 16 = byte a' mod 4 * 16 + byte b' div 16" "byte b mod 16 * 4 = byte b' mod 16 * 4"
      by (auto dest!: base64_char_inj [OF sextets(1) sextets(1)] base64_char_inj [OF sextets(3) sextets(3)]
          base64_char_inj [OF sextets(4) sextets(4)])
    from sextets_inj2 [OF e(1,2)] sextets_inj1(2) [OF _ e(3)] 3 show ?thesis by simp
  qed (use "3.prems" base64_char_not_pad [OF sextets(4)] base64_char_not_pad [OF sextets(6)] in \<open>auto dest: sym\<close>)
next
  case (4 a b c cs)
  show ?case
  proof (cases t rule: base64.cases)
    case (4 a' b' c' cs')
    with "4.prems" have e: "byte a div 4 = byte a' div 4"
      "byte a mod 4 * 16 + byte b div 16 = byte a' mod 4 * 16 + byte b' div 16"
      "byte b mod 16 * 4 + byte c div 64 = byte b' mod 16 * 4 + byte c' div 64"
      "byte c mod 64 = byte c' mod 64" "base64 cs = base64 cs'"
      by (auto dest!: base64_char_inj [OF sextets(1) sextets(1)] base64_char_inj [OF sextets(3) sextets(3)]
          base64_char_inj [OF sextets(5) sextets(5)] base64_char_inj [OF sextets(6) sextets(6)])
    note ab = sextets_inj2 [OF e(1,2)]
    from ab sextets_inj3 [OF ab(2) e(3,4)] "4.IH" [OF e(5)] 4 show ?thesis by simp
  qed (use "4.prems" base64_char_not_pad [OF sextets(5)] base64_char_not_pad [OF sextets(6)] in \<open>auto dest: sym\<close>)
qed

text \<open>A key is handled as intended when it is all plain or has something after the first odd rune.\<close>

definition well_encoded :: "string \<Rightarrow> bool" where
  "well_encoded key \<longleftrightarrow> list_all plain_char key \<or> unread key \<noteq> []"

lemma plain_byte: "plain_char c \<Longrightarrow> byte c < 0x80"
  by (auto simp: plain_char_def byte_def)

lemma rune_size_plain: "plain_char c \<Longrightarrow> rune_size (c # cs) = 1"
  using plain_byte [of c] by (simp add: rune_size_def)

lemma unread_plain: "list_all plain_char key \<Longrightarrow> unread key = []"
  by (induction key) (simp_all add: rune_size_plain)

text \<open>
  On the keys that are handled as intended the file name of a big data item determines
  the key, so different items never share a file. This fails beyond them: a key whose only
  odd character is its last one is used as it is, and the encoding itself can contain a
  slash.
\<close>

lemma makeBigDataBaseName_inj:
  assumes "well_encoded j" and "well_encoded k" and "makeBigDataBaseName j = makeBigDataBaseName k"
  shows "j = k"
proof -
  have name: "makeBigDataBaseName k = (if list_all plain_char k then k else CHR ''='' # base64 k)"
    if "well_encoded k" for k
    using that unread_plain [of k] by (cases "list_all plain_char k") (simp_all add: well_encoded_def makeBigDataBaseName_def)
  have "\<not> plain_char (CHR ''='')" by (simp add: plain_char_def byte_def)
  then have enc: "\<not> list_all plain_char (CHR ''='' # xs)" for xs by simp
  show ?thesis
  proof (cases "list_all plain_char j"; cases "list_all plain_char k")
    assume "\<not> list_all plain_char j" "\<not> list_all plain_char k"
    then show ?thesis using assms(3) base64_inj unfolding name [OF assms(1)] name [OF assms(2)] by simp
  next
    assume "list_all plain_char j" "\<not> list_all plain_char k"
    then show ?thesis using assms(3) enc unfolding name [OF assms(1)] name [OF assms(2)] by metis
  next
    assume "\<not> list_all plain_char j" "list_all plain_char k"
    then show ?thesis using assms(3) enc unfolding name [OF assms(1)] name [OF assms(2)] by metis
  qed (use assms(3) name [OF assms(1)] name [OF assms(2)] in simp)
qed

text \<open>
  The name is not always usable as a file name: the key \<open>a/\<close>, whose odd character is the
  last one, is returned unchanged, and the key \<open>ab?c\<close> is encoded with a slash in it.
\<close>

lemma makeBigDataBaseName_slash:
  "makeBigDataBaseName ''a/'' = ''a/'' \<and> makeBigDataBaseName ''ab?c'' = ''=YWI/Yw==''"
  by (simp add: makeBigDataBaseName_def plain_char_def rune_size_def byte_def base64_char_def)

end
