(* ===== verification/Image_Store.thy ===== *)
theory Image_Store
  imports Store_Base Big_Data_Names "HOL-Library.AList"
begin

text \<open>
  \<open>storage/images.go\<close>: the image store. An image is a heap cell, as in the code, where the
  slice and the three maps hold pointers to the same record. The store keeps the images of
  \<open>images.json\<close> in \<open>i_json\<close> and the big data files in \<open>i_data\<close>, by image and file name. Digest validation and the
  digest of a byte string belong to the digest library and are arguments, as is the order
  in which Go iterates over a map.

  Nil and empty slices or maps are not told apart by any caller and are one value here;
  \<open>copyImage\<close> is the record itself. The last-write bookkeeping follows the code; the locks
  themselves are the subject of the lock file theory.
\<close>

section \<open>State\<close>

record Image =
  img_ID :: string
  img_Digest :: string
  img_Digests :: "string list"
  img_Names :: "string list"
  img_NamesHistory :: "string list"
  img_TopLayer :: string
  img_MappedTopLayers :: "string list"
  img_Metadata :: string
  img_BigDataNames :: "string list"
  img_BigDataSizes :: "string \<rightharpoonup> int"
  img_BigDataDigests :: "(string \<times> string) list"
  img_Created :: int
  img_ReadOnly :: bool
  img_Flags :: "string \<rightharpoonup> flag_value"

record imageStore = store_io +
  i_heap :: "nat \<Rightarrow> Image"
  i_next :: nat
  i_images :: "nat list"
  i_idindex :: TruncIndex
  i_byid :: "string \<rightharpoonup> nat"
  i_byname :: "string \<rightharpoonup> nat"
  i_bydigest :: "string \<rightharpoonup> nat list"
  i_json :: "Image list"
  i_data :: "string \<times> string \<rightharpoonup> string"

record digest_env =
  Validate :: "string \<Rightarrow> bool"
  FromBytes :: "string \<Rightarrow> string"
  map_order :: "(string \<times> string) list \<Rightarrow> (string \<times> string) list"

abbreviation upd_image :: "nat \<Rightarrow> (Image \<Rightarrow> Image) \<Rightarrow> imageStore \<Rightarrow> imageStore" where
  "upd_image p f s \<equiv> s\<lparr>i_heap := (i_heap s)(p := f (i_heap s p))\<rparr>"

section \<open>Digests\<close>

definition bigDataNameIsManifest :: "string \<Rightarrow> bool" where
  "bigDataNameIsManifest name = strings_HasPrefix name ''manifest''"

fun recompute_loop :: "(string \<Rightarrow> bool) \<Rightarrow> string list \<Rightarrow> (string \<times> string) list \<Rightarrow> string list res" where
  "recompute_loop validate validDigests [] = Inr validDigests"
| "recompute_loop validate validDigests ((name, d) # rest) =
     (if \<not> bigDataNameIsManifest name then recompute_loop validate validDigests rest
      else if \<not> validate d then Inl (ErrFmt ''validating digest for big data item'')
      else if d \<in> set validDigests then recompute_loop validate validDigests rest
      else recompute_loop validate (validDigests @ [d]) rest)"

definition recomputeDigests :: "digest_env \<Rightarrow> Image \<Rightarrow> Image res" where
  "recomputeDigests env i =
     (if img_Digest i \<noteq> '''' \<and> \<not> Validate env (img_Digest i)
      then Inl (ErrFmt ''validating image digest'')
      else and_then
        (recompute_loop (Validate env) (if img_Digest i \<noteq> '''' then [img_Digest i] else [])
           (map_order env (img_BigDataDigests i)))
        (\<lambda>validDigests.
           Inr (i\<lparr>img_Digest := (if img_Digest i = '''' \<and> validDigests \<noteq> [] then hd validDigests else img_Digest i),
                  img_Digests := validDigests\<rparr>)))"

section \<open>Saving and loading\<close>

text \<open>What the JSON file keeps of an image: the fields tagged \<open>"-"\<close> are dropped, flags are read back as JSON has them.\<close>

definition json_image :: "Image \<Rightarrow> Image" where
  "json_image i = i\<lparr>img_Digests := [], img_ReadOnly := False, img_Flags := json_flags (img_Flags i)\<rparr>"

definition image_Save :: "(imageStore, unit) op" where
  "image_Save =
     op_read IsReadWrite (\<lambda>rw.
       if \<not> rw then op_fail ErrStoreIsReadOnly
       else op_seq io_call
            (op_seq io_call
            (op_then RecordWrite (\<lambda>lw.
             op_seq (op_update (\<lambda>s. s\<lparr>lastWrite := lw\<rparr>))
            (op_seq io_call
            (op_update (\<lambda>s. s\<lparr>i_json := map (json_image \<circ> i_heap s) (i_images s)\<rparr>)))))))"

definition image_removeName :: "nat \<Rightarrow> string \<Rightarrow> (nat \<Rightarrow> Image) \<Rightarrow> (nat \<Rightarrow> Image)" where
  "image_removeName p name h = h(p := (h p)\<lparr>img_Names := stringSliceWithoutValue (img_Names (h p)) name\<rparr>)"

text \<open>The loop of \<open>load\<close> over the records of the file, which sit at the addresses \<open>ps\<close>.\<close>

record image_load =
  ld_heap :: "nat \<Rightarrow> Image"
  ld_ids :: "string \<rightharpoonup> nat"
  ld_names :: "string \<rightharpoonup> nat"
  ld_digests :: "string \<rightharpoonup> nat list"
  ld_idlist :: "string list"
  ld_dup :: bool

definition load_conflict :: "image_load \<Rightarrow> string \<Rightarrow> image_load" where
  "load_conflict ld name =
     (case ld_names ld name of
        None \<Rightarrow> ld
      | Some q \<Rightarrow> ld\<lparr>ld_heap := image_removeName q name (ld_heap ld), ld_dup := True\<rparr>)"

definition image_load_one :: "digest_env \<Rightarrow> bool \<Rightarrow> image_load \<Rightarrow> nat \<Rightarrow> image_load res" where
  "image_load_one env rw ld p =
     (let ld1 = ld\<lparr>ld_ids := (ld_ids ld)(img_ID (ld_heap ld p) \<mapsto> p),
                   ld_idlist := ld_idlist ld @ [img_ID (ld_heap ld p)]\<rparr>;
          ld2 = foldl load_conflict ld1 (img_Names (ld_heap ld1 p))
      in and_then (recomputeDigests env (ld_heap ld2 p)) (\<lambda>i.
           Inr (ld2\<lparr>ld_heap := (ld_heap ld2)(p := i\<lparr>img_ReadOnly := \<not> rw\<rparr>),
                    ld_names := put_all (img_Names i) p (ld_names ld2),
                    ld_digests := foldl (append_key p) (ld_digests ld2) (img_Digests i)\<rparr>)))"

fun image_load_all :: "digest_env \<Rightarrow> bool \<Rightarrow> image_load \<Rightarrow> nat list \<Rightarrow> image_load res" where
  "image_load_all env rw ld [] = Inr ld"
| "image_load_all env rw ld (p # ps) = and_then (image_load_one env rw ld p) (\<lambda>ld'. image_load_all env rw ld' ps)"

text \<open>
  \<open>load\<close> returns whether retrying with the write lock could help, and the error. Reading and
  decoding the file are two calls that can fail.
\<close>

definition alloc_images :: "nat \<Rightarrow> Image list \<Rightarrow> (nat \<Rightarrow> Image) \<Rightarrow> (nat \<Rightarrow> Image)" where
  "alloc_images n imgs h = (\<lambda>p. if n \<le> p \<and> p < n + length imgs then imgs ! (p - n) else h p)"

definition image_load :: "digest_env \<Rightarrow> bool \<Rightarrow> imageStore \<Rightarrow> (bool \<times> go_error option) \<times> imageStore" where
  "image_load env lockedForWriting s0 =
     (case op_seq io_call io_call s0 of
        (Inl e, s) \<Rightarrow> ((False, Some e), s)
      | (Inr _, s) \<Rightarrow>
          (let ps = [i_next s ..< i_next s + length (i_json s)];
               ld0 = \<lparr>ld_heap = alloc_images (i_next s) (i_json s) (i_heap s), ld_ids = Map.empty,
                      ld_names = Map.empty, ld_digests = Map.empty, ld_idlist = [], ld_dup = False\<rparr>
           in case image_load_all env (IsReadWrite s) ld0 ps of
                Inl e \<Rightarrow> ((False, Some e), s)
              | Inr ld \<Rightarrow>
                  if ld_dup ld \<and> \<not> IsReadWrite s then ((False, Some ErrDuplicateImageNames), s)
                  else if ld_dup ld \<and> \<not> lockedForWriting then ((True, Some ErrDuplicateImageNames), s)
                  else
                    (let s1 = s\<lparr>i_heap := ld_heap ld, i_next := i_next s + length (i_json s), i_images := ps,
                                i_idindex := NewTruncIndex (ld_idlist ld), i_byid := ld_ids ld,
                                i_byname := ld_names ld, i_bydigest := ld_digests ld\<rparr>
                     in if ld_dup ld
                        then (case image_Save s1 of
                                (Inl e, s2) \<Rightarrow> ((False, Some e), s2)
                              | (Inr _, s2) \<Rightarrow> ((False, None), s2))
                        else ((False, None), s1))))"

definition image_reloadIfChanged :: "digest_env \<Rightarrow> bool \<Rightarrow> imageStore \<Rightarrow> (bool \<times> go_error option) \<times> imageStore" where
  "image_reloadIfChanged env lockedForWriting s0 =
     (case ModifiedSince (lastWrite s0) s0 of
        (Inl e, s) \<Rightarrow> ((False, Some e), s)
      | (Inr (lw, modified), s) \<Rightarrow>
          if modified
          then (case image_load env lockedForWriting s of
                  ((try, Some e), s1) \<Rightarrow> ((try, Some e), s1)
                | ((_, None), s1) \<Rightarrow> ((False, None), s1\<lparr>lastWrite := lw\<rparr>))
          else ((False, None), s))"

section \<open>Looking up\<close>

definition image_lookup :: "imageStore \<Rightarrow> string \<Rightarrow> nat option" where
  "image_lookup s k =
     (case i_byid s k of
        Some p \<Rightarrow> Some p
      | None \<Rightarrow>
          (case i_byname s k of
             Some p \<Rightarrow> Some p
           | None \<Rightarrow>
               (case index_Get (i_idindex s) k of
                  Inr longid \<Rightarrow> i_byid s longid
                | Inl _ \<Rightarrow> None)))"

text \<open>\<open>image, ok := r.lookup(id)\<close> with the error every caller returns when it is missing.\<close>

definition with_image :: "string \<Rightarrow> (nat \<Rightarrow> (imageStore, 'a) op) \<Rightarrow> (imageStore, 'a) op" where
  "with_image k f =
     op_read (\<lambda>s. image_lookup s k) (\<lambda>r. case r of None \<Rightarrow> op_fail ErrImageUnknown | Some p \<Rightarrow> f p)"

definition writable :: "(imageStore, 'a) op \<Rightarrow> (imageStore, 'a) op" where
  "writable m = op_read IsReadWrite (\<lambda>rw. if \<not> rw then op_fail ErrStoreIsReadOnly else m)"

definition image_Images :: "imageStore \<Rightarrow> Image list" where
  "image_Images s = map (i_heap s) (i_images s)"

definition image_Get :: "imageStore \<Rightarrow> string \<Rightarrow> Image res" where
  "image_Get s k = (case image_lookup s k of Some p \<Rightarrow> Inr (i_heap s p) | None \<Rightarrow> Inl ErrImageUnknown)"

definition image_Exists :: "imageStore \<Rightarrow> string \<Rightarrow> bool" where
  "image_Exists s k \<longleftrightarrow> image_lookup s k \<noteq> None"

definition image_ByDigest :: "imageStore \<Rightarrow> string \<Rightarrow> Image list res" where
  "image_ByDigest s d =
     (case i_bydigest s d of Some l \<Rightarrow> Inr (map (i_heap s) l) | None \<Rightarrow> Inl ErrImageUnknown)"

definition image_GetMetadata :: "imageStore \<Rightarrow> string \<Rightarrow> string res" where
  "image_GetMetadata s k =
     (case image_lookup s k of Some p \<Rightarrow> Inr (img_Metadata (i_heap s p)) | None \<Rightarrow> Inl ErrImageUnknown)"

section \<open>Changing records\<close>

definition image_ClearFlag :: "string \<Rightarrow> string \<Rightarrow> (imageStore, unit) op" where
  "image_ClearFlag k flag =
     writable (with_image k (\<lambda>p.
       op_seq (op_update (upd_image p (\<lambda>i. i\<lparr>img_Flags := (img_Flags i)(flag := None)\<rparr>))) image_Save))"

definition image_SetFlag :: "string \<Rightarrow> string \<Rightarrow> flag_value \<Rightarrow> (imageStore, unit) op" where
  "image_SetFlag k flag v =
     writable (with_image k (\<lambda>p.
       op_seq (op_update (upd_image p (\<lambda>i. i\<lparr>img_Flags := (img_Flags i)(flag \<mapsto> v)\<rparr>))) image_Save))"

definition image_SetMetadata :: "string \<Rightarrow> string \<Rightarrow> (imageStore, unit) op" where
  "image_SetMetadata k metadata =
     writable (with_image k (\<lambda>p.
       op_seq (op_update (upd_image p (\<lambda>i. i\<lparr>img_Metadata := metadata\<rparr>))) image_Save))"

definition image_addMappedTopLayer :: "string \<Rightarrow> string \<Rightarrow> (imageStore, unit) op" where
  "image_addMappedTopLayer k layer =
     with_image k (\<lambda>p.
       op_seq (op_update (upd_image p (\<lambda>i. i\<lparr>img_MappedTopLayers := img_MappedTopLayers i @ [layer]\<rparr>))) image_Save)"

definition image_removeMappedTopLayer :: "string \<Rightarrow> string \<Rightarrow> (imageStore, unit) op" where
  "image_removeMappedTopLayer k layer =
     with_image k (\<lambda>p. op_read (\<lambda>s. img_MappedTopLayers (i_heap s p)) (\<lambda>before.
       op_seq (op_update (upd_image p (\<lambda>i. i\<lparr>img_MappedTopLayers := RemoveFromSlice before layer\<rparr>)))
         (if length (RemoveFromSlice before layer) = length before then op_return () else image_Save)))"

definition addNameToHistory :: "string \<Rightarrow> Image \<Rightarrow> Image" where
  "addNameToHistory name i = i\<lparr>img_NamesHistory := dedupeStrings (name # img_NamesHistory i)\<rparr>"

definition image_take_name :: "nat \<Rightarrow> imageStore \<Rightarrow> string \<Rightarrow> imageStore" where
  "image_take_name p s name =
     (let s1 = (case i_byname s name of
                  Some q \<Rightarrow> s\<lparr>i_heap := image_removeName q name (i_heap s)\<rparr>
                | None \<Rightarrow> s)
      in upd_image p (addNameToHistory name) (s1\<lparr>i_byname := (i_byname s1)(name \<mapsto> p)\<rparr>))"

definition image_updateNames :: "string \<Rightarrow> string list \<Rightarrow> updateNameOperation \<Rightarrow> (imageStore, unit) op" where
  "image_updateNames k names op =
     writable (with_image k (\<lambda>p. op_read (\<lambda>s. img_Names (i_heap s p)) (\<lambda>oldNames.
       case applyNameOperation oldNames names op of
         Inl e \<Rightarrow> op_fail e
       | Inr newNames \<Rightarrow>
           op_seq (op_update (\<lambda>s. s\<lparr>i_byname := del_all oldNames (i_byname s)\<rparr>))
          (op_seq (op_update (\<lambda>s. foldl (image_take_name p) s newNames))
          (op_seq (op_update (upd_image p (\<lambda>i. i\<lparr>img_Names := newNames\<rparr>))) image_Save)))))"

text \<open>What \<open>Delete\<close> does to the memory before it saves.\<close>

definition image_unlink :: "nat \<Rightarrow> imageStore \<Rightarrow> imageStore" where
  "image_unlink p s =
     (let image = i_heap s p
      in s\<lparr>i_byid := (i_byid s)(img_ID image := None),
           i_idindex := fst (index_Delete (i_idindex s) (img_ID image)),
           i_byname := del_all (img_Names image) (i_byname s),
           i_bydigest := foldl (prune_key p) (i_bydigest s) (img_Digests image),
           i_images := filter (\<lambda>q. img_ID (i_heap s q) \<noteq> img_ID image) (i_images s)\<rparr>)"

definition image_Delete :: "string \<Rightarrow> (imageStore, unit) op" where
  "image_Delete k =
     writable (with_image k (\<lambda>p. op_read (\<lambda>s. img_ID (i_heap s p)) (\<lambda>ident.
       op_seq (op_update (image_unlink p))
      (op_seq image_Save
      (op_seq io_call
      (op_update (\<lambda>s. s\<lparr>i_data := (\<lambda>(j, key). if j = ident then None else i_data s (j, key))\<rparr>)))))))"

text \<open>\<open>ids\<close> are the identifiers of the store, in the order the iteration over the map yields them.\<close>

definition image_Wipe :: "string list \<Rightarrow> (imageStore, unit) op" where
  "image_Wipe ids = writable (op_each image_Delete ids)"

section \<open>Big data\<close>

definition image_BigData :: "string \<Rightarrow> string \<Rightarrow> (imageStore, string) op" where
  "image_BigData k key =
     (if key = '''' then op_fail ErrInvalidBigDataName
      else with_image k (\<lambda>p. op_seq io_call (op_read (\<lambda>s. i_data s (img_ID (i_heap s p), makeBigDataBaseName key)) (\<lambda>r.
             case r of None \<Rightarrow> op_fail ErrNotExist | Some d \<Rightarrow> op_return d))))"

definition image_BigDataSize :: "string \<Rightarrow> string \<Rightarrow> (imageStore, int) op" where
  "image_BigDataSize k key =
     (if key = '''' then op_fail ErrInvalidBigDataName
      else with_image k (\<lambda>p. op_read (\<lambda>s. img_BigDataSizes (i_heap s p) key) (\<lambda>r.
             case r of
               Some n \<Rightarrow> op_return n
             | None \<Rightarrow> (\<lambda>s. case image_BigData k key s of
                                (Inr d, s') \<Rightarrow> (Inr (int (length d)), s')
                              | (Inl _, s') \<Rightarrow> (Inl ErrSizeUnknown, s')))))"

definition image_BigDataDigest :: "imageStore \<Rightarrow> string \<Rightarrow> string \<Rightarrow> string res" where
  "image_BigDataDigest s k key =
     (if key = '''' then Inl ErrInvalidBigDataName
      else case image_lookup s k of
        None \<Rightarrow> Inl ErrImageUnknown
      | Some p \<Rightarrow> (case map_of (img_BigDataDigests (i_heap s p)) key of
                     Some d \<Rightarrow> Inr d | None \<Rightarrow> Inl ErrDigestUnknown))"

definition image_GetBigDataNames :: "imageStore \<Rightarrow> string \<Rightarrow> string list res" where
  "image_GetBigDataNames s k =
     (case image_lookup s k of Some p \<Rightarrow> Inr (img_BigDataNames (i_heap s p)) | None \<Rightarrow> Inl ErrImageUnknown)"

text \<open>The record after a data item has been written, and whether it has to be saved.\<close>

definition image_note_data :: "string \<Rightarrow> string \<Rightarrow> string \<Rightarrow> Image \<Rightarrow> Image" where
  "image_note_data key data newDigest i =
     i\<lparr>img_BigDataSizes := (img_BigDataSizes i)(key \<mapsto> int (length data)),
       img_BigDataDigests := AList.update key newDigest (img_BigDataDigests i),
       img_BigDataNames := (if key \<in> set (img_BigDataNames i) then img_BigDataNames i
                            else img_BigDataNames i @ [key])\<rparr>"

definition image_data_changed :: "string \<Rightarrow> string \<Rightarrow> string \<Rightarrow> Image \<Rightarrow> bool" where
  "image_data_changed key data newDigest i \<longleftrightarrow>
     img_BigDataSizes i key \<noteq> Some (int (length data))
     \<or> map_of (img_BigDataDigests i) key \<noteq> Some newDigest
     \<or> key \<notin> set (img_BigDataNames i)"

definition append_key_once :: "'p \<Rightarrow> ('k \<rightharpoonup> 'p list) \<Rightarrow> 'k \<Rightarrow> ('k \<rightharpoonup> 'p list)" where
  "append_key_once p m k = (if p \<in> set (list_of m k) then m else append_key p m k)"

text \<open>The body of \<open>setBigData\<close> once the file is written.\<close>

definition image_record_data :: "digest_env \<Rightarrow> nat \<Rightarrow> string \<Rightarrow> string \<Rightarrow> string \<Rightarrow> (imageStore, unit) op" where
  "image_record_data env p key data newDigest =
     op_read (\<lambda>s. image_data_changed key data newDigest (i_heap s p)) (\<lambda>save.
     op_seq (op_update (upd_image p (image_note_data key data newDigest)))
    (op_seq (op_update (\<lambda>s. s\<lparr>i_bydigest := foldl (prune_key p) (i_bydigest s) (img_Digests (i_heap s p))\<rparr>))
    (op_read (\<lambda>s. recomputeDigests env (i_heap s p)) (\<lambda>r.
       case r of
         Inl e \<Rightarrow> op_fail e
       | Inr i \<Rightarrow>
           op_seq (op_update (\<lambda>s. (upd_image p (\<lambda>_. i) s)
                     \<lparr>i_bydigest := foldl (append_key_once p) (i_bydigest s) (img_Digests i)\<rparr>))
             (if save then image_Save else op_return ())))))"

definition image_setBigData :: "digest_env \<Rightarrow> nat \<Rightarrow> string \<Rightarrow> string \<Rightarrow> string \<Rightarrow> (imageStore, unit) op" where
  "image_setBigData env p key data newDigest =
     (if key = '''' then op_fail ErrInvalidBigDataName
      else op_seq io_call
          (op_seq io_call
          (op_seq (op_update (\<lambda>s. s\<lparr>i_data := (i_data s)((img_ID (i_heap s p), makeBigDataBaseName key) \<mapsto> data)\<rparr>))
          (image_record_data env p key data newDigest))))"

text \<open>\<open>SetBigData\<close>: the digest of a manifest comes from a callback, \<open>None\<close> when there is none.\<close>

definition image_SetBigData ::
  "digest_env \<Rightarrow> string \<Rightarrow> string \<Rightarrow> string \<Rightarrow> (string \<Rightarrow> string res) option \<Rightarrow> (imageStore, unit) op" where
  "image_SetBigData env k key data digestManifest =
     writable (with_image k (\<lambda>p.
       if bigDataNameIsManifest key
       then (case digestManifest of
               None \<Rightarrow> op_fail ErrDigestUnknown
             | Some f \<Rightarrow> (case f data of
                              Inl e \<Rightarrow> op_fail e
                            | Inr d \<Rightarrow> image_setBigData env p key data d))
       else image_setBigData env p key data (FromBytes env data)))"

section \<open>Creation\<close>

record ImageOptions =
  opt_Digest :: string
  opt_Digests :: "string list"
  opt_Metadata :: string
  opt_CreationDate :: int
  opt_NamesHistory :: "string list"
  opt_Flags :: "string \<rightharpoonup> flag_value"
  opt_BigData :: "(string \<times> string \<times> string) list"

definition new_image :: "int \<Rightarrow> string \<Rightarrow> string list \<Rightarrow> string \<Rightarrow> ImageOptions \<Rightarrow> Image" where
  "new_image now ident names layer options =
     \<lparr>img_ID = ident, img_Digest = opt_Digest options, img_Digests = dedupeDigests (opt_Digests options),
      img_Names = names, img_NamesHistory = opt_NamesHistory options, img_TopLayer = layer,
      img_MappedTopLayers = [], img_Metadata = opt_Metadata options, img_BigDataNames = [],
      img_BigDataSizes = Map.empty, img_BigDataDigests = [],
      img_Created = (if opt_CreationDate options = 0 then now else opt_CreationDate options),
      img_ReadOnly = False, img_Flags = opt_Flags options\<rparr>"

definition image_link :: "nat \<Rightarrow> Image \<Rightarrow> imageStore \<Rightarrow> imageStore" where
  "image_link p i s =
     s\<lparr>i_heap := (i_heap s)(p := i), i_next := Suc p, i_images := i_images s @ [p],
       i_idindex := fst (index_Add (i_idindex s) (img_ID i)),
       i_byid := (i_byid s)(img_ID i \<mapsto> p),
       i_byname := put_all (img_Names i) p (i_byname s),
       i_bydigest := foldl (append_key p) (i_bydigest s) (img_Digests i)\<rparr>"

text \<open>The part of \<open>create\<close> that runs under the deferred clean-up.\<close>

definition image_finish :: "digest_env \<Rightarrow> nat \<Rightarrow> (string \<times> string \<times> string) list \<Rightarrow> (imageStore, Image) op" where
  "image_finish env p items =
     op_seq image_Save
    (op_seq (op_each (\<lambda>(key, data, d). image_setBigData env p key data (if d = '''' then FromBytes env data else d)) items)
    (op_read (\<lambda>s. i_heap s p) op_return))"

definition image_create ::
  "digest_env \<Rightarrow> int \<Rightarrow> string list \<Rightarrow> string \<Rightarrow> string list \<Rightarrow> string \<Rightarrow> ImageOptions \<Rightarrow> (imageStore, Image) op" where
  "image_create env now draws k names0 layer options =
     writable
       (op_read (\<lambda>s. if k = '''' then fresh_id (\<lambda>j. i_byid s j \<noteq> None) draws else Some k) (\<lambda>chosen.
        case chosen of
          None \<Rightarrow> op_fail (Panic ''random source'')
        | Some ident \<Rightarrow>
            op_read (\<lambda>s. (i_byid s ident, i_byname s, i_next s)) (\<lambda>(inUse, byname, p).
              if inUse \<noteq> None then op_fail ErrDuplicateID
              else let names = dedupeStrings names0
                   in if \<exists>n \<in> set names. byname n \<noteq> None then op_fail ErrDuplicateName
                      else (case recomputeDigests env (new_image now ident names layer options) of
                              Inl e \<Rightarrow> op_fail e
                            | Inr i \<Rightarrow>
                                op_seq (op_update (image_link p i))
                                  (op_cleanup (image_finish env p (opt_BigData options)) (image_Delete ident))))))"

section \<open>Invariant\<close>

text \<open>What the digest library and Go promise about the arguments.\<close>

definition env_ok :: "digest_env \<Rightarrow> bool" where
  "env_ok env \<longleftrightarrow> (\<forall>xs. set (map_order env xs) = set xs) \<and> (\<forall>b. Validate env (FromBytes env b))
     \<and> \<not> Validate env ''''"

text \<open>
  The digests \<open>recomputeDigests\<close> looks at are valid, and the two derived fields are what it
  computes: the list has the digest of the image and those of its manifests, once each, and an
  image with a manifest has a digest.
\<close>

definition manifest_digests :: "Image \<Rightarrow> string set" where
  "manifest_digests i = {d. \<exists>name. (name, d) \<in> set (img_BigDataDigests i) \<and> bigDataNameIsManifest name}"

definition digests_ok :: "(string \<Rightarrow> bool) \<Rightarrow> Image \<Rightarrow> bool" where
  "digests_ok valid i \<longleftrightarrow>
     (img_Digest i = '''' \<or> valid (img_Digest i))
     \<and> (\<forall>d \<in> manifest_digests i. valid d)
     \<and> distinct (img_Digests i)
     \<and> set (img_Digests i) = manifest_digests i \<union> ({img_Digest i} - {''''})
     \<and> (img_Digest i = '''' \<longrightarrow> manifest_digests i = {})"

lemma manifest_digests_upd [simp]:
  "manifest_digests (i\<lparr>img_Digest := d\<rparr>) = manifest_digests i"
  "manifest_digests (i\<lparr>img_Digests := ds\<rparr>) = manifest_digests i"
  "manifest_digests (i\<lparr>img_Names := ns\<rparr>) = manifest_digests i"
  "manifest_digests (i\<lparr>img_NamesHistory := ns\<rparr>) = manifest_digests i"
  "manifest_digests (i\<lparr>img_MappedTopLayers := ls\<rparr>) = manifest_digests i"
  "manifest_digests (i\<lparr>img_Metadata := m\<rparr>) = manifest_digests i"
  "manifest_digests (i\<lparr>img_ReadOnly := b\<rparr>) = manifest_digests i"
  "manifest_digests (i\<lparr>img_Flags := fl\<rparr>) = manifest_digests i"
  by (simp_all add: manifest_digests_def)

definition image_ok :: "(string \<Rightarrow> bool) \<Rightarrow> imageStore \<Rightarrow> bool" where
  "image_ok valid s \<longleftrightarrow>
     distinct (i_images s) \<and> (\<forall>p \<in> set (i_images s). p < i_next s)
     \<and> map_ok (\<lambda>p. {img_ID (i_heap s p)}) (set (i_images s)) (i_byid s)
     \<and> map_ok (\<lambda>p. set (img_Names (i_heap s p))) (set (i_images s)) (i_byname s)
     \<and> multi_ok (\<lambda>p. set (img_Digests (i_heap s p))) (set (i_images s)) (i_bydigest s)
     \<and> trunc.mirrors (i_idindex s) (dom (i_byid s))
     \<and> (\<forall>p \<in> set (i_images s). digests_ok valid (i_heap s p))"

lemma image_okD:
  assumes "image_ok valid s"
  shows "distinct (i_images s)" and "\<And>p. p \<in> set (i_images s) \<Longrightarrow> p < i_next s"
    and "map_ok (\<lambda>p. {img_ID (i_heap s p)}) (set (i_images s)) (i_byid s)"
    and "map_ok (\<lambda>p. set (img_Names (i_heap s p))) (set (i_images s)) (i_byname s)"
    and "multi_ok (\<lambda>p. set (img_Digests (i_heap s p))) (set (i_images s)) (i_bydigest s)"
    and "trunc.mirrors (i_idindex s) (dom (i_byid s))"
    and "\<And>p. p \<in> set (i_images s) \<Longrightarrow> digests_ok valid (i_heap s p)"
  using assms unfolding image_ok_def by blast+

lemma digests_ok_same:
  "digests_ok valid i \<Longrightarrow> img_Digest j = img_Digest i \<Longrightarrow> img_Digests j = img_Digests i \<Longrightarrow>
     img_BigDataDigests j = img_BigDataDigests i \<Longrightarrow> digests_ok valid j"
  by (simp add: digests_ok_def manifest_digests_def)

text \<open>Fields the invariant does not mention.\<close>

lemma image_ok_io [simp]:
  "image_ok valid (s\<lparr>faults := fs\<rparr>) = image_ok valid s"
  "image_ok valid (s\<lparr>lock_disk := n\<rparr>) = image_ok valid s"
  "image_ok valid (s\<lparr>lastWrite := n\<rparr>) = image_ok valid s"
  "image_ok valid (s\<lparr>i_json := js\<rparr>) = image_ok valid s"
  "image_ok valid (s\<lparr>i_data := dat\<rparr>) = image_ok valid s"
  by (simp_all add: image_ok_def)

text \<open>Changes of records that leave their keys alone.\<close>

lemma image_ok_heap:
  assumes "image_ok valid s"
    and same: "\<And>q. q \<in> set (i_images s) \<Longrightarrow> img_ID (h q) = img_ID (i_heap s q)
      \<and> img_Names (h q) = img_Names (i_heap s q) \<and> img_Digests (h q) = img_Digests (i_heap s q) \<and> digests_ok valid (h q)"
  shows "image_ok valid (s\<lparr>i_heap := h\<rparr>)"
proof -
  have "map_ok (\<lambda>p. {img_ID (h p)}) (set (i_images s)) m = map_ok (\<lambda>p. {img_ID (i_heap s p)}) (set (i_images s)) m" for m
    by (rule map_ok_cong) (simp add: same)
  moreover have "map_ok (\<lambda>p. set (img_Names (h p))) (set (i_images s)) m
      = map_ok (\<lambda>p. set (img_Names (i_heap s p))) (set (i_images s)) m" for m
    by (rule map_ok_cong) (simp add: same)
  moreover have "multi_ok (\<lambda>p. set (img_Digests (h p))) (set (i_images s)) m
      = multi_ok (\<lambda>p. set (img_Digests (i_heap s p))) (set (i_images s)) m" for m
    by (rule multi_ok_cong) (simp add: same)
  ultimately show ?thesis using assms(1) same unfolding image_ok_def by simp
qed

lemma image_ok_upd:
  assumes "image_ok valid s" and "img_ID (f (i_heap s p)) = img_ID (i_heap s p)"
    and "img_Names (f (i_heap s p)) = img_Names (i_heap s p)"
    and "img_Digests (f (i_heap s p)) = img_Digests (i_heap s p)"
    and "p \<in> set (i_images s) \<Longrightarrow> digests_ok valid (f (i_heap s p))"
  shows "image_ok valid (upd_image p f s)"
  by (rule image_ok_heap [OF assms(1)]) (use assms image_okD(7) [OF assms(1)] in auto)

lemma image_Save_preserves:
  assumes "\<And>s fs. P s \<Longrightarrow> P (s\<lparr>faults := fs\<rparr>)" and "\<And>s n. P s \<Longrightarrow> P (s\<lparr>lock_disk := n\<rparr>)"
    and "\<And>s n. P s \<Longrightarrow> P (s\<lparr>lastWrite := n\<rparr>)" and "\<And>s js. P s \<Longrightarrow> P (s\<lparr>i_json := js\<rparr>)"
  shows "preserves P image_Save"
  unfolding image_Save_def by (intro preserves_intros preserves_update assms)

lemma image_Save_ok [preserves_intros]: "preserves (image_ok valid) image_Save"
  by (rule image_Save_preserves) simp_all

lemma io_call_image_ok [preserves_intros]: "preserves (image_ok valid) io_call"
  by (rule io_call_preserves) simp

lemma writable_preserves [preserves_intros]: "preserves P m \<Longrightarrow> preserves P (writable m)"
  unfolding writable_def by (intro preserves_intros)

text \<open>A lookup yields a record of the store.\<close>

lemma image_lookup_mem:
  assumes "image_ok valid s" and "image_lookup s k = Some p"
  shows "p \<in> set (i_images s)"
  using assms(2) map_ok_mem [OF image_okD(3) [OF assms(1)]] map_ok_mem [OF image_okD(4) [OF assms(1)]]
  by (auto simp: image_lookup_def split: option.splits sum.splits)

lemma with_image_preserves:
  assumes "\<And>p s. image_ok valid s \<Longrightarrow> p \<in> set (i_images s) \<Longrightarrow> image_ok valid (snd (f p s))"
  shows "preserves (image_ok valid) (with_image k f)"
  unfolding preserves_def
proof (intro allI impI)
  fix s
  assume ok: "image_ok valid s"
  show "image_ok valid (snd (with_image k f s))"
    using ok assms [OF ok] image_lookup_mem [OF ok]
    by (cases "image_lookup s k") (auto simp: with_image_def op_read_def op_fail_def)
qed

text \<open>A record is updated, its keys unchanged, and the store saved.\<close>

lemma image_update_ok:
  assumes "\<And>i. img_ID (f i) = img_ID i \<and> img_Names (f i) = img_Names i \<and> img_Digests (f i) = img_Digests i
    \<and> img_Digest (f i) = img_Digest i \<and> img_BigDataDigests (f i) = img_BigDataDigests i"
  shows "preserves (image_ok valid) (with_image k (\<lambda>p. op_seq (op_update (upd_image p f)) image_Save))"
proof (rule with_image_preserves)
  fix p s
  assume ok: "image_ok valid s" and p: "p \<in> set (i_images s)"
  have "image_ok valid (upd_image p f s)"
    using assms by (intro image_ok_upd [OF ok] digests_ok_same [OF image_okD(7) [OF ok p]]) simp_all
  then show "image_ok valid (snd (op_seq (op_update (upd_image p f)) image_Save s))"
    using image_Save_ok unfolding preserves_def by (simp add: op_seq_def op_then_def op_update_def)
qed

section \<open>Adding and removing records\<close>

lemma image_link_ok:
  assumes ok: "image_ok valid s" and "i_byid s (img_ID i) = None" and "\<forall>n \<in> set (img_Names i). i_byname s n = None"
    and "digests_ok valid i"
  shows "image_ok valid (image_link (i_next s) i s)"
proof -
  let ?p = "i_next s" and ?R = "set (i_images s)"
  let ?h = "(i_heap s)(?p := i)"
  note d = image_okD [OF ok]
  have new: "?p \<notin> ?R" using d(2) by blast
  have same: "q \<in> ?R \<Longrightarrow> ?h q = i_heap s q" for q using new by auto
  have "map_ok (\<lambda>q. {img_ID (?h q)}) ?R (i_byid s)" using d(3) same by (subst map_ok_cong) auto
  from map_ok_insert [OF this new, of "[img_ID i]"] assms(2)
  have ids: "map_ok (\<lambda>q. {img_ID (?h q)}) (insert ?p ?R) ((i_byid s)(img_ID i \<mapsto> ?p))" by (simp add: put_all_def)
  have "map_ok (\<lambda>q. set (img_Names (?h q))) ?R (i_byname s)" using d(4) same by (subst map_ok_cong) auto
  from map_ok_insert [OF this new, of "img_Names i"] assms(3)
  have names: "map_ok (\<lambda>q. set (img_Names (?h q))) (insert ?p ?R) (put_all (img_Names i) ?p (i_byname s))" by simp
  have "multi_ok (\<lambda>q. set (img_Digests (?h q))) ?R (i_bydigest s)" using d(5) same by (subst multi_ok_cong) auto
  from multi_ok_insert [OF this new, of "img_Digests i"] assms(4)
  have digests: "multi_ok (\<lambda>q. set (img_Digests (?h q))) (insert ?p ?R) (foldl (append_key ?p) (i_bydigest s) (img_Digests i))"
    by (simp add: digests_ok_def)
  have "trunc.mirrors (fst (index_Add (i_idindex s) (img_ID i))) (dom ((i_byid s)(img_ID i \<mapsto> ?p)))"
    using trunc.mirrors_add [OF d(6)] by simp
  moreover have "\<forall>q \<in> insert ?p ?R. q < Suc ?p" using d(2) less_SucI by blast
  moreover have "\<forall>q \<in> insert ?p ?R. digests_ok valid (?h q)" using d(7) assms(4) same by auto
  ultimately show ?thesis
    using d(1) new ids names digests unfolding image_ok_def image_link_def by simp
qed

lemma image_unlink_images:
  assumes ok: "image_ok valid s" and p: "p \<in> set (i_images s)"
  shows "i_images (image_unlink p s) = filter (\<lambda>q. q \<noteq> p) (i_images s)"
proof -
  have "img_ID (i_heap s q) \<noteq> img_ID (i_heap s p) \<longleftrightarrow> q \<noteq> p" if "q \<in> set (i_images s)" for q
    using map_ok_unique [OF image_okD(3) [OF ok] that p] by auto
  then show ?thesis by (simp add: image_unlink_def Let_def cong: filter_cong)
qed

lemma image_unlink_ok:
  assumes ok: "image_ok valid s" and p: "p \<in> set (i_images s)"
  shows "image_ok valid (image_unlink p s)"
proof -
  let ?R = "set (i_images s)" and ?i = "i_heap s p"
  note d = image_okD [OF ok]
  have R: "set (i_images (image_unlink p s)) = ?R - {p}"
    unfolding image_unlink_images [OF assms] by auto
  have ids: "map_ok (\<lambda>q. {img_ID (i_heap s q)}) (?R - {p}) ((i_byid s)(img_ID ?i := None))"
    using map_ok_remove [OF d(3) p, of "[img_ID ?i]"] by (simp add: del_all_def)
  have names: "map_ok (\<lambda>q. set (img_Names (i_heap s q))) (?R - {p}) (del_all (img_Names ?i) (i_byname s))"
    using map_ok_remove [OF d(4) p] by simp
  have digests: "multi_ok (\<lambda>q. set (img_Digests (i_heap s q))) (?R - {p}) (foldl (prune_key p) (i_bydigest s) (img_Digests ?i))"
    using multi_ok_remove [OF d(5)] by simp
  have "trunc.mirrors (fst (index_Delete (i_idindex s) (img_ID ?i))) (dom (i_byid s) - {img_ID ?i})"
    using trunc.mirrors_del [OF d(6)] .
  then show ?thesis
    unfolding image_ok_def R
    using image_unlink_images [OF assms] d ids names digests by (simp add: image_unlink_def Let_def)
qed

lemma image_Delete_ok [preserves_intros]: "preserves (image_ok valid) (image_Delete k)"
proof -
  have tail: "preserves (image_ok valid) (op_seq image_Save (op_seq io_call
      (op_update (\<lambda>s. s\<lparr>i_data := (\<lambda>(j, key). if j = ident then None else i_data s (j, key))\<rparr>))))" for ident
    by (intro preserves_intros preserves_update) simp
  show ?thesis
    unfolding image_Delete_def
  proof (intro writable_preserves with_image_preserves)
    fix p s
    assume "image_ok valid s" "p \<in> set (i_images s)"
    then have "image_ok valid (image_unlink p s)" by (rule image_unlink_ok)
    with tail show "image_ok valid (snd (op_read (\<lambda>s. img_ID (i_heap s p)) (\<lambda>ident.
        op_seq (op_update (image_unlink p)) (op_seq image_Save (op_seq io_call
          (op_update (\<lambda>s. s\<lparr>i_data := (\<lambda>(j, key). if j = ident then None else i_data s (j, key))\<rparr>))))) s))"
      unfolding preserves_def by (simp add: op_read_def op_seq_def [of "op_update _"] op_then_def op_update_def)
  qed
qed

lemma image_Wipe_ok: "preserves (image_ok valid) (image_Wipe ids)"
  unfolding image_Wipe_def by (intro preserves_intros)

section \<open>Renaming\<close>

text \<open>
  What the loop of \<open>updateNames\<close> leaves behind: every name leads to \<open>p\<close>, and a record other
  than \<open>p\<close> has lost the names that led to it. Nothing else of a record changes but the history.
\<close>

definition kept_fields :: "Image \<Rightarrow> Image \<Rightarrow> bool" where
  "kept_fields i j \<longleftrightarrow> i\<lparr>img_Names := [], img_NamesHistory := []\<rparr> = j\<lparr>img_Names := [], img_NamesHistory := []\<rparr>"

lemma kept_fieldsD:
  assumes "kept_fields i j"
  shows "img_ID i = img_ID j" "img_Digests i = img_Digests j" "img_Digest i = img_Digest j"
    "img_BigDataDigests i = img_BigDataDigests j"
proof -
  have eq: "i\<lparr>img_Names := [], img_NamesHistory := []\<rparr> = j\<lparr>img_Names := [], img_NamesHistory := []\<rparr>"
    using assms by (simp add: kept_fields_def)
  show "img_ID i = img_ID j" using arg_cong [OF eq, of img_ID] by simp
  show "img_Digests i = img_Digests j" using arg_cong [OF eq, of img_Digests] by simp
  show "img_Digest i = img_Digest j" using arg_cong [OF eq, of img_Digest] by simp
  show "img_BigDataDigests i = img_BigDataDigests j" using arg_cong [OF eq, of img_BigDataDigests] by simp
qed

lemma kept_fields_simps [simp]:
  "kept_fields i i"
  "kept_fields (i\<lparr>img_Names := ns\<rparr>) j = kept_fields i j"
  "kept_fields (i\<lparr>img_NamesHistory := ns\<rparr>) j = kept_fields i j"
  "kept_fields (addNameToHistory n i) j = kept_fields i j"
  by (simp_all add: kept_fields_def addNameToHistory_def)

lemma take_name_step:
  "i_byname (image_take_name p s n) = (i_byname s)(n \<mapsto> p)"
  "i_images (image_take_name p s n) = i_images s"
  "i_byid (image_take_name p s n) = i_byid s" "i_bydigest (image_take_name p s n) = i_bydigest s"
  "i_idindex (image_take_name p s n) = i_idindex s" "i_next (image_take_name p s n) = i_next s"
  "kept_fields (i_heap (image_take_name p s n) q) (i_heap s q)"
  "q \<noteq> p \<Longrightarrow> img_Names (i_heap (image_take_name p s n) q) =
     (if i_byname s n = Some q then filter (\<lambda>x. x \<noteq> n) (img_Names (i_heap s q)) else img_Names (i_heap s q))"
  by (auto simp: image_take_name_def Let_def image_removeName_def stringSliceWithoutValue_def split: option.splits)

lemma take_names_fold:
  assumes "distinct ns"
  shows "i_byname (foldl (image_take_name p) s ns) = put_all ns p (i_byname s)
    \<and> i_images (foldl (image_take_name p) s ns) = i_images s
    \<and> i_byid (foldl (image_take_name p) s ns) = i_byid s
    \<and> i_bydigest (foldl (image_take_name p) s ns) = i_bydigest s
    \<and> i_idindex (foldl (image_take_name p) s ns) = i_idindex s
    \<and> i_next (foldl (image_take_name p) s ns) = i_next s
    \<and> (\<forall>q. kept_fields (i_heap (foldl (image_take_name p) s ns) q) (i_heap s q))
    \<and> (\<forall>q. q \<noteq> p \<longrightarrow> img_Names (i_heap (foldl (image_take_name p) s ns) q)
          = filter (\<lambda>x. \<not> (x \<in> set ns \<and> i_byname s x = Some q)) (img_Names (i_heap s q)))"
  using assms
proof (induction ns arbitrary: s)
  case (Cons n ns)
  let ?s = "image_take_name p s n"
  let ?t = "foldl (image_take_name p) ?s ns"
  have "n \<notin> set ns" "distinct ns" using Cons.prems by auto
  note IH = Cons.IH [OF \<open>distinct ns\<close>, of ?s]
  have names: "filter (\<lambda>x. \<not> (x \<in> set ns \<and> i_byname ?s x = Some q)) (img_Names (i_heap ?s q))
      = filter (\<lambda>x. \<not> (x \<in> set (n # ns) \<and> i_byname s x = Some q)) (img_Names (i_heap s q))" if "q \<noteq> p" for q
    unfolding take_name_step(1) take_name_step(8) [OF that]
    using \<open>n \<notin> set ns\<close> that by (auto intro!: filter_cong)
  have fields: "kept_fields (i_heap ?t q) (i_heap s q)" for q
    using IH take_name_step(7) [of p s n q] by (simp add: kept_fields_def)
  have lost: "img_Names (i_heap ?t q) = filter (\<lambda>x. \<not> (x \<in> set (n # ns) \<and> i_byname s x = Some q)) (img_Names (i_heap s q))"
    if "q \<noteq> p" for q
    unfolding names [OF that, symmetric] using IH that by blast
  have rest: "i_byname ?t = put_all (n # ns) p (i_byname s)" "i_images ?t = i_images s" "i_byid ?t = i_byid s"
    "i_bydigest ?t = i_bydigest s" "i_idindex ?t = i_idindex s" "i_next ?t = i_next s"
    using IH by (simp_all only: take_name_step(1-6) put_all_simps)
  show ?case unfolding foldl_Cons rest using fields lost by blast
qed simp

lemma image_rename_ok:
  assumes ok: "image_ok valid s" and p: "p \<in> set (i_images s)" and "distinct ns"
  shows "image_ok valid (upd_image p (\<lambda>i. i\<lparr>img_Names := ns\<rparr>)
    (foldl (image_take_name p) (s\<lparr>i_byname := del_all (img_Names (i_heap s p)) (i_byname s)\<rparr>) ns))"
proof -
  let ?R = "set (i_images s)" and ?old = "img_Names (i_heap s p)"
  let ?s0 = "s\<lparr>i_byname := del_all ?old (i_byname s)\<rparr>"
  let ?s1 = "foldl (image_take_name p) ?s0 ns"
  let ?h = "(i_heap ?s1)(p := (i_heap ?s1 p)\<lparr>img_Names := ns\<rparr>)"
  note d = image_okD [OF ok]
  note f = take_names_fold [OF assms(3), of p ?s0]
  have kept: "kept_fields (?h q) (i_heap s q)" for q using f by simp
  note same = kept_fieldsD [OF kept]
  have lost: "set (img_Names (?h q)) = set (img_Names (i_heap s q)) - set ns" if q: "q \<in> ?R" "q \<noteq> p" for q
  proof -
    have "i_byname ?s0 x = Some q" if "x \<in> set (img_Names (i_heap s q))" for x
    proof -
      have "i_byname s x = Some q" using d(4) that q(1) by (simp add: map_ok_def)
      moreover have "x \<notin> set ?old" using map_ok_unique [OF d(4) q(1) p] that q(2) by blast
      ultimately show ?thesis by (simp add: del_all_apply)
    qed
    moreover have "img_Names (?h q) = filter (\<lambda>x. \<not> (x \<in> set ns \<and> i_byname ?s0 x = Some q)) (img_Names (i_heap s q))"
      using f q(2) by simp
    ultimately show ?thesis by auto
  qed
  have "map_ok (\<lambda>q. set (img_Names (?h q))) ?R (put_all ns p (del_all ?old (i_byname s)))"
    by (rule map_ok_steal [OF d(4) p]) (use lost in auto)
  moreover have "map_ok (\<lambda>q. {img_ID (?h q)}) ?R (i_byid s)" using d(3) by (subst map_ok_cong) (simp_all add: same(1) del: fun_upd_apply)
  moreover have "multi_ok (\<lambda>q. set (img_Digests (?h q))) ?R (i_bydigest s)"
    using d(5) by (subst multi_ok_cong) (simp_all add: same(2) del: fun_upd_apply)
  moreover have "digests_ok valid (?h q)" if "q \<in> ?R" for q
    by (rule digests_ok_same [OF d(7) [OF that]]) (simp_all add: same del: fun_upd_apply)
  ultimately show ?thesis
    unfolding image_ok_def using d f by simp
qed

lemma image_updateNames_ok: "preserves (image_ok valid) (image_updateNames k ns op)"
  unfolding image_updateNames_def
proof (intro writable_preserves with_image_preserves)
  fix p s
  assume ok: "image_ok valid s" and p: "p \<in> set (i_images s)"
  show "image_ok valid (snd (op_read (\<lambda>s. img_Names (i_heap s p)) (\<lambda>oldNames.
      case applyNameOperation oldNames ns op of
        Inl e \<Rightarrow> op_fail e
      | Inr newNames \<Rightarrow>
          op_seq (op_update (\<lambda>s. s\<lparr>i_byname := del_all oldNames (i_byname s)\<rparr>))
         (op_seq (op_update (\<lambda>s. foldl (image_take_name p) s newNames))
         (op_seq (op_update (upd_image p (\<lambda>i. i\<lparr>img_Names := newNames\<rparr>))) image_Save))) s))"
  proof (cases "applyNameOperation (img_Names (i_heap s p)) ns op")
    case (Inl e)
    then show ?thesis using ok by (simp add: op_read_def op_fail_def)
  next
    case (Inr new)
    have "image_ok valid (upd_image p (\<lambda>i. i\<lparr>img_Names := new\<rparr>)
        (foldl (image_take_name p) (s\<lparr>i_byname := del_all (img_Names (i_heap s p)) (i_byname s)\<rparr>) new))"
      by (rule image_rename_ok [OF ok p]) (use applyNameOperation_Inr [OF Inr] in simp)
    then show ?thesis
      using image_Save_ok [of valid] Inr unfolding preserves_def
      by (simp add: op_read_def op_seq_def op_then_def op_update_def)
  qed
qed

section \<open>Big data and creation keep the invariant\<close>

lemma recompute_loop_ok:
  assumes "\<forall>(name, d) \<in> set xs. bigDataNameIsManifest name \<longrightarrow> valid d"
  shows "\<exists>ds. recompute_loop valid acc xs = Inr ds \<and> (distinct acc \<longrightarrow> distinct ds)
    \<and> set ds = set acc \<union> {d. \<exists>name. (name, d) \<in> set xs \<and> bigDataNameIsManifest name}
    \<and> (acc \<noteq> [] \<longrightarrow> hd ds = hd acc)"
  using assms
proof (induction valid acc xs rule: recompute_loop.induct)
  case (2 valid acc name d rest)
  have prem: "\<forall>(name, d) \<in> set rest. bigDataNameIsManifest name \<longrightarrow> valid d" using 2(4) by auto
  consider "\<not> bigDataNameIsManifest name" | "bigDataNameIsManifest name" "valid d" "d \<in> set acc"
    | "bigDataNameIsManifest name" "valid d" "d \<notin> set acc"
    using 2(4) by auto
  then show ?case
  proof cases
    case 1
    with 2(1) [OF 1 prem] show ?thesis by auto
  next
    case a: 2
    with 2(2) [OF _ _ a(3) prem] show ?thesis by auto
  next
    case a: 3
    with 2(3) [OF _ _ a(3) prem] obtain ds where "recompute_loop valid (acc @ [d]) rest = Inr ds"
      "distinct (acc @ [d]) \<longrightarrow> distinct ds"
      "set ds = set (acc @ [d]) \<union> {d. \<exists>name. (name, d) \<in> set rest \<and> bigDataNameIsManifest name}"
      "hd ds = hd (acc @ [d])" by auto
    with a show ?thesis by (auto simp: hd_append)
  qed
qed auto

text \<open>With valid digests the recomputation succeeds and only touches the two digest fields.\<close>

lemma recomputeDigests_run:
  assumes "env_ok env" and "img_Digest i = '''' \<or> Validate env (img_Digest i)"
    and "\<forall>d \<in> manifest_digests i. Validate env d"
  obtains ds where "recomputeDigests env i = Inr (i\<lparr>img_Digest := (if img_Digest i = '''' \<and> ds \<noteq> [] then hd ds else img_Digest i),
      img_Digests := ds\<rparr>)"
    and "distinct ds" and "set ds = ({img_Digest i} - {''''}) \<union> manifest_digests i"
proof -
  let ?acc = "if img_Digest i \<noteq> '''' then [img_Digest i] else []"
  have order: "set (map_order env xs) = set xs" for xs using assms(1) by (simp add: env_ok_def)
  then have "\<forall>(name, d) \<in> set (map_order env (img_BigDataDigests i)). bigDataNameIsManifest name \<longrightarrow> Validate env d"
    using assms(3) by (fastforce simp: manifest_digests_def)
  from recompute_loop_ok [OF this, of ?acc] obtain ds where
    ds: "recompute_loop (Validate env) ?acc (map_order env (img_BigDataDigests i)) = Inr ds"
    "distinct ?acc \<longrightarrow> distinct ds" "set ds = set ?acc \<union> manifest_digests i"
    unfolding order manifest_digests_def by blast
  have "distinct ds" "set ds = ({img_Digest i} - {''''}) \<union> manifest_digests i" using ds(2,3) by auto
  moreover have "\<not> (img_Digest i \<noteq> '''' \<and> \<not> Validate env (img_Digest i))" using assms(2) by blast
  ultimately show thesis by (intro that [of ds]) (simp_all add: recomputeDigests_def ds(1))
qed

lemma recomputeDigests_ok:
  assumes "env_ok env" and "img_Digest i = '''' \<or> Validate env (img_Digest i)"
    and "\<forall>d \<in> manifest_digests i. Validate env d"
  shows "\<exists>j. recomputeDigests env i = Inr j \<and> digests_ok (Validate env) j
    \<and> j\<lparr>img_Digest := '''', img_Digests := []\<rparr> = i\<lparr>img_Digest := '''', img_Digests := []\<rparr>
    \<and> (img_Digest i \<noteq> '''' \<or> manifest_digests i = {} \<longrightarrow> img_Digest j = img_Digest i)"
proof -
  obtain ds where ds: "recomputeDigests env i = Inr (i\<lparr>img_Digest := (if img_Digest i = '''' \<and> ds \<noteq> [] then hd ds else img_Digest i),
      img_Digests := ds\<rparr>)"
    "distinct ds" "set ds = ({img_Digest i} - {''''}) \<union> manifest_digests i"
    by (rule recomputeDigests_run [OF assms])
  have e: "\<not> Validate env ''''" using assms(1) by (simp add: env_ok_def)
  show ?thesis
  proof (cases "img_Digest i = '''' \<and> ds \<noteq> []")
    case True
    then have "hd ds \<in> manifest_digests i" using ds(3) hd_in_set [of ds] by auto
    with True assms(3) e have "Validate env (hd ds)" "hd ds \<noteq> ''''" "hd ds \<in> manifest_digests i" by auto
    with True ds assms(3) show ?thesis by (auto simp: digests_ok_def insert_absorb)
  next
    case False
    with ds assms(2,3) show ?thesis by (auto simp: digests_ok_def)
  qed
qed

lemma append_once_fold:
  assumes "distinct ks" and "\<forall>k \<in> set ks. p \<notin> set (list_of m k)"
  shows "foldl (append_key_once p) m ks = foldl (append_key p) m ks"
  using assms
proof (induction ks arbitrary: m)
  case (Cons k ks)
  then have "append_key_once p m k = append_key p m k" by (simp add: append_key_once_def)
  moreover have "\<forall>j \<in> set ks. p \<notin> set (list_of (append_key p m k) j)"
    using Cons.prems by (auto simp: append_key_def list_of_def split: if_splits)
  ultimately show ?case using Cons by simp
qed simp

lemma image_reindex_ok:
  assumes ok: "image_ok valid s" and p: "p \<in> set (i_images s)"
    and "img_ID i = img_ID (i_heap s p)" and "img_Names i = img_Names (i_heap s p)" and "digests_ok valid i"
  shows "image_ok valid (s\<lparr>i_heap := (i_heap s)(p := i),
    i_bydigest := foldl (append_key_once p) (foldl (prune_key p) (i_bydigest s) (img_Digests (i_heap s p))) (img_Digests i)\<rparr>)"
proof -
  let ?R = "set (i_images s)" and ?h = "(i_heap s)(p := i)"
  let ?m = "foldl (prune_key p) (i_bydigest s) (img_Digests (i_heap s p))"
  note d = image_okD [OF ok]
  have "multi_ok (\<lambda>q. set (img_Digests (i_heap s q))) (?R - {p}) ?m" using multi_ok_remove [OF d(5)] by simp
  then have m: "multi_ok (\<lambda>q. set (img_Digests (?h q))) (?R - {p}) ?m" by (subst multi_ok_cong) auto
  then have "p \<notin> set (list_of ?m k)" for k by (auto simp: multi_ok_iff)
  then have once: "foldl (append_key_once p) ?m (img_Digests i) = foldl (append_key p) ?m (img_Digests i)"
    using assms(5) by (intro append_once_fold) (auto simp: digests_ok_def)
  have "multi_ok (\<lambda>q. set (img_Digests (?h q))) (insert p (?R - {p})) (foldl (append_key p) ?m (img_Digests i))"
    using assms(5) by (intro multi_ok_insert [OF m]) (auto simp: digests_ok_def)
  then have "multi_ok (\<lambda>q. set (img_Digests (?h q))) ?R (foldl (append_key_once p) ?m (img_Digests i))"
    unfolding once using p by (simp add: insert_absorb)
  moreover have "map_ok (\<lambda>q. {img_ID (?h q)}) ?R (i_byid s)" using d(3) assms(3) by (subst map_ok_cong) auto
  moreover have "map_ok (\<lambda>q. set (img_Names (?h q))) ?R (i_byname s)" using d(4) assms(4) by (subst map_ok_cong) auto
  ultimately show ?thesis using d assms(5) unfolding image_ok_def by simp
qed

lemma image_record_data_run:
  assumes "recomputeDigests env (image_note_data key data newDigest (i_heap s p)) = Inr i"
  shows "image_record_data env p key data newDigest s
    = (if image_data_changed key data newDigest (i_heap s p) then image_Save else op_return ())
        (s\<lparr>i_heap := (i_heap s)(p := i),
           i_bydigest := foldl (append_key_once p)
             (foldl (prune_key p) (i_bydigest s) (img_Digests (i_heap s p))) (img_Digests i)\<rparr>)"
proof -
  have "img_Digests (image_note_data key data newDigest i) = img_Digests i" for i
    by (simp add: image_note_data_def)
  with assms show ?thesis
    by (simp add: image_record_data_def op_read_def op_seq_def op_then_def op_update_def)
qed

text \<open>A digest that is recorded for a manifest has to be valid.\<close>

abbreviation data_digest_ok :: "digest_env \<Rightarrow> string \<Rightarrow> string \<Rightarrow> bool" where
  "data_digest_ok env key d \<equiv> bigDataNameIsManifest key \<longrightarrow> Validate env d"

lemma update_mem: "x \<in> set (AList.update k v xs) \<Longrightarrow> x = (k, v) \<or> x \<in> set xs"
  by (induction xs) (auto split: if_splits)

lemma note_data_recompute:
  assumes "env_ok env" and "digests_ok (Validate env) i" and "data_digest_ok env key d"
  shows "\<exists>j. recomputeDigests env (image_note_data key data d i) = Inr j \<and> digests_ok (Validate env) j
    \<and> img_ID j = img_ID i \<and> img_Names j = img_Names i"
proof -
  let ?i = "image_note_data key data d i"
  have "img_Digest ?i = '''' \<or> Validate env (img_Digest ?i)" "\<forall>d \<in> manifest_digests ?i. Validate env d"
    using assms(2,3) by (auto simp: image_note_data_def digests_ok_def manifest_digests_def dest!: update_mem)
  from recomputeDigests_ok [OF assms(1) this] obtain j where j: "recomputeDigests env ?i = Inr j"
    "digests_ok (Validate env) j"
    "j\<lparr>img_Digest := '''', img_Digests := []\<rparr> = ?i\<lparr>img_Digest := '''', img_Digests := []\<rparr>" by blast
  moreover have "img_ID j = img_ID i" "img_Names j = img_Names i"
    using arg_cong [OF j(3), of img_ID] arg_cong [OF j(3), of img_Names] by (simp_all add: image_note_data_def)
  ultimately show ?thesis by blast
qed

text \<open>The invariant together with the list of records, for steps that keep both.\<close>

definition image_ok_at :: "(string \<Rightarrow> bool) \<Rightarrow> nat list \<Rightarrow> imageStore \<Rightarrow> bool" where
  "image_ok_at valid R s \<longleftrightarrow> image_ok valid s \<and> i_images s = R"

lemma image_ok_at_simps [simp]:
  "image_ok_at valid R (s\<lparr>faults := fs\<rparr>) = image_ok_at valid R s"
  "image_ok_at valid R (s\<lparr>lock_disk := n\<rparr>) = image_ok_at valid R s"
  "image_ok_at valid R (s\<lparr>lastWrite := n\<rparr>) = image_ok_at valid R s"
  "image_ok_at valid R (s\<lparr>i_json := js\<rparr>) = image_ok_at valid R s"
  "image_ok_at valid R (s\<lparr>i_data := dat\<rparr>) = image_ok_at valid R s"
  by (simp_all add: image_ok_at_def)

lemma image_Save_ok_at: "preserves (image_ok_at valid R) image_Save"
  by (rule image_Save_preserves) simp_all

lemma image_record_data_ok:
  assumes "env_ok env" and "p \<in> set R" and "data_digest_ok env key d"
  shows "preserves (image_ok_at (Validate env) R) (image_record_data env p key data d)"
  unfolding preserves_def
proof (intro allI impI)
  fix s
  assume s: "image_ok_at (Validate env) R s"
  then have ok: "image_ok (Validate env) s" and p: "p \<in> set (i_images s)" using assms(2) by (auto simp: image_ok_at_def)
  from note_data_recompute [OF assms(1) image_okD(7) [OF ok p] assms(3)] obtain i where
    i: "recomputeDigests env (image_note_data key data d (i_heap s p)) = Inr i" "digests_ok (Validate env) i"
    "img_ID i = img_ID (i_heap s p)" "img_Names i = img_Names (i_heap s p)" by blast
  from image_reindex_ok [OF ok p i(3,4,2)] s
  have "image_ok_at (Validate env) R (s\<lparr>i_heap := (i_heap s)(p := i), i_bydigest := foldl (append_key_once p)
      (foldl (prune_key p) (i_bydigest s) (img_Digests (i_heap s p))) (img_Digests i)\<rparr>)"
    by (simp add: image_ok_at_def)
  then show "image_ok_at (Validate env) R (snd (image_record_data env p key data d s))"
    unfolding image_record_data_run [OF i(1)]
    using image_Save_ok_at [of "Validate env" R] by (simp add: preserves_def op_return_def)
qed

lemma image_setBigData_ok:
  assumes "env_ok env" and "p \<in> set R" and "data_digest_ok env key d"
  shows "preserves (image_ok_at (Validate env) R) (image_setBigData env p key data d)"
  unfolding image_setBigData_def
  by (intro preserves_intros preserves_update image_record_data_ok assms) (simp_all)

lemma ok_at_preserves:
  assumes "\<And>p s. image_ok valid s \<Longrightarrow> p \<in> set (i_images s) \<Longrightarrow> preserves (image_ok_at valid (i_images s)) (f p)"
  shows "preserves (image_ok valid) (with_image k f)"
proof (rule with_image_preserves)
  fix p s
  assume s: "image_ok valid s" "p \<in> set (i_images s)"
  then show "image_ok valid (snd (f p s))"
    using assms [OF s] by (auto simp: preserves_def image_ok_at_def)
qed

text \<open>The digests a callback of \<open>SetBigData\<close> returns for a manifest are valid.\<close>

abbreviation callback_ok :: "digest_env \<Rightarrow> (string \<Rightarrow> string res) option \<Rightarrow> bool" where
  "callback_ok env f \<equiv> \<forall>g data d. f = Some g \<and> g data = Inr d \<longrightarrow> Validate env d"

lemma image_SetBigData_ok:
  assumes "env_ok env" and "callback_ok env f"
  shows "preserves (image_ok (Validate env)) (image_SetBigData env k key data f)"
  unfolding image_SetBigData_def
proof (intro writable_preserves ok_at_preserves)
  fix p s
  assume "p \<in> set (i_images s)"
  then show "preserves (image_ok_at (Validate env) (i_images s))
      (if bigDataNameIsManifest key
       then (case f of
               None \<Rightarrow> op_fail ErrDigestUnknown
             | Some g \<Rightarrow> (case g data of
                              Inl e \<Rightarrow> op_fail e
                            | Inr d \<Rightarrow> image_setBigData env p key data d))
       else image_setBigData env p key data (FromBytes env data))"
    using assms by (auto split: option.splits sum.splits intro!: preserves_fail image_setBigData_ok)
qed

lemma cleanup_preserves:
  assumes "preserves Q m" and "\<And>s. Q s \<Longrightarrow> P s" and "preserves P n" and "Q s"
  shows "P (snd (op_cleanup m n s))"
proof -
  obtain r s' where m: "m s = (r, s')" by fastforce
  then have "Q s'" using assms(1,4) by (metis preserves_def snd_conv)
  then show ?thesis using m assms(2,3) by (cases r) (auto simp: op_cleanup_def preserves_def)
qed

text \<open>The recomputation for a record without big data.\<close>

lemma recompute_new:
  assumes "env_ok env" and "recomputeDigests env (new_image now ident names layer options) = Inr i"
  shows "digests_ok (Validate env) i" and "img_ID i = ident" and "img_Names i = names"
    and "img_TopLayer i = layer" and "img_BigDataDigests i = []"
proof -
  have "map_order env [] = []" using assms(1) by (metis env_ok_def set_empty empty_set)
  then have "img_ID i = ident \<and> img_Names i = names \<and> img_TopLayer i = layer \<and> img_BigDataDigests i = []
      \<and> digests_ok (Validate env) i"
    using assms(2) by (auto simp: recomputeDigests_def new_image_def digests_ok_def manifest_digests_def split: if_splits)
  then show "digests_ok (Validate env) i" "img_ID i = ident" "img_Names i = names" "img_TopLayer i = layer"
    "img_BigDataDigests i = []" by blast+
qed

abbreviation big_data_ok :: "digest_env \<Rightarrow> (string \<times> string \<times> string) list \<Rightarrow> bool" where
  "big_data_ok env items \<equiv> \<forall>(key, data, d) \<in> set items. d = '''' \<or> data_digest_ok env key d"

lemma image_finish_ok:
  assumes "env_ok env" and "p \<in> set R" and "big_data_ok env items"
  shows "preserves (image_ok_at (Validate env) R) (image_finish env p items)"
proof -
  have "preserves (image_ok_at (Validate env) R)
      (case x of (key, data, d) \<Rightarrow> image_setBigData env p key data (if d = '''' then FromBytes env data else d))"
    if "x \<in> set items" for x
    using that assms by (cases x) (auto intro!: image_setBigData_ok simp: env_ok_def)
  then show ?thesis
    unfolding image_finish_def by (intro preserves_intros image_Save_ok_at)
qed

text \<open>The cases of \<open>create\<close> on a writable store.\<close>

lemma image_create_cases:
  assumes "IsReadWrite s"
  shows "image_create env now draws k names layer options s =
    (case (if k = '''' then fresh_id (\<lambda>j. i_byid s j \<noteq> None) draws else Some k) of
       None \<Rightarrow> (Inl (Panic ''random source''), s)
     | Some ident \<Rightarrow>
         if i_byid s ident \<noteq> None then (Inl ErrDuplicateID, s)
         else if \<exists>n \<in> set names. i_byname s n \<noteq> None then (Inl ErrDuplicateName, s)
         else case recomputeDigests env (new_image now ident (dedupeStrings names) layer options) of
                Inl e \<Rightarrow> (Inl e, s)
              | Inr i \<Rightarrow> op_cleanup (image_finish env (i_next s) (opt_BigData options)) (image_Delete ident)
                           (image_link (i_next s) i s))"
  using assms
  by (simp add: image_create_def writable_def op_read_def op_fail_def op_seq_def [of "op_update _"] op_then_def [of "op_update _"]
      op_update_def split: option.splits sum.splits)

lemma image_create_ok:
  assumes "env_ok env" and "big_data_ok env (opt_BigData options)"
  shows "preserves (image_ok (Validate env)) (image_create env now draws k names layer options)"
  unfolding preserves_def
proof (intro allI impI)
  fix s
  assume ok: "image_ok (Validate env) s"
  show "image_ok (Validate env) (snd (image_create env now draws k names layer options s))"
  proof (cases "IsReadWrite s")
    case False
    then show ?thesis using ok by (simp add: image_create_def writable_def op_read_def op_fail_def)
  next
    case True
    have linked: "image_ok (Validate env) (snd (op_cleanup (image_finish env (i_next s) (opt_BigData options)) (image_Delete ident)
        (image_link (i_next s) i s)))"
      if "i_byid s ident = None" "\<not> (\<exists>n \<in> set names. i_byname s n \<noteq> None)"
        "recomputeDigests env (new_image now ident (dedupeStrings names) layer options) = Inr i" for ident i
    proof (rule cleanup_preserves [OF image_finish_ok [OF assms(1) _ assms(2)] _ image_Delete_ok])
      note new = recompute_new [OF assms(1) that(3)]
      have "image_ok (Validate env) (image_link (i_next s) i s)"
        using that new by (intro image_link_ok [OF ok]) auto
      then show "image_ok_at (Validate env) (i_images s @ [i_next s]) (image_link (i_next s) i s)"
        by (simp add: image_ok_at_def image_link_def)
    qed (auto simp: image_ok_at_def)
    show ?thesis
      unfolding image_create_cases [OF True] using ok linked by (auto split: option.splits sum.splits)
  qed
qed

section \<open>Every operation keeps the invariant\<close>

text \<open>
  The operations that change a store, as a step relation: each step is one call, with
  whatever arguments and I/O errors, on the state it finds; the flag tells whether the call
  succeeded. The last rule lets the outside world decide about future I/O errors.
\<close>

inductive image_step :: "digest_env \<Rightarrow> imageStore \<Rightarrow> bool \<Rightarrow> imageStore \<Rightarrow> bool" for env where
  step_create: "big_data_ok env (opt_BigData options) \<Longrightarrow>
    image_create env now draws k names layer options s = (r, s') \<Longrightarrow> image_step env s (succeeded r) s'"
| step_updateNames: "image_updateNames k names op s = (r, s') \<Longrightarrow> image_step env s (succeeded r) s'"
| step_Delete: "image_Delete k s = (r, s') \<Longrightarrow> image_step env s (succeeded r) s'"
| step_Wipe: "image_Wipe ids s = (r, s') \<Longrightarrow> image_step env s (succeeded r) s'"
| step_SetBigData: "callback_ok env f \<Longrightarrow>
    image_SetBigData env k key data f s = (r, s') \<Longrightarrow> image_step env s (succeeded r) s'"
| step_SetMetadata: "image_SetMetadata k m s = (r, s') \<Longrightarrow> image_step env s (succeeded r) s'"
| step_SetFlag: "image_SetFlag k flag v s = (r, s') \<Longrightarrow> image_step env s (succeeded r) s'"
| step_ClearFlag: "image_ClearFlag k flag s = (r, s') \<Longrightarrow> image_step env s (succeeded r) s'"
| step_addMapped: "image_addMappedTopLayer k layer s = (r, s') \<Longrightarrow> image_step env s (succeeded r) s'"
| step_removeMapped: "image_removeMappedTopLayer k layer s = (r, s') \<Longrightarrow> image_step env s (succeeded r) s'"
| step_faults: "image_step env s True (s\<lparr>faults := fs\<rparr>)"

text \<open>States reached from a given one by a sequence of calls.\<close>

inductive image_reach :: "digest_env \<Rightarrow> imageStore \<Rightarrow> imageStore \<Rightarrow> bool" for env s where
  reach_refl: "image_reach env s s"
| reach_step: "image_reach env s t \<Longrightarrow> image_step env t b u \<Longrightarrow> image_reach env s u"

lemma image_SetMetadata_ok: "preserves (image_ok valid) (image_SetMetadata k m)"
  unfolding image_SetMetadata_def by (intro writable_preserves image_update_ok) simp

lemma image_SetFlag_ok: "preserves (image_ok valid) (image_SetFlag k flag v)"
  unfolding image_SetFlag_def by (intro writable_preserves image_update_ok) simp

lemma image_ClearFlag_ok: "preserves (image_ok valid) (image_ClearFlag k flag)"
  unfolding image_ClearFlag_def by (intro writable_preserves image_update_ok) simp

lemma image_addMapped_ok: "preserves (image_ok valid) (image_addMappedTopLayer k layer)"
  unfolding image_addMappedTopLayer_def by (intro image_update_ok) simp

lemma image_removeMapped_ok: "preserves (image_ok valid) (image_removeMappedTopLayer k layer)"
  unfolding image_removeMappedTopLayer_def
proof (rule with_image_preserves)
  fix p s
  assume ok: "image_ok valid s" and p: "p \<in> set (i_images s)"
  let ?before = "img_MappedTopLayers (i_heap s p)"
  have "image_ok valid (upd_image p (\<lambda>i. i\<lparr>img_MappedTopLayers := RemoveFromSlice ?before layer\<rparr>) s)"
    using image_okD(7) [OF ok p] by (intro image_ok_upd [OF ok]) (simp_all add: digests_ok_def)
  then show "image_ok valid (snd (op_read (\<lambda>s. img_MappedTopLayers (i_heap s p)) (\<lambda>before.
      op_seq (op_update (upd_image p (\<lambda>i. i\<lparr>img_MappedTopLayers := RemoveFromSlice before layer\<rparr>)))
        (if length (RemoveFromSlice before layer) = length before then op_return () else image_Save)) s))"
    using image_Save_ok [of valid] unfolding preserves_def
    by (simp add: op_read_def op_seq_def op_then_def op_update_def op_return_def)
qed

lemma image_step_ok:
  "image_step env s b s' \<Longrightarrow> env_ok env \<Longrightarrow> image_ok (Validate env) s \<Longrightarrow> image_ok (Validate env) s'"
proof (induction rule: image_step.induct)
  case step_create
  then show ?case using preservesD [OF image_create_ok] by blast
next
  case step_updateNames
  then show ?case using preservesD [OF image_updateNames_ok] by blast
next
  case step_Delete
  then show ?case using preservesD [OF image_Delete_ok] by blast
next
  case step_Wipe
  then show ?case using preservesD [OF image_Wipe_ok] by blast
next
  case step_SetBigData
  then show ?case using preservesD [OF image_SetBigData_ok] by blast
next
  case step_SetMetadata
  then show ?case using preservesD [OF image_SetMetadata_ok] by blast
next
  case step_SetFlag
  then show ?case using preservesD [OF image_SetFlag_ok] by blast
next
  case step_ClearFlag
  then show ?case using preservesD [OF image_ClearFlag_ok] by blast
next
  case step_addMapped
  then show ?case using preservesD [OF image_addMapped_ok] by blast
next
  case step_removeMapped
  then show ?case using preservesD [OF image_removeMapped_ok] by blast
qed simp

text \<open>An empty store, as \<open>newImageStore\<close> builds it on an empty directory.\<close>

definition no_options :: ImageOptions where
  "no_options = \<lparr>opt_Digest = '''', opt_Digests = [], opt_Metadata = '''', opt_CreationDate = 0,
     opt_NamesHistory = [], opt_Flags = Map.empty, opt_BigData = []\<rparr>"

definition empty_images :: imageStore where
  "empty_images = \<lparr>faults = [], IsReadWrite = True, lock_disk = 0, lastWrite = 0,
     i_heap = (\<lambda>_. new_image 0 '''' [] '''' no_options),
     i_next = 0, i_images = [], i_idindex = NewTruncIndex [], i_byid = Map.empty, i_byname = Map.empty,
     i_bydigest = Map.empty, i_json = [], i_data = Map.empty\<rparr>"

lemma empty_images_ok: "image_ok valid empty_images"
  using trunc.mirrors_new [of "[]"] by (simp add: image_ok_def empty_images_def)

lemma image_reach_ok:
  assumes "env_ok env" and "image_ok (Validate env) s" and "image_reach env s t"
  shows "image_ok (Validate env) t"
  using assms(3,2) by (induction rule: image_reach.induct) (auto intro: image_step_ok [OF _ assms(1)])


text \<open>A concrete instance of the arguments, for the examples.\<close>

definition sample_env :: digest_env where
  "sample_env = \<lparr>Validate = (\<lambda>d. d \<noteq> ''''), FromBytes = (\<lambda>b. ''sha256:'' @ b), map_order = (\<lambda>xs. xs)\<rparr>"

lemma sample_env_ok [simp]: "env_ok sample_env"
  by (simp add: env_ok_def sample_env_def)

definition sample_images :: imageStore where
  "sample_images = snd (image_create sample_env 1 [] ''a1'' [''busybox''] ''l1'' no_options empty_images)"

lemma sample_images_reach: "image_reach sample_env empty_images sample_images"
proof -
  have "image_step sample_env empty_images
      (succeeded (fst (image_create sample_env 1 [] ''a1'' [''busybox''] ''l1'' no_options empty_images))) sample_images"
    by (rule step_create) (auto simp: no_options_def sample_images_def)
  then show ?thesis using reach_refl reach_step by blast
qed

lemmas image_run_simps = image_create_cases image_link_def op_cleanup_def image_finish_def image_Save_def
  RecordWrite_def op_read_def op_seq_def op_then_def op_update_def op_return_def op_fail_def
  recomputeDigests_def new_image_def no_options_def empty_images_def sample_env_def


end
