(* ===== verification/Image_Disk.thy ===== *)
theory Image_Disk
  imports Image_Store
begin

text \<open>
  What the image store finds and what it has on disk: the store as an instance of the interface of
  record stores, and the agreement of \<open>images.json\<close> with the memory after every successful call.
\<close>

section \<open>Lookups\<close>

interpretation images: record_store "image_ok valid" i_images "\<lambda>s p. img_ID (i_heap s p)" "\<lambda>s p. img_Names (i_heap s p)"
  i_byid i_byname "\<lambda>_. Map.empty" i_idindex image_lookup
  by unfold_locales (simp_all add: image_okD image_lookup_def split: option.split)

section \<open>What is on disk\<close>

text \<open>The file has the records in memory, and the mark in the lock file says so.\<close>

definition image_saved :: "imageStore \<Rightarrow> bool" where
  "image_saved s \<longleftrightarrow> i_json s = map (json_image \<circ> i_heap s) (i_images s) \<and> lastWrite s = lock_disk s"

lemma image_Save_saved: "establishes P image_Save image_saved"
  unfolding establishes_def
proof (intro allI impI, elim conjE)
  fix s r s'
  assume "image_Save s = (r, s')" and "succeeded r"
  then show "image_saved s'"
    by (auto simp: image_Save_def RecordWrite_def op_defs io_call_def image_saved_def
        split: if_splits list.splits option.splits)
qed

lemma writable_establishes: "establishes P m Q \<Longrightarrow> establishes P (writable m) Q"
  unfolding writable_def by (intro establishes_read establishes_if establishes_fail)

lemma with_image_establishes:
  assumes "\<And>s. P s \<Longrightarrow> image_ok valid s"
    and "\<And>p. establishes (\<lambda>s. P s \<and> p \<in> set (i_images s)) (f p) Q"
  shows "establishes P (with_image k f) Q"
proof (rule establishes_any)
  fix s
  assume s: "P s"
  show "establishes (\<lambda>t. t = s) (with_image k f) Q"
  proof (cases "image_lookup s k")
    case None
    then show ?thesis by (auto simp: establishes_def with_image_def op_read_def op_fail_def)
  next
    case (Some p)
    then have "p \<in> set (i_images s)" using image_lookup_mem assms(1) [OF s] by blast
    with s Some assms(2) [of p] show ?thesis by (auto simp: establishes_def with_image_def op_read_def)
  qed
qed

lemma image_update_saved:
  "establishes (image_ok valid) (with_image k (\<lambda>p. op_seq (op_update (g p)) image_Save)) image_saved"
  by (rule with_image_establishes)
    (auto intro!: establishes_seq [where R = "\<lambda>_. True"] establishes_update image_Save_saved)

lemma image_updateNames_saved: "establishes P (image_updateNames k ns op) image_saved"
proof -
  have "establishes (\<lambda>_. True) (case applyNameOperation old ns op of
      Inl e \<Rightarrow> op_fail e
    | Inr newNames \<Rightarrow> op_seq (op_update (g newNames)) (op_seq (op_update (h newNames))
        (op_seq (op_update (u newNames)) image_Save))) image_saved" for old g h u
    by (cases "applyNameOperation old ns op")
      (auto intro!: establishes_fail establishes_seq [where R = "\<lambda>_. True"] establishes_update image_Save_saved)
  then have "establishes (\<lambda>_. True) (image_updateNames k ns op) image_saved"
    unfolding image_updateNames_def with_image_def
    by (intro writable_establishes establishes_read) (auto split: option.split intro!: establishes_fail establishes_read)
  then show ?thesis by (rule establishes_weaken) simp
qed

lemma image_Delete_saved: "establishes P (image_Delete k) image_saved"
proof -
  have data: "image_saved (s\<lparr>i_data := d\<rparr>) = image_saved s" "image_saved (s\<lparr>faults := fs\<rparr>) = image_saved s" for s d fs
    by (simp_all add: image_saved_def)
  have "establishes (\<lambda>_. True) (op_seq (op_update g) (op_seq image_Save (op_seq io_call
      (op_update (\<lambda>s. s\<lparr>i_data := h s\<rparr>))))) image_saved" for g h
    by (intro establishes_seq [where R = "\<lambda>_. True"] establishes_seq [where R = image_saved]
        image_Save_saved establishes_update preserves_establishes io_call_preserves) (simp_all add: data)
  then have "establishes (\<lambda>_. True) (image_Delete k) image_saved"
    unfolding image_Delete_def with_image_def
    by (intro writable_establishes establishes_read) (auto split: option.split intro!: establishes_fail establishes_read)
  then show ?thesis by (rule establishes_weaken) simp
qed

lemma update_same: "map_of xs k = Some v \<Longrightarrow> AList.update k v xs = xs"
  by (induction xs) auto

lemma note_data_same:
  assumes "\<not> image_data_changed key data d i"
  shows "image_note_data key data d i = i"
proof -
  have "(img_BigDataSizes i)(key \<mapsto> int (length data)) = img_BigDataSizes i"
    using assms by (auto simp: image_data_changed_def)
  moreover have "AList.update key d (img_BigDataDigests i) = img_BigDataDigests i"
    using assms by (intro update_same) (auto simp: image_data_changed_def)
  ultimately show ?thesis using assms by (auto simp: image_note_data_def image_data_changed_def)
qed

text \<open>Writing the same data again leaves what the file has of the record alone.\<close>

lemma recompute_same:
  assumes "env_ok env" and "digests_ok (Validate env) i" and "recomputeDigests env i = Inr j"
  shows "json_image j = json_image i"
proof -
  have "img_Digest i = '''' \<or> Validate env (img_Digest i)" "\<forall>d \<in> manifest_digests i. Validate env d"
    "img_Digest i \<noteq> '''' \<or> manifest_digests i = {}"
    using assms(2) by (auto simp: digests_ok_def)
  from recomputeDigests_ok [OF assms(1) this(1,2)] this(3) assms(3)
  have j: "j\<lparr>img_Digest := '''', img_Digests := []\<rparr> = i\<lparr>img_Digest := '''', img_Digests := []\<rparr>" "img_Digest j = img_Digest i"
    by auto
  have "json_image (j\<lparr>img_Digest := '''', img_Digests := []\<rparr>\<lparr>img_Digest := img_Digest j\<rparr>)
      = json_image (i\<lparr>img_Digest := '''', img_Digests := []\<rparr>\<lparr>img_Digest := img_Digest i\<rparr>)"
    unfolding j ..
  then show ?thesis by (simp add: json_image_def)
qed

definition image_saved_at :: "(string \<Rightarrow> bool) \<Rightarrow> nat list \<Rightarrow> imageStore \<Rightarrow> bool" where
  "image_saved_at valid R s \<longleftrightarrow> image_ok_at valid R s \<and> image_saved s"

lemma image_saved_at_io [simp]:
  "image_saved_at valid R (s\<lparr>faults := fs\<rparr>) = image_saved_at valid R s"
  "image_saved_at valid R (s\<lparr>i_data := dat\<rparr>) = image_saved_at valid R s"
  by (simp_all add: image_saved_at_def image_saved_def)

lemma image_saved_heap:
  "image_saved s \<Longrightarrow> json_image i = json_image (i_heap s p) \<Longrightarrow> image_saved (s\<lparr>i_heap := (i_heap s)(p := i), i_bydigest := m\<rparr>)"
  by (auto simp: image_saved_def)

lemma image_record_data_saved:
  assumes "env_ok env" and "p \<in> set R" and "data_digest_ok env key d"
  shows "establishes (image_saved_at (Validate env) R) (image_record_data env p key data d) image_saved"
  unfolding establishes_def
proof (intro allI impI, elim conjE)
  fix s r s'
  assume s: "image_saved_at (Validate env) R s" and run: "image_record_data env p key data d s = (r, s')" "succeeded r"
  then have ok: "image_ok (Validate env) s" and p: "p \<in> set (i_images s)" and saved: "image_saved s"
    using assms(2) by (auto simp: image_ok_at_def image_saved_at_def)
  note dig = image_okD(7) [OF ok p]
  obtain i where i: "recomputeDigests env (image_note_data key data d (i_heap s p)) = Inr i"
    using note_data_recompute [OF assms(1) dig assms(3)] by blast
  show "image_saved s'"
  proof (cases "image_data_changed key data d (i_heap s p)")
    case True
    with run show ?thesis
      using image_Save_saved unfolding image_record_data_run [OF i] establishes_def by simp
  next
    case False
    then have "json_image i = json_image (i_heap s p)"
      using recompute_same [OF assms(1) dig] i note_data_same [OF False] by simp
    from image_saved_heap [OF saved this] run False show ?thesis
      unfolding image_record_data_run [OF i] by (auto simp: op_return_def)
  qed
qed

lemma image_setBigData_saved:
  assumes "env_ok env" and "p \<in> set R" and "data_digest_ok env key d"
  shows "establishes (image_saved_at (Validate env) R) (image_setBigData env p key data d) (image_saved_at (Validate env) R)"
proof -
  let ?P = "image_saved_at (Validate env) R"
  have "establishes ?P (image_record_data env p key data d) (image_ok_at (Validate env) R)"
    by (rule establishes_weaken [OF preserves_establishes [OF image_record_data_ok [OF assms]]])
      (simp add: image_saved_at_def)
  then have "establishes ?P (image_record_data env p key data d) ?P"
    using image_record_data_saved [OF assms, of data] unfolding establishes_def image_saved_at_def by blast
  then show ?thesis
    unfolding image_setBigData_def
    by (intro establishes_if establishes_fail establishes_seq [where R = ?P] establishes_update
        preserves_establishes [OF io_call_preserves]) simp_all
qed

lemma image_SetBigData_saved:
  assumes "env_ok env" and "callback_ok env f"
  shows "establishes (\<lambda>s. image_ok (Validate env) s \<and> image_saved s) (image_SetBigData env k key data f) image_saved"
  unfolding image_SetBigData_def
proof (intro writable_establishes with_image_establishes [where valid = "Validate env"])
  fix p
  let ?m = "if bigDataNameIsManifest key
      then (case f of None \<Rightarrow> op_fail ErrDigestUnknown
            | Some g \<Rightarrow> (case g data of Inl e \<Rightarrow> op_fail e | Inr d \<Rightarrow> image_setBigData env p key data d))
      else image_setBigData env p key data (FromBytes env data)"
  have set: "establishes (\<lambda>s. (image_ok (Validate env) s \<and> image_saved s) \<and> p \<in> set (i_images s))
      (image_setBigData env p key data d) image_saved" if "data_digest_ok env key d" for d
  proof (rule establishes_any)
    fix s
    assume "(image_ok (Validate env) s \<and> image_saved s) \<and> p \<in> set (i_images s)"
    then have "image_saved_at (Validate env) (i_images s) s" "p \<in> set (i_images s)"
      by (simp_all add: image_saved_at_def image_ok_at_def)
    then show "establishes (\<lambda>t. t = s) (image_setBigData env p key data d) image_saved"
      by (intro establishes_conseq [OF image_setBigData_saved [OF assms(1) _ that, of p "i_images s" data]])
        (simp_all add: image_saved_at_def)
  qed
  have "establishes Q ?m image_saved"
    if "\<And>d. data_digest_ok env key d \<Longrightarrow> establishes Q (image_setBigData env p key data d) image_saved" for Q
    using assms(2) that by (simp add: establishes_fail split: option.split sum.split)
  from this [OF set] show "establishes (\<lambda>s. (image_ok (Validate env) s \<and> image_saved s) \<and> p \<in> set (i_images s)) ?m image_saved"
    by blast
qed simp

lemma image_removeMapped_saved: "establishes image_saved (image_removeMappedTopLayer k layer) image_saved"
  unfolding establishes_def
proof (intro allI impI, elim conjE)
  fix s r s'
  assume saved: "image_saved s" and run: "image_removeMappedTopLayer k layer s = (r, s')" and r: "succeeded r"
  from run r obtain p where p: "image_lookup s k = Some p"
    by (cases "image_lookup s k") (auto simp: image_removeMappedTopLayer_def with_image_def op_read_def op_fail_def)
  let ?b = "img_MappedTopLayers (i_heap s p)"
  let ?s = "upd_image p (\<lambda>i. i\<lparr>img_MappedTopLayers := RemoveFromSlice ?b layer\<rparr>) s"
  have m: "(if length (RemoveFromSlice ?b layer) = length ?b then op_return () else image_Save) ?s = (r, s')"
    using run p by (simp add: image_removeMappedTopLayer_def with_image_def op_read_def op_seq_def op_then_def op_update_def)
  show "image_saved s'"
  proof (cases "length (RemoveFromSlice ?b layer) = length ?b")
    case True
    then have "RemoveFromSlice ?b layer = ?b"
      unfolding RemoveFromSlice_def by (metis filter_id_conv length_filter_less nat_less_le)
    then have "?s = s" by simp
    with m True saved show ?thesis by (simp add: op_return_def)
  next
    case False
    with m r show ?thesis using image_Save_saved unfolding establishes_def by simp
  qed
qed

lemma image_finish_saved:
  assumes "env_ok env" and "p \<in> set R" and "big_data_ok env items"
  shows "establishes (image_ok_at (Validate env) R) (image_finish env p items) image_saved"
proof -
  let ?P = "image_saved_at (Validate env) R"
  have item: "establishes ?P (case x of (key, data, d) \<Rightarrow>
      image_setBigData env p key data (if d = '''' then FromBytes env data else d)) ?P"
    if "x \<in> set items" for x
    using that assms by (cases x) (auto intro!: image_setBigData_saved simp: env_ok_def)
  have "establishes (image_ok_at (Validate env) R) image_Save ?P"
    using establishes_preserves [OF image_Save_ok_at image_Save_saved] by (simp add: image_saved_at_def [abs_def])
  moreover have "establishes ?P (op_read (\<lambda>s. i_heap s p) op_return) image_saved"
    by (intro establishes_read establishes_return) (simp add: image_saved_at_def)
  ultimately show ?thesis
    unfolding image_finish_def by (intro establishes_seq [where R = ?P] establishes_each item)
qed

text \<open>What a successful creation has done.\<close>

lemma image_create_success:
  assumes run: "image_create env now draws k names layer options s = (r, s')" and r: "succeeded r"
  obtains ident i where "i_byid s ident = None" and "\<forall>n \<in> set names. i_byname s n = None"
    and "recomputeDigests env (new_image now ident (dedupeStrings names) layer options) = Inr i"
    and "op_cleanup (image_finish env (i_next s) (opt_BigData options)) (image_Delete ident) (image_link (i_next s) i s) = (r, s')"
    and "k \<noteq> '''' \<Longrightarrow> ident = k" and "IsReadWrite s"
proof -
  have rw: "IsReadWrite s"
    using run r by (cases "IsReadWrite s") (auto simp: image_create_def writable_def op_read_def op_fail_def)
  let ?chosen = "if k = '''' then fresh_id (\<lambda>j. i_byid s j \<noteq> None) draws else Some k"
  note run' = run [unfolded image_create_cases [OF rw]]
  obtain ident where ident: "?chosen = Some ident" using run' r by (cases ?chosen) auto
  have free: "i_byid s ident = None" "\<forall>n \<in> set names. i_byname s n = None"
    using run' r unfolding ident by (auto split: if_splits)
  have "recomputeDigests env (new_image now ident (dedupeStrings names) layer options) \<noteq> Inl e" for e
  proof
    assume "recomputeDigests env (new_image now ident (dedupeStrings names) layer options) = Inl e"
    then have "r = Inl e" using run' free unfolding ident by simp
    with r show False by simp
  qed
  then obtain i where i: "recomputeDigests env (new_image now ident (dedupeStrings names) layer options) = Inr i"
    by (metis sum.exhaust)
  show thesis
    by (rule that [OF free i _ _ rw]) (use run' free i ident in \<open>simp_all split: if_splits\<close>)
qed

lemma image_create_saved:
  assumes "env_ok env" and "big_data_ok env (opt_BigData options)"
  shows "establishes (image_ok (Validate env)) (image_create env now draws k names layer options) image_saved"
  unfolding establishes_def
proof (intro allI impI, elim conjE)
  fix s r s'
  assume ok: "image_ok (Validate env) s" and run: "image_create env now draws k names layer options s = (r, s')" and r: "succeeded r"
  obtain ident i where i: "i_byid s ident = None" "\<forall>n \<in> set names. i_byname s n = None"
    "recomputeDigests env (new_image now ident (dedupeStrings names) layer options) = Inr i"
    "op_cleanup (image_finish env (i_next s) (opt_BigData options)) (image_Delete ident) (image_link (i_next s) i s) = (r, s')"
    by (rule image_create_success [OF run r]) blast
  note new = recompute_new [OF assms(1) i(3)]
  have "image_ok (Validate env) (image_link (i_next s) i s)"
    using i new by (intro image_link_ok [OF ok]) auto
  then have "image_ok_at (Validate env) (i_images s @ [i_next s]) (image_link (i_next s) i s)"
    by (simp add: image_ok_at_def image_link_def)
  then show "image_saved s'"
    using establishes_cleanup [OF image_finish_saved [OF assms(1) _ assms(2), of "i_next s" "i_images s @ [i_next s]"], of "image_Delete ident"]
      i(4) r unfolding establishes_def by auto
qed

lemma image_Wipe_saved: "establishes image_saved (image_Wipe ids) image_saved"
  unfolding image_Wipe_def by (intro writable_establishes establishes_each image_Delete_saved)

lemma image_step_saved:
  assumes "image_step env s b s'" and "env_ok env" and "image_ok (Validate env) s" and "image_saved s" and b
  shows "image_saved s'"
proof -
  have est: "image_saved s'" if "establishes P m image_saved" "m s = (r, s')" "P s" "succeeded r" for P m r
    using that unfolding establishes_def by blast
  have upd: "establishes (image_ok (Validate env)) (writable (with_image k (\<lambda>p. op_seq (op_update (g p)) image_Save))) image_saved" for k g
    by (intro writable_establishes image_update_saved)
  from assms(1) show ?thesis
  proof cases
    case (step_create options now draws k names layer r)
    with assms show ?thesis by (intro est [OF image_create_saved [OF assms(2)]]) auto
  next
    case (step_updateNames k names op r)
    with assms show ?thesis by (intro est [OF image_updateNames_saved [of "\<lambda>_. True"]]) auto
  next
    case (step_Delete k r)
    with assms show ?thesis by (intro est [OF image_Delete_saved [of "\<lambda>_. True"]]) auto
  next
    case (step_Wipe ids r)
    with assms show ?thesis by (intro est [OF image_Wipe_saved]) auto
  next
    case (step_SetBigData f k key data r)
    with assms show ?thesis by (intro est [OF image_SetBigData_saved [OF assms(2)]]) auto
  next
    case (step_SetMetadata k m r)
    with assms show ?thesis by (intro est [OF upd]) (auto simp: image_SetMetadata_def)
  next
    case (step_SetFlag k flag v r)
    with assms show ?thesis by (intro est [OF upd]) (auto simp: image_SetFlag_def)
  next
    case (step_ClearFlag k flag r)
    with assms show ?thesis by (intro est [OF upd]) (auto simp: image_ClearFlag_def)
  next
    case (step_addMapped k layer r)
    with assms show ?thesis by (intro est [OF image_update_saved]) (auto simp: image_addMappedTopLayer_def)
  next
    case (step_removeMapped k layer r)
    with assms show ?thesis by (intro est [OF image_removeMapped_saved]) auto
  next
    case (step_faults fs)
    with assms show ?thesis by (simp add: image_saved_def)
  qed
qed

text \<open>
  C15: a call that reports success leaves nothing that is only in memory. If \<open>images.json\<close> had all
  the records of a consistent store and the store's last-write mark was that of the lock
  file, then after any successful call the file again has exactly the records in memory, field
  by field apart from those that are not serialised, and the mark is the current one.
\<close>

theorem image_store_durable:
  assumes "env_ok env" and "image_ok (Validate env) s" and "image_saved s" and "image_step env s True s'"
  shows "image_saved s'"
  using image_step_saved [OF assms(4,1,2,3)] by simp

theorem image_store_durable_witness:
  "image_saved sample_images \<and> length (i_json sample_images) = 1 \<and> lock_disk sample_images = 1"
proof -
  let ?run = "image_create sample_env 1 [] ''a1'' [''busybox''] ''l1'' no_options empty_images"
  have run: "succeeded (fst ?run)" by (simp add: image_run_simps)
  have "image_step sample_env empty_images (succeeded (fst ?run)) sample_images"
    by (rule step_create) (auto simp: no_options_def sample_images_def)
  then have step: "image_step sample_env empty_images True sample_images" unfolding eqTrueI [OF run] .
  have "image_saved empty_images" by (simp add: image_saved_def empty_images_def)
  then have "image_saved sample_images"
    by (rule image_store_durable [OF sample_env_ok empty_images_ok _ step])
  moreover have "length (i_json sample_images) = 1" "lock_disk sample_images = 1"
    by (simp_all add: sample_images_def image_run_simps)
  ultimately show ?thesis by blast
qed

text \<open>
  C16: what a lookup finds. In a store reached from a consistent one, an image is found by its
  ID, by each of its names unless the name is the ID of an image, and by a prefix of its ID
  that is no name and no prefix of another ID; and whatever is found is an image of the store
  whose ID or one of whose names is the key, or whose ID starts with it.
\<close>

theorem image_lookup_exact:
  assumes "env_ok env" and "image_ok (Validate env) s0" and "image_reach env s0 s"
  shows "(\<forall>p \<in> set (i_images s). image_lookup s (img_ID (i_heap s p)) = Some p)
    \<and> (\<forall>p \<in> set (i_images s). \<forall>k \<in> set (img_Names (i_heap s p)).
         (\<forall>q \<in> set (i_images s). img_ID (i_heap s q) \<noteq> k) \<longrightarrow> image_lookup s k = Some p)
    \<and> (\<forall>p \<in> set (i_images s). \<forall>k. k \<noteq> '''' \<and> prefix k (img_ID (i_heap s p)) \<and> legal_id (img_ID (i_heap s p))
         \<and> (\<forall>q \<in> set (i_images s). k \<notin> set (img_Names (i_heap s q)))
         \<and> (\<forall>q \<in> set (i_images s). prefix k (img_ID (i_heap s q)) \<longrightarrow> q = p) \<longrightarrow> image_lookup s k = Some p)
    \<and> (\<forall>k p. image_lookup s k = Some p \<longrightarrow> p \<in> set (i_images s)
         \<and> (img_ID (i_heap s p) = k \<or> k \<in> set (img_Names (i_heap s p)) \<or> prefix k (img_ID (i_heap s p))))"
proof -
  have ok: "image_ok (Validate env) s"
    by (rule image_reach_ok [OF assms(1-3)])
  show ?thesis
  proof (intro conjI ballI allI impI)
    show "image_lookup s (img_ID (i_heap s p)) = Some p" if "p \<in> set (i_images s)" for p
      using images.find_ident [OF ok that] .
    show "image_lookup s k = Some p" if "p \<in> set (i_images s)" "k \<in> set (img_Names (i_heap s p))"
      "\<forall>q \<in> set (i_images s). img_ID (i_heap s q) \<noteq> k" for p k
      using images.find_name [OF ok that] .
    show "image_lookup s k = Some p" if "p \<in> set (i_images s)"
      "k \<noteq> '''' \<and> prefix k (img_ID (i_heap s p)) \<and> legal_id (img_ID (i_heap s p))
         \<and> (\<forall>q \<in> set (i_images s). k \<notin> set (img_Names (i_heap s q)))
         \<and> (\<forall>q \<in> set (i_images s). prefix k (img_ID (i_heap s q)) \<longrightarrow> q = p)" for p k
      using that(2) by (elim conjE) (rule images.find_prefix [OF ok that(1)], assumption+, simp, assumption)
    show "p \<in> set (i_images s)" "img_ID (i_heap s p) = k \<or> k \<in> set (img_Names (i_heap s p)) \<or> prefix k (img_ID (i_heap s p))"
      if "image_lookup s k = Some p" for k p
      using images.find_mem [OF ok that] by simp_all
  qed
qed

theorem image_lookup_exact_witness:
  "image_lookup sample_images ''a1'' = Some 0 \<and> image_lookup sample_images ''busybox'' = Some 0
     \<and> image_lookup sample_images ''a'' = Some 0"
proof -
  note t = image_lookup_exact [OF sample_env_ok empty_images_ok sample_images_reach]
  have s: "i_images sample_images = [0]" "img_ID (i_heap sample_images 0) = ''a1''"
    "img_Names (i_heap sample_images 0) = [''busybox'']"
    by (simp_all add: sample_images_def image_run_simps)
  have "0 \<in> set (i_images sample_images)" by (simp add: s)
  from bspec [OF conjunct1 [OF t] this] have "image_lookup sample_images ''a1'' = Some 0" by (simp add: s)
  moreover have "image_lookup sample_images ''busybox'' = Some 0"
    using conjunct1 [OF conjunct2 [OF t]] by (simp add: s)
  moreover have "image_lookup sample_images ''a'' = Some 0"
    using spec [OF bspec [OF conjunct1 [OF conjunct2 [OF conjunct2 [OF t]]] \<open>0 \<in> _\<close>], of "''a''"]
    by (simp add: s legal_id_def)
  ultimately show ?thesis by blast
qed

end
