(* ===== verification/Image_Create.thy ===== *)
theory Image_Create
  imports Image_Disk
begin

text \<open>
  Creating and renaming images: what a successful \<open>create\<close> adds, that a failing one leaves the
  store in memory as it was, and whom \<open>updateNames\<close> takes names from.
\<close>

section \<open>Creation\<close>

text \<open>
  While an image is being created, the store is the old one with the new image on top: the state
  between the insertion and the end, on the success path and on every failing one.
\<close>

definition image_atop :: "(string \<Rightarrow> bool) \<Rightarrow> imageStore \<Rightarrow> string \<Rightarrow> string list \<Rightarrow> imageStore \<Rightarrow> bool" where
  "image_atop valid s0 ident names s \<longleftrightarrow>
     (let p = i_next s0 in
      image_ok valid s \<and> i_images s = i_images s0 @ [p] \<and> (\<forall>q. q \<noteq> p \<longrightarrow> i_heap s q = i_heap s0 q)
      \<and> i_byid s = (i_byid s0)(ident \<mapsto> p) \<and> i_byname s = put_all names p (i_byname s0)
      \<and> (\<forall>k. filter (\<lambda>q. q \<noteq> p) (list_of (i_bydigest s) k) = list_of (i_bydigest s0) k)
      \<and> img_ID (i_heap s p) = ident \<and> img_Names (i_heap s p) = names \<and> IsReadWrite s)"

lemma image_atop_io [simp]:
  "image_atop valid s0 ident names (s\<lparr>faults := fs\<rparr>) = image_atop valid s0 ident names s"
  "image_atop valid s0 ident names (s\<lparr>lock_disk := n\<rparr>) = image_atop valid s0 ident names s"
  "image_atop valid s0 ident names (s\<lparr>lastWrite := n\<rparr>) = image_atop valid s0 ident names s"
  "image_atop valid s0 ident names (s\<lparr>i_json := js\<rparr>) = image_atop valid s0 ident names s"
  "image_atop valid s0 ident names (s\<lparr>i_data := dat\<rparr>) = image_atop valid s0 ident names s"
  by (simp_all add: image_atop_def)

lemma filter_append_key: "filter (\<lambda>q. q \<noteq> p) (list_of (append_key p m j) k) = filter (\<lambda>q. q \<noteq> p) (list_of m k)"
  by (simp add: append_key_def list_of_def)

lemma filter_fold_append_once:
  "filter (\<lambda>q. q \<noteq> p) (list_of (foldl (append_key_once p) m ds) k) = filter (\<lambda>q. q \<noteq> p) (list_of m k)"
  by (induction ds arbitrary: m) (simp_all add: append_key_once_def filter_append_key)

lemma filter_fold_append:
  "filter (\<lambda>q. q \<noteq> p) (list_of (foldl (append_key p) m ds) k) = filter (\<lambda>q. q \<noteq> p) (list_of m k)"
  by (induction ds arbitrary: m) (simp_all add: filter_append_key)

lemma filter_fold_prune:
  "filter (\<lambda>q. q \<noteq> p) (list_of (foldl (prune_key p) m ds) k) = filter (\<lambda>q. q \<noteq> p) (list_of m k)"
  by (simp add: list_of_def [of "foldl (prune_key p) m ds"] foldl_prune_key Let_def)
    (simp add: list_of_def)

lemma image_Save_atop: "preserves (image_atop valid s0 ident names) image_Save"
  by (rule image_Save_preserves) simp_all

lemma image_recorded_atop:
  assumes "env_ok env" and s: "image_atop (Validate env) s0 ident names s" and "data_digest_ok env key d"
    and i: "recomputeDigests env (image_note_data key data d (i_heap s (i_next s0))) = Inr i"
  shows "image_atop (Validate env) s0 ident names (s\<lparr>i_heap := (i_heap s)(i_next s0 := i),
    i_bydigest := foldl (append_key_once (i_next s0))
      (foldl (prune_key (i_next s0)) (i_bydigest s) (img_Digests (i_heap s (i_next s0)))) (img_Digests i)\<rparr>)"
proof -
  let ?p = "i_next s0"
  have ok: "image_ok (Validate env) s" and p: "?p \<in> set (i_images s)"
    using s by (simp_all add: image_atop_def Let_def)
  have "digests_ok (Validate env) i" "img_ID i = img_ID (i_heap s ?p)" "img_Names i = img_Names (i_heap s ?p)"
    using note_data_recompute [OF assms(1) image_okD(7) [OF ok p] assms(3), of data] i by auto
  with image_reindex_ok [OF ok p] s show ?thesis
    by (simp add: image_atop_def Let_def filter_fold_append_once filter_fold_prune)
qed

lemma image_record_data_atop:
  assumes "env_ok env" and "data_digest_ok env key d"
  shows "preserves (image_atop (Validate env) s0 ident names) (image_record_data env (i_next s0) key data d)"
  unfolding preserves_def
proof (intro allI impI)
  fix s
  assume s: "image_atop (Validate env) s0 ident names s"
  then have ok: "image_ok (Validate env) s" "i_next s0 \<in> set (i_images s)" by (simp_all add: image_atop_def Let_def)
  obtain i where i: "recomputeDigests env (image_note_data key data d (i_heap s (i_next s0))) = Inr i"
    using note_data_recompute [OF assms(1) image_okD(7) [OF ok] assms(2)] by blast
  from image_recorded_atop [OF assms(1) s assms(2) i]
  show "image_atop (Validate env) s0 ident names (snd (image_record_data env (i_next s0) key data d s))"
    unfolding image_record_data_run [OF i]
    using image_Save_atop [of "Validate env" s0 ident names] by (simp add: preserves_def op_return_def)
qed

lemma image_finish_atop:
  assumes "env_ok env" and "big_data_ok env items"
  shows "preserves (image_atop (Validate env) s0 ident names) (image_finish env (i_next s0) items)"
proof -
  have set: "preserves (image_atop (Validate env) s0 ident names) (image_setBigData env (i_next s0) key data d)"
    if "data_digest_ok env key d" for key data d
    unfolding image_setBigData_def
    by (intro preserves_intros preserves_update image_record_data_atop assms that) simp_all
  have "preserves (image_atop (Validate env) s0 ident names)
      (case x of (key, data, d) \<Rightarrow> image_setBigData env (i_next s0) key data (if d = '''' then FromBytes env data else d))"
    if "x \<in> set items" for x
    using that assms by (cases x) (auto intro!: set simp: env_ok_def)
  then show ?thesis unfolding image_finish_def by (intro preserves_intros image_Save_atop)
qed

lemma image_link_atop:
  assumes ok: "image_ok valid s" and "i_byid s (img_ID i) = None" and "\<forall>n \<in> set (img_Names i). i_byname s n = None"
    and "digests_ok valid i" and "IsReadWrite s"
  shows "image_atop valid s (img_ID i) (img_Names i) (image_link (i_next s) i s)"
proof -
  have fresh: "i_next s \<notin> set (i_images s)" using image_okD(2) [OF ok] by blast
  have "set (list_of (i_bydigest s) k) \<subseteq> set (i_images s)" for k
    using image_okD(5) [OF ok] unfolding multi_ok_iff by simp
  then have "filter (\<lambda>q. q \<noteq> i_next s) (list_of (i_bydigest s) k) = list_of (i_bydigest s) k" for k
    using fresh by (intro filter_True) blast
  then show ?thesis
    using image_link_ok [OF assms(1-4)] assms(5) by (simp add: image_atop_def Let_def image_link_def filter_fold_append)
qed

text \<open>Taking the new image away again gives the old store back.\<close>

definition image_same :: "imageStore \<Rightarrow> imageStore \<Rightarrow> bool" where
  "image_same s0 s \<longleftrightarrow>
     i_images s = i_images s0 \<and> i_byid s = i_byid s0 \<and> i_byname s = i_byname s0
     \<and> (\<forall>k. list_of (i_bydigest s) k = list_of (i_bydigest s0) k)
     \<and> (\<forall>q \<in> set (i_images s0). i_heap s q = i_heap s0 q)"

lemma image_same_io [simp]:
  "image_same s0 (s\<lparr>faults := fs\<rparr>) = image_same s0 s" "image_same s0 (s\<lparr>lock_disk := n\<rparr>) = image_same s0 s"
  "image_same s0 (s\<lparr>lastWrite := n\<rparr>) = image_same s0 s" "image_same s0 (s\<lparr>i_json := js\<rparr>) = image_same s0 s"
  "image_same s0 (s\<lparr>i_data := dat\<rparr>) = image_same s0 s"
  by (simp_all add: image_same_def)

lemma image_unlink_atop:
  assumes ok: "image_ok valid s0" and top: "image_atop valid s0 ident names s"
    and "i_byid s0 ident = None" and "\<forall>n \<in> set names. i_byname s0 n = None"
  shows "image_same s0 (image_unlink (i_next s0) s)"
proof -
  let ?p = "i_next s0" and ?t = "image_unlink (i_next s0) s"
  have fresh: "?p \<notin> set (i_images s0)" using image_okD(2) [OF ok] by blast
  have s: "image_ok valid s" "i_images s = i_images s0 @ [?p]" "i_byid s = (i_byid s0)(ident \<mapsto> ?p)"
    "i_byname s = put_all names ?p (i_byname s0)" "img_ID (i_heap s ?p) = ident" "img_Names (i_heap s ?p) = names"
    and heap: "\<And>q. q \<noteq> ?p \<Longrightarrow> i_heap s q = i_heap s0 q"
    and dig: "\<And>k. filter (\<lambda>q. q \<noteq> ?p) (list_of (i_bydigest s) k) = list_of (i_bydigest s0) k"
    using top by (simp_all add: image_atop_def Let_def)
  have p: "?p \<in> set (i_images s)" by (simp add: s(2))
  have without: "filter (\<lambda>q. q \<noteq> ?p) xs = xs" if "?p \<notin> set xs" for xs using that by (induction xs) auto
  have imgs: "i_images ?t = i_images s0"
    using image_unlink_images [OF s(1) p] without [OF fresh] by (simp add: s(2))
  moreover have "i_byid ?t = i_byid s0"
    using assms(3) by (simp add: image_unlink_def Let_def s(3,5) fun_upd_idem)
  moreover have "i_byname ?t = i_byname s0"
    using assms(4) by (simp add: image_unlink_def Let_def s(4,6) fun_eq_iff put_all_apply del_all_apply)
  moreover have "list_of (i_bydigest ?t) k = list_of (i_bydigest s0) k" for k
  proof -
    have "?p \<notin> set (list_of (i_bydigest ?t) k)"
      using image_okD(5) [OF image_unlink_ok [OF s(1) p]] fresh unfolding multi_ok_iff imgs by simp
    then have "filter (\<lambda>q. q \<noteq> ?p) (list_of (i_bydigest ?t) k) = list_of (i_bydigest ?t) k" by (rule without)
    moreover have "filter (\<lambda>q. q \<noteq> ?p) (list_of (i_bydigest ?t) k) = filter (\<lambda>q. q \<noteq> ?p) (list_of (i_bydigest s) k)"
      by (simp add: image_unlink_def Let_def filter_fold_prune)
    ultimately show ?thesis using dig by simp
  qed
  moreover have "i_heap ?t q = i_heap s0 q" if "q \<in> set (i_images s0)" for q
    using that fresh heap [of q] by (auto simp: image_unlink_def Let_def)
  ultimately show ?thesis by (simp add: image_same_def)
qed

lemma image_Delete_atop:
  assumes ok: "image_ok valid s0" and top: "image_atop valid s0 ident names s"
    and free: "i_byid s0 ident = None" "\<forall>n \<in> set names. i_byname s0 n = None"
  shows "image_same s0 (snd (image_Delete ident s))"
proof -
  have look: "image_lookup s ident = Some (i_next s0)" "IsReadWrite s"
    using top by (simp_all add: image_atop_def Let_def image_lookup_def)
  have "preserves (image_same s0) (op_seq image_Save (op_seq io_call
      (op_update (\<lambda>s. s\<lparr>i_data := (\<lambda>(j, key). if j = img_ID (i_heap t (i_next s0)) then None else i_data s (j, key))\<rparr>))))" for t
    by (intro preserves_intros preserves_update image_Save_preserves) simp_all
  from preservesD [OF this [of s] image_unlink_atop [OF ok top free] surjective_pairing] look show ?thesis
    by (simp add: image_Delete_def writable_def with_image_def op_read_def op_seq_def [of "op_update _"] op_then_def [of "op_update _"] op_update_def)
qed

text \<open>Without I/O errors the steps after the insertion succeed.\<close>

definition image_atop_quiet :: "(string \<Rightarrow> bool) \<Rightarrow> imageStore \<Rightarrow> string \<Rightarrow> string list \<Rightarrow> imageStore \<Rightarrow> bool" where
  "image_atop_quiet valid s0 ident names s \<longleftrightarrow> image_atop valid s0 ident names s \<and> faults s = []"

lemma image_Save_completes:
  assumes "\<And>s. P s \<Longrightarrow> faults s = [] \<and> IsReadWrite s" and "\<And>s n. P s \<Longrightarrow> P (s\<lparr>lock_disk := n\<rparr>)"
    and "\<And>s n. P s \<Longrightarrow> P (s\<lparr>lastWrite := n\<rparr>)" and "\<And>s js. P s \<Longrightarrow> P (s\<lparr>i_json := js\<rparr>)"
  shows "completes P image_Save"
proof -
  let ?m = "op_seq io_call (op_seq io_call (op_then RecordWrite (\<lambda>lw.
      op_seq (op_update (\<lambda>s. s\<lparr>lastWrite := lw\<rparr>)) (op_seq io_call
      (op_update (\<lambda>s. s\<lparr>i_json := map (json_image \<circ> i_heap s) (i_images s)\<rparr>))))))"
  have "completes P ?m"
    by (intro completes_intros completes_update RecordWrite_completes) (use assms in auto)
  then show ?thesis using assms(1) by (simp add: completes_def image_Save_def op_read_def)
qed

lemma image_Save_quiet: "completes (image_atop_quiet valid s0 ident names) image_Save"
  by (rule image_Save_completes) (auto simp: image_atop_quiet_def image_atop_def Let_def)

lemma image_setBigData_quiet:
  assumes "env_ok env" and "data_digest_ok env key d" and "key \<noteq> ''''"
  shows "completes (image_atop_quiet (Validate env) s0 ident names) (image_setBigData env (i_next s0) key data d)"
proof -
  let ?P = "image_atop_quiet (Validate env) s0 ident names"
  have rec: "completes ?P (image_record_data env (i_next s0) key data d)"
    unfolding completes_def
  proof (intro allI impI)
    fix s
    assume s: "?P s"
    then have top: "image_atop (Validate env) s0 ident names s" and "faults s = []" by (simp_all add: image_atop_quiet_def)
    then have ok: "image_ok (Validate env) s" "i_next s0 \<in> set (i_images s)" by (simp_all add: image_atop_def Let_def)
    obtain i where i: "recomputeDigests env (image_note_data key data d (i_heap s (i_next s0))) = Inr i"
      using note_data_recompute [OF assms(1) image_okD(7) [OF ok] assms(2)] by blast
    let ?t = "s\<lparr>i_heap := (i_heap s)(i_next s0 := i), i_bydigest := foldl (append_key_once (i_next s0))
      (foldl (prune_key (i_next s0)) (i_bydigest s) (img_Digests (i_heap s (i_next s0)))) (img_Digests i)\<rparr>"
    have "?P ?t"
      using image_recorded_atop [OF assms(1) top assms(2) i] \<open>faults s = []\<close> by (simp add: image_atop_quiet_def)
    then show "succeeded (fst (image_record_data env (i_next s0) key data d s))
        \<and> ?P (snd (image_record_data env (i_next s0) key data d s))"
      unfolding image_record_data_run [OF i]
      using image_Save_quiet [of "Validate env" s0 ident names] by (simp add: completes_def op_return_def)
  qed
  have "completes ?P (op_seq io_call (op_seq io_call (op_seq (op_update (\<lambda>s. s\<lparr>i_data := f s\<rparr>))
      (image_record_data env (i_next s0) key data d))))" for f
    by (intro completes_intros completes_update rec) (simp_all add: image_atop_quiet_def)
  then show ?thesis using assms(3) by (simp add: image_setBigData_def)
qed

lemma image_finish_quiet:
  assumes "env_ok env" and "big_data_ok env items" and "\<forall>(key, _) \<in> set items. key \<noteq> ''''"
  shows "completes (image_atop_quiet (Validate env) s0 ident names) (image_finish env (i_next s0) items)"
proof -
  have "completes (image_atop_quiet (Validate env) s0 ident names)
      (case x of (key, data, d) \<Rightarrow> image_setBigData env (i_next s0) key data (if d = '''' then FromBytes env data else d))"
    if "x \<in> set items" for x
    using that assms by (cases x) (auto intro!: image_setBigData_quiet simp: env_ok_def)
  then show ?thesis unfolding image_finish_def by (intro completes_intros image_Save_quiet)
qed

lemma image_finish_result:
  assumes "image_finish env p items s = (Inr j, s')"
  shows "j = i_heap s' p"
proof -
  have "j = i_heap s' p" if "op_seq m (op_read (\<lambda>s. i_heap s p) op_return) s = (Inr j, s')" for m :: "(imageStore, unit) op" and s
    using that by (auto simp: op_seq_def op_then_def op_read_def op_return_def split: prod.splits sum.splits)
  with assms show ?thesis
    unfolding image_finish_def by (auto simp: op_seq_def [of image_Save] op_then_def [of image_Save] split: prod.splits sum.splits)
qed

text \<open>The three outcomes of \<open>create\<close>: refused at once, or the insertion with its clean-up.\<close>

lemma image_create_outcome:
  assumes "image_create env now draws k names layer options s = (r, s')"
  obtains e where "r = Inl e" and "s' = s"
  | ident i where "i_byid s ident = None" and "\<forall>n \<in> set names. i_byname s n = None"
    and "recomputeDigests env (new_image now ident (dedupeStrings names) layer options) = Inr i"
    and "op_cleanup (image_finish env (i_next s) (opt_BigData options)) (image_Delete ident) (image_link (i_next s) i s) = (r, s')"
    and "k \<noteq> '''' \<Longrightarrow> ident = k" and "IsReadWrite s"
proof (cases "IsReadWrite s")
  case False
  with assms show ?thesis by (intro that(1)) (auto simp: image_create_def writable_def op_read_def op_fail_def)
next
  case rw: True
  let ?chosen = "if k = '''' then fresh_id (\<lambda>j. i_byid s j \<noteq> None) draws else Some k"
  note run = assms [unfolded image_create_cases [OF rw]]
  show ?thesis
  proof (cases ?chosen)
    case None
    with run show ?thesis by (intro that(1)) auto
  next
    case (Some ident)
    show ?thesis
    proof (cases "i_byid s ident = None \<and> (\<forall>n \<in> set names. i_byname s n = None)")
      case False
      then show ?thesis
        using run that(1) unfolding Some by (auto split: if_splits)
    next
      case free: True
      show ?thesis
      proof (cases "recomputeDigests env (new_image now ident (dedupeStrings names) layer options)")
        case (Inl e)
        with run free show ?thesis unfolding Some by (intro that(1) [of e]) auto
      next
        case (Inr i)
        with run free Some show ?thesis
          by (intro that(2) [OF _ _ Inr _ _ rw]) (auto split: if_splits)
      qed
    qed
  qed
qed

text \<open>When nothing stands in the way, creation succeeds.\<close>

definition image_create_free :: "digest_env \<Rightarrow> imageStore \<Rightarrow> string \<Rightarrow> string list \<Rightarrow> ImageOptions \<Rightarrow> bool" where
  "image_create_free env s k names options \<longleftrightarrow>
     IsReadWrite s \<and> faults s = [] \<and> k \<noteq> '''' \<and> i_byid s k = None \<and> (\<forall>n \<in> set names. i_byname s n = None)
     \<and> (opt_Digest options = '''' \<or> Validate env (opt_Digest options))
     \<and> (\<forall>(key, _) \<in> set (opt_BigData options). key \<noteq> '''')"

lemma image_create_succeeds:
  assumes "env_ok env" and ok: "image_ok (Validate env) s" and "big_data_ok env (opt_BigData options)"
    and free: "image_create_free env s k names options"
  shows "succeeded (fst (image_create env now draws k names layer options s))"
proof -
  note f = free [unfolded image_create_free_def]
  have "map_order env [] = []" using assms(1) by (metis env_ok_def set_empty empty_set)
  then obtain i where i: "recomputeDigests env (new_image now k (dedupeStrings names) layer options) = Inr i"
    using f by (auto simp: recomputeDigests_def new_image_def)
  note new = recompute_new [OF assms(1) i]
  have "image_atop_quiet (Validate env) s k (dedupeStrings names) (image_link (i_next s) i s)"
    using image_link_atop [OF ok, of i] f new by (auto simp: image_atop_quiet_def image_link_def)
  then have "succeeded (fst (image_finish env (i_next s) (opt_BigData options) (image_link (i_next s) i s)))"
    using image_finish_quiet [OF assms(1,3), of s k "dedupeStrings names"] f unfolding completes_def by blast
  then show ?thesis
    using f i by (auto simp: image_create_cases op_cleanup_def succeeded_def split: prod.splits sum.splits)
qed



section \<open>Renaming\<close>

text \<open>The state \<open>updateNames\<close> hands to \<open>Save\<close>.\<close>

definition image_renamed :: "nat \<Rightarrow> string list \<Rightarrow> imageStore \<Rightarrow> imageStore" where
  "image_renamed p new s = upd_image p (\<lambda>i. i\<lparr>img_Names := new\<rparr>)
     (foldl (image_take_name p) (s\<lparr>i_byname := del_all (img_Names (i_heap s p)) (i_byname s)\<rparr>) new)"

lemma image_updateNames_run:
  assumes "IsReadWrite s" and "image_lookup s k = Some p" and "applyNameOperation (img_Names (i_heap s p)) ns op = Inr new"
  shows "image_updateNames k ns op s = image_Save (image_renamed p new s)"
  using assms
  by (simp add: image_updateNames_def image_renamed_def writable_def with_image_def op_read_def op_seq_def op_then_def op_update_def)

lemma image_renamed_names:
  assumes ok: "image_ok valid s" and p: "p \<in> set (i_images s)" and q: "q \<in> set (i_images s)" "q \<noteq> p" and "distinct new"
  shows "img_Names (i_heap (image_renamed p new s) q) = filter (\<lambda>n. n \<notin> set new) (img_Names (i_heap s q))"
proof -
  let ?s = "s\<lparr>i_byname := del_all (img_Names (i_heap s p)) (i_byname s)\<rparr>"
  have "i_byname ?s n = Some q" if "n \<in> set (img_Names (i_heap s q))" for n
    using images.byname_iff [OF ok, of n q] images.name_owner [OF ok q(1) p that] that q
    by (auto simp: del_all_apply)
  moreover have "img_Names (i_heap (image_renamed p new s) q)
      = filter (\<lambda>n. \<not> (n \<in> set new \<and> i_byname ?s n = Some q)) (img_Names (i_heap s q))"
    using take_names_fold [OF assms(5), of p ?s] q(2) by (simp add: image_renamed_def)
  ultimately show ?thesis by (auto intro!: filter_cong)
qed

definition image_heap_at :: "(nat \<Rightarrow> Image) \<Rightarrow> (string \<rightharpoonup> nat) \<Rightarrow> imageStore \<Rightarrow> bool" where
  "image_heap_at h m s \<longleftrightarrow> i_heap s = h \<and> i_byname s = m"

text \<open>
  C19: renaming an image. Whether or not the new state can be written to disk, in memory the
  image has the names the operation asks for, every one of them leads to it, all other images
  have lost those names and no others, and nothing but names and the history of names has changed
  anywhere.
\<close>

theorem image_updateNames_effect:
  assumes ok: "image_ok valid s" and "IsReadWrite s" and k: "image_lookup s k = Some p"
    and new: "applyNameOperation (img_Names (i_heap s p)) ns op = Inr new"
    and run: "image_updateNames k ns op s = (r, s')"
  shows "img_Names (i_heap s' p) = new \<and> (\<forall>n \<in> set new. i_byname s' n = Some p)
    \<and> set new = (case op of setNames \<Rightarrow> set ns | addNames \<Rightarrow> set ns \<union> set (img_Names (i_heap s p))
        | removeNames \<Rightarrow> set (img_Names (i_heap s p)) - set ns | otherNameOperation \<Rightarrow> {})
    \<and> (\<forall>q \<in> set (i_images s). q \<noteq> p \<longrightarrow> img_Names (i_heap s' q) = filter (\<lambda>n. n \<notin> set new) (img_Names (i_heap s q)))
    \<and> (\<forall>q. kept_fields (i_heap s' q) (i_heap s q))"
proof -
  let ?t = "image_renamed p new s"
  have p: "p \<in> set (i_images s)" using images.find_mem [OF ok k] by simp
  have d: "distinct new" "set new = (case op of setNames \<Rightarrow> set ns | addNames \<Rightarrow> set ns \<union> set (img_Names (i_heap s p))
      | removeNames \<Rightarrow> set (img_Names (i_heap s p)) - set ns | otherNameOperation \<Rightarrow> {})"
    using applyNameOperation_Inr [OF new] by simp_all
  have "preserves (image_heap_at (i_heap ?t) (i_byname ?t)) image_Save"
    by (rule image_Save_preserves) (simp_all add: image_heap_at_def)
  from preservesD [OF this _ run [unfolded image_updateNames_run [OF assms(2) k new]]]
  have s': "i_heap s' = i_heap ?t" "i_byname s' = i_byname ?t" by (simp_all add: image_heap_at_def)
  have "kept_fields (i_heap ?t q) (i_heap s q)" for q
    using take_names_fold [OF d(1), of p "s\<lparr>i_byname := del_all (img_Names (i_heap s p)) (i_byname s)\<rparr>"]
    by (simp add: image_renamed_def)
  moreover have "img_Names (i_heap ?t p) = new" "\<forall>n \<in> set new. i_byname ?t n = Some p"
    using take_names_fold [OF d(1), of p "s\<lparr>i_byname := del_all (img_Names (i_heap s p)) (i_byname s)\<rparr>"]
    by (simp_all add: image_renamed_def put_all_apply)
  ultimately show ?thesis unfolding s' using d(2) image_renamed_names [OF ok p _ _ d(1)] by simp
qed

theorem image_updateNames_effect_witness:
  "img_Names (i_heap (snd (image_updateNames ''busybox'' [''x'', ''x''] addNames sample_images)) 0) = [''x'', ''busybox'']"
proof -
  have ok: "image_ok (Validate sample_env) sample_images"
    by (rule image_reach_ok [OF sample_env_ok empty_images_ok sample_images_reach])
  have s: "IsReadWrite sample_images" "image_lookup sample_images ''busybox'' = Some 0"
    "img_Names (i_heap sample_images 0) = [''busybox'']"
    by (simp_all add: sample_images_def image_run_simps image_lookup_def)
  have "applyNameOperation (img_Names (i_heap sample_images 0)) [''x'', ''x''] addNames = Inr [''x'', ''busybox'']"
    unfolding s(3) by (simp add: applyNameOperation_def dedupeStrings_def)
  from image_updateNames_effect [OF ok s(1,2) this surjective_pairing] show ?thesis by blast
qed

end
