(* ===== verification/Image_Load.thy ===== *)
theory Image_Load
  imports Image_Create
begin

text \<open>
  Loading \<open>images.json\<close>: a file with distinct IDs gives a consistent store, in which every name
  belongs to the last image of the file that has it; what was saved is loaded again.
\<close>

section \<open>Recomputing digests from the file\<close>

lemma recompute_loop_valid:
  "recompute_loop valid acc xs = Inr ds \<Longrightarrow> (name, d) \<in> set xs \<Longrightarrow> bigDataNameIsManifest name \<Longrightarrow> valid d"
  by (induction valid acc xs rule: recompute_loop.induct) (auto split: if_splits)

lemma recomputeDigests_Inr:
  assumes env: "env_ok env" and r: "recomputeDigests env i = Inr j"
  shows "digests_ok (Validate env) j"
    and "j\<lparr>img_Digest := '''', img_Digests := []\<rparr> = i\<lparr>img_Digest := '''', img_Digests := []\<rparr>"
    and "img_Digest i \<noteq> '''' \<or> manifest_digests i = {} \<Longrightarrow> img_Digest j = img_Digest i"
proof -
  have d: "img_Digest i = '''' \<or> Validate env (img_Digest i)" using r by (auto simp: recomputeDigests_def split: if_splits)
  then obtain acc ds where l: "recompute_loop (Validate env) acc (map_order env (img_BigDataDigests i)) = Inr ds"
    using r by (auto simp: recomputeDigests_def and_then_def split: if_splits sum.splits)
  have order: "set (map_order env xs) = set xs" for xs using env by (simp add: env_ok_def)
  have "\<forall>d \<in> manifest_digests i. Validate env d"
    using recompute_loop_valid [OF l] by (auto simp: manifest_digests_def order)
  from recomputeDigests_ok [OF env d this] r show "digests_ok (Validate env) j"
    "j\<lparr>img_Digest := '''', img_Digests := []\<rparr> = i\<lparr>img_Digest := '''', img_Digests := []\<rparr>"
    "img_Digest i \<noteq> '''' \<or> manifest_digests i = {} \<Longrightarrow> img_Digest j = img_Digest i" by auto
qed

lemma recomputeDigests_fields:
  assumes "env_ok env" and "recomputeDigests env i = Inr j"
  shows "img_ID j = img_ID i" "img_Names j = img_Names i" "img_BigDataDigests j = img_BigDataDigests i"
proof -
  note eq = recomputeDigests_Inr(2) [OF assms]
  show "img_ID j = img_ID i" using arg_cong [OF eq, of img_ID] by simp
  show "img_Names j = img_Names i" using arg_cong [OF eq, of img_Names] by simp
  show "img_BigDataDigests j = img_BigDataDigests i" using arg_cong [OF eq, of img_BigDataDigests] by simp
qed

section \<open>The loop over the records\<close>

lemma load_conflicts_fold:
  "ld_heap (foldl load_conflict ld ks) q =
     (ld_heap ld q)\<lparr>img_Names := filter (\<lambda>n. \<not> (n \<in> set ks \<and> ld_names ld n = Some q)) (img_Names (ld_heap ld q))\<rparr>
   \<and> ld_names (foldl load_conflict ld ks) = ld_names ld
   \<and> ld_ids (foldl load_conflict ld ks) = ld_ids ld
   \<and> ld_digests (foldl load_conflict ld ks) = ld_digests ld
   \<and> ld_idlist (foldl load_conflict ld ks) = ld_idlist ld
   \<and> (ld_dup (foldl load_conflict ld ks) \<longleftrightarrow> ld_dup ld \<or> (\<exists>n \<in> set ks. ld_names ld n \<noteq> None))"
proof (induction ks arbitrary: ld)
  case (Cons k ks)
  let ?ld = "load_conflict ld k"
  have n: "ld_names ?ld = ld_names ld" "ld_ids ?ld = ld_ids ld" "ld_digests ?ld = ld_digests ld"
    "ld_idlist ?ld = ld_idlist ld" "ld_dup ?ld \<longleftrightarrow> ld_dup ld \<or> ld_names ld k \<noteq> None"
    by (simp_all add: load_conflict_def split: option.split)
  have h: "ld_heap ?ld q = (ld_heap ld q)\<lparr>img_Names := filter (\<lambda>n. \<not> (n = k \<and> ld_names ld n = Some q)) (img_Names (ld_heap ld q))\<rparr>"
    by (auto simp: load_conflict_def image_removeName_def stringSliceWithoutValue_def filter_id_conv
        split: option.split intro!: filter_cong)
  have f: "filter (\<lambda>n. \<not> (n \<in> set ks \<and> ld_names ld n = Some q)) (filter (\<lambda>n. \<not> (n = k \<and> ld_names ld n = Some q)) ns)
      = filter (\<lambda>n. \<not> (n \<in> set (k # ks) \<and> ld_names ld n = Some q)) ns" for ns
    by (induction ns) auto
  have "ld_heap (foldl load_conflict ?ld ks) q = (ld_heap ?ld q)\<lparr>img_Names :=
      filter (\<lambda>n. \<not> (n \<in> set ks \<and> ld_names ld n = Some q)) (img_Names (ld_heap ?ld q))\<rparr>"
    using Cons.IH [of ?ld] unfolding n by blast
  also have "\<dots> = (ld_heap ld q)\<lparr>img_Names := filter (\<lambda>n. \<not> (n \<in> set (k # ks) \<and> ld_names ld n = Some q)) (img_Names (ld_heap ld q))\<rparr>"
    unfolding f [symmetric] h by simp
  finally show ?case using Cons.IH [of ?ld] by (auto simp: n)
qed simp

text \<open>What holds after the records at \<open>ds\<close> have been processed; \<open>h0\<close> has the records of the file.\<close>

definition load_ok :: "(string \<Rightarrow> bool) \<Rightarrow> (nat \<Rightarrow> Image) \<Rightarrow> nat list \<Rightarrow> image_load \<Rightarrow> bool" where
  "load_ok valid h0 ds ld \<longleftrightarrow>
     map_ok (\<lambda>p. {img_ID (ld_heap ld p)}) (set ds) (ld_ids ld)
     \<and> map_ok (\<lambda>p. set (img_Names (ld_heap ld p))) (set ds) (ld_names ld)
     \<and> multi_ok (\<lambda>p. set (img_Digests (ld_heap ld p))) (set ds) (ld_digests ld)
     \<and> (\<forall>p \<in> set ds. digests_ok valid (ld_heap ld p))
     \<and> ld_idlist ld = map (\<lambda>p. img_ID (h0 p)) ds
     \<and> dom (ld_names ld) = (\<Union>p \<in> set ds. set (img_Names (h0 p)))
     \<and> (\<forall>p \<in> set ds. img_ID (ld_heap ld p) = img_ID (h0 p))
     \<and> (\<forall>p. p \<notin> set ds \<longrightarrow> ld_heap ld p = h0 p)"

lemma map_ok_insert_steal:
  assumes m: "map_ok keys R m" and "p \<notin> R" and "keys' p = set ks" and q: "\<And>q. q \<in> R \<Longrightarrow> keys' q = keys q - set ks"
  shows "map_ok keys' (insert p R) (put_all ks p m)"
  unfolding map_ok_def put_all_apply
proof (intro allI)
  fix k r
  have "m k = Some r \<longleftrightarrow> r \<in> R \<and> k \<in> keys r" using m by (simp add: map_ok_def)
  then show "(if k \<in> set ks then Some p else m k) = Some r \<longleftrightarrow> r \<in> insert p R \<and> k \<in> keys' r"
    using assms(2,3) q [of r] by (cases "r = p") auto
qed

lemma load_okD:
  assumes "load_ok valid h0 ds ld"
  shows "map_ok (\<lambda>p. {img_ID (ld_heap ld p)}) (set ds) (ld_ids ld)"
    and "map_ok (\<lambda>p. set (img_Names (ld_heap ld p))) (set ds) (ld_names ld)"
    and "multi_ok (\<lambda>p. set (img_Digests (ld_heap ld p))) (set ds) (ld_digests ld)"
    and "\<And>p. p \<in> set ds \<Longrightarrow> digests_ok valid (ld_heap ld p)"
    and "ld_idlist ld = map (\<lambda>p. img_ID (h0 p)) ds"
    and "dom (ld_names ld) = (\<Union>p \<in> set ds. set (img_Names (h0 p)))"
    and "\<And>p. p \<in> set ds \<Longrightarrow> img_ID (ld_heap ld p) = img_ID (h0 p)"
    and "\<And>p. p \<notin> set ds \<Longrightarrow> ld_heap ld p = h0 p"
  using assms unfolding load_ok_def by blast+

text \<open>One record: the names it has are taken from the records before it.\<close>

lemma image_load_one_run:
  assumes "env_ok env" and ld: "load_ok valid h0 ds ld" and p: "p \<notin> set ds"
    and one: "image_load_one env rw ld p = Inr ld'"
  obtains i where "recomputeDigests env (h0 p) = Inr i"
    and "ld_heap ld' p = i\<lparr>img_ReadOnly := \<not> rw\<rparr>"
    and "\<And>q. q \<in> set ds \<Longrightarrow> ld_heap ld' q
        = (ld_heap ld q)\<lparr>img_Names := filter (\<lambda>n. n \<notin> set (img_Names (h0 p))) (img_Names (ld_heap ld q))\<rparr>"
    and "\<And>q. q \<notin> set ds \<Longrightarrow> q \<noteq> p \<Longrightarrow> ld_heap ld' q = h0 q"
    and "ld_ids ld' = (ld_ids ld)(img_ID (h0 p) \<mapsto> p)"
    and "ld_idlist ld' = ld_idlist ld @ [img_ID (h0 p)]"
    and "ld_names ld' = put_all (img_Names (h0 p)) p (ld_names ld)"
    and "ld_digests ld' = foldl (append_key p) (ld_digests ld) (img_Digests i)"
    and "ld_dup ld' \<longleftrightarrow> ld_dup ld \<or> (\<exists>q \<in> set ds. set (img_Names (h0 p)) \<inter> set (img_Names (h0 q)) \<noteq> {})"
proof -
  note d = load_okD [OF ld]
  let ?ld1 = "ld\<lparr>ld_ids := (ld_ids ld)(img_ID (h0 p) \<mapsto> p), ld_idlist := ld_idlist ld @ [img_ID (h0 p)]\<rparr>"
  let ?ld2 = "foldl load_conflict ?ld1 (img_Names (h0 p))"
  have hp: "ld_heap ld p = h0 p" using d(8) [OF p] .
  note c = load_conflicts_fold [of ?ld1 "img_Names (h0 p)"]
  have names: "ld_names ld n = Some q \<longleftrightarrow> q \<in> set ds \<and> n \<in> set (img_Names (ld_heap ld q))" for n q
    using d(2) by (simp add: map_ok_def)
  have out: "ld_heap ?ld2 q = ld_heap ld q" if "q \<notin> set ds" for q
  proof -
    have "filter (\<lambda>n. \<not> (n \<in> set (img_Names (h0 p)) \<and> ld_names ld n = Some q)) (img_Names (ld_heap ld q)) = img_Names (ld_heap ld q)"
      using that names by (intro filter_True) blast
    with c [of q] show ?thesis by simp
  qed
  have ins: "ld_heap ?ld2 q = (ld_heap ld q)\<lparr>img_Names := filter (\<lambda>n. n \<notin> set (img_Names (h0 p))) (img_Names (ld_heap ld q))\<rparr>"
    if "q \<in> set ds" for q
  proof -
    have "filter (\<lambda>n. \<not> (n \<in> set (img_Names (h0 p)) \<and> ld_names ld n = Some q)) (img_Names (ld_heap ld q))
        = filter (\<lambda>n. n \<notin> set (img_Names (h0 p))) (img_Names (ld_heap ld q))"
      using that names by (intro filter_cong) auto
    with c [of q] show ?thesis by simp
  qed
  from one obtain i where i: "recomputeDigests env (h0 p) = Inr i"
    and ld': "ld' = ?ld2\<lparr>ld_heap := (ld_heap ?ld2)(p := i\<lparr>img_ReadOnly := \<not> rw\<rparr>),
      ld_names := put_all (img_Names i) p (ld_names ?ld2),
      ld_digests := foldl (append_key p) (ld_digests ?ld2) (img_Digests i)\<rparr>"
    by (auto simp: image_load_one_def Let_def hp out [OF p] and_then_def split: sum.splits)
  have dup: "ld_dup ?ld2 \<longleftrightarrow> ld_dup ld \<or> (\<exists>n \<in> set (img_Names (h0 p)). n \<in> dom (ld_names ld))"
    using c [of p] by (simp add: domIff)
  have "ld_dup ld' \<longleftrightarrow> ld_dup ld \<or> (\<exists>q \<in> set ds. set (img_Names (h0 p)) \<inter> set (img_Names (h0 q)) \<noteq> {})"
    using dup unfolding ld' d(6) by auto
  with i ld' ins out d(8) recomputeDigests_fields [OF assms(1) i] c [of p] p show thesis
    by (intro that [of i]) auto
qed

lemma image_load_one_ok:
  assumes env: "env_ok env" and ld: "load_ok (Validate env) h0 ds ld" and p: "p \<notin> set ds"
    and ids: "\<forall>q \<in> set ds. img_ID (h0 q) \<noteq> img_ID (h0 p)" and one: "image_load_one env rw ld p = Inr ld'"
  shows "load_ok (Validate env) h0 (ds @ [p]) ld'"
proof -
  note d = load_okD [OF ld]
  obtain i where i: "recomputeDigests env (h0 p) = Inr i"
    and hp: "ld_heap ld' p = i\<lparr>img_ReadOnly := \<not> rw\<rparr>"
    and hq: "\<And>q. q \<in> set ds \<Longrightarrow> ld_heap ld' q
        = (ld_heap ld q)\<lparr>img_Names := filter (\<lambda>n. n \<notin> set (img_Names (h0 p))) (img_Names (ld_heap ld q))\<rparr>"
    and hr: "\<And>q. q \<notin> set ds \<Longrightarrow> q \<noteq> p \<Longrightarrow> ld_heap ld' q = h0 q"
    and maps: "ld_ids ld' = (ld_ids ld)(img_ID (h0 p) \<mapsto> p)" "ld_idlist ld' = ld_idlist ld @ [img_ID (h0 p)]"
      "ld_names ld' = put_all (img_Names (h0 p)) p (ld_names ld)"
      "ld_digests ld' = foldl (append_key p) (ld_digests ld) (img_Digests i)"
    by (rule image_load_one_run [OF env ld p one]) blast
  note f = recomputeDigests_fields [OF env i] and dig = recomputeDigests_Inr(1) [OF env i]
  have "map_ok (\<lambda>q. {img_ID (ld_heap ld' q)}) (insert p (set ds)) (put_all [img_ID (h0 p)] p (ld_ids ld))"
    by (rule map_ok_insert_steal [OF d(1) p]) (use ids f hp hq d(7) in auto)
  moreover have "map_ok (\<lambda>q. set (img_Names (ld_heap ld' q))) (insert p (set ds)) (ld_names ld')"
    unfolding maps by (rule map_ok_insert_steal [OF d(2) p]) (use f hp hq in auto)
  moreover have "multi_ok (\<lambda>q. set (img_Digests (ld_heap ld' q))) (insert p (set ds)) (ld_digests ld')"
    unfolding maps
  proof (rule multi_ok_insert [OF _ p])
    show "multi_ok (\<lambda>q. set (img_Digests (ld_heap ld' q))) (set ds) (ld_digests ld)"
      using d(3) hq by (subst multi_ok_cong) auto
  qed (use dig hp in \<open>auto simp: digests_ok_def\<close>)
  moreover have "digests_ok (Validate env) (ld_heap ld' q)" if "q \<in> set (ds @ [p])" for q
  proof (cases "q = p")
    case True
    then show ?thesis using hp by (intro digests_ok_same [OF dig]) simp_all
  next
    case False
    with that have q: "q \<in> set ds" by simp
    show ?thesis by (rule digests_ok_same [OF d(4) [OF q]]) (simp_all add: hq [OF q])
  qed
  moreover have "dom (ld_names ld') = (\<Union>q \<in> set (ds @ [p]). set (img_Names (h0 q)))"
    using d(6) unfolding maps by (auto simp: put_all_apply dom_def split: if_splits)
  ultimately show ?thesis
    unfolding load_ok_def using maps d(5,7) f hp hq hr by auto
qed

section \<open>The whole file\<close>

text \<open>The records after \<open>p\<close> in the file.\<close>

definition after :: "'a \<Rightarrow> 'a list \<Rightarrow> 'a list" where
  "after p ps = tl (dropWhile (\<lambda>q. q \<noteq> p) ps)"

definition names_disjoint :: "(nat \<Rightarrow> Image) \<Rightarrow> nat list \<Rightarrow> bool" where
  "names_disjoint h ps \<longleftrightarrow>
     (\<forall>p \<in> set ps. \<forall>q \<in> set ps. p \<noteq> q \<longrightarrow> set (img_Names (h p)) \<inter> set (img_Names (h q)) = {})"

lemma names_disjoint_snoc:
  assumes "p \<notin> set ds"
  shows "names_disjoint h (ds @ [p]) \<longleftrightarrow>
    names_disjoint h ds \<and> \<not> (\<exists>q \<in> set ds. set (img_Names (h p)) \<inter> set (img_Names (h q)) \<noteq> {})"
proof -
  define D where "D q r \<longleftrightarrow> set (img_Names (h q)) \<inter> set (img_Names (h r)) = {}" for q r
  have sym: "D q r = D r q" for q r by (simp add: D_def Int_commute)
  have nd: "names_disjoint h xs \<longleftrightarrow> (\<forall>q \<in> set xs. \<forall>r \<in> set xs. q \<noteq> r \<longrightarrow> D q r)" for xs
    by (simp add: names_disjoint_def D_def)
  have "(\<forall>q \<in> set (ds @ [p]). \<forall>r \<in> set (ds @ [p]). q \<noteq> r \<longrightarrow> D q r)
      \<longleftrightarrow> (\<forall>q \<in> set ds. \<forall>r \<in> set ds. q \<noteq> r \<longrightarrow> D q r) \<and> (\<forall>q \<in> set ds. D p q)"
  proof
    assume "(\<forall>q \<in> set ds. \<forall>r \<in> set ds. q \<noteq> r \<longrightarrow> D q r) \<and> (\<forall>q \<in> set ds. D p q)"
    moreover from this have "\<forall>q \<in> set ds. D q p" using sym by blast
    ultimately show "\<forall>q \<in> set (ds @ [p]). \<forall>r \<in> set (ds @ [p]). q \<noteq> r \<longrightarrow> D q r" by auto
  qed (use assms in auto)
  then show ?thesis unfolding nd by (simp add: D_def)
qed

definition loaded_image :: "bool \<Rightarrow> (nat \<Rightarrow> Image) \<Rightarrow> nat list \<Rightarrow> Image \<Rightarrow> Image" where
  "loaded_image rw h later i =
     i\<lparr>img_Names := filter (\<lambda>n. \<forall>q \<in> set later. n \<notin> set (img_Names (h q))) (img_Names i), img_ReadOnly := \<not> rw\<rparr>"

lemma image_load_all_ok:
  assumes "env_ok env" and "load_ok (Validate env) h0 ds ld" and "distinct (map (\<lambda>p. img_ID (h0 p)) (ds @ ps))"
    and "image_load_all env rw ld ps = Inr ld'" and "ld_dup ld \<longleftrightarrow> \<not> names_disjoint h0 ds"
  shows "load_ok (Validate env) h0 (ds @ ps) ld'
    \<and> (ld_dup ld' \<longleftrightarrow> \<not> names_disjoint h0 (ds @ ps))
    \<and> (\<forall>q \<in> set ds. ld_heap ld' q = (ld_heap ld q)\<lparr>img_Names :=
          filter (\<lambda>n. \<forall>p \<in> set ps. n \<notin> set (img_Names (h0 p))) (img_Names (ld_heap ld q))\<rparr>)
    \<and> (\<forall>p \<in> set ps. \<exists>i. recomputeDigests env (h0 p) = Inr i \<and> ld_heap ld' p = loaded_image rw h0 (after p ps) i)"
  using assms(2-5)
proof (induction ps arbitrary: ds ld)
  case Nil
  then show ?case by simp
next
  case (Cons p ps)
  have dist: "distinct (ds @ p # ps)" using Cons.prems(2) unfolding distinct_map by blast
  then have p: "p \<notin> set ds" "p \<notin> set ps" by auto
  have ids: "\<forall>q \<in> set ds. img_ID (h0 q) \<noteq> img_ID (h0 p)" using Cons.prems(2) by (force simp: image_iff)
  obtain ld1 where one: "image_load_one env rw ld p = Inr ld1" and rest: "image_load_all env rw ld1 ps = Inr ld'"
    using Cons.prems(3) by (auto simp: and_then_def split: sum.splits)
  obtain i where i: "recomputeDigests env (h0 p) = Inr i" "ld_heap ld1 p = i\<lparr>img_ReadOnly := \<not> rw\<rparr>"
    and hq: "\<And>q. q \<in> set ds \<Longrightarrow> ld_heap ld1 q
        = (ld_heap ld q)\<lparr>img_Names := filter (\<lambda>n. n \<notin> set (img_Names (h0 p))) (img_Names (ld_heap ld q))\<rparr>"
    and dup: "ld_dup ld1 \<longleftrightarrow> ld_dup ld \<or> (\<exists>q \<in> set ds. set (img_Names (h0 p)) \<inter> set (img_Names (h0 q)) \<noteq> {})"
    by (rule image_load_one_run [OF assms(1) Cons.prems(1) p(1) one]) blast
  have ok1: "load_ok (Validate env) h0 (ds @ [p]) ld1"
    by (rule image_load_one_ok [OF assms(1) Cons.prems(1) p(1) ids one])
  have dup1: "ld_dup ld1 \<longleftrightarrow> \<not> names_disjoint h0 (ds @ [p])"
    using dup Cons.prems(4) p(1) unfolding names_disjoint_snoc [OF p(1)] by blast
  have "distinct (map (\<lambda>p. img_ID (h0 p)) ((ds @ [p]) @ ps))" using Cons.prems(2) by simp
  note all = Cons.IH [OF ok1 this rest dup1]
  note IH = conjunct1 [OF all] conjunct1 [OF conjunct2 [OF all]] conjunct1 [OF conjunct2 [OF conjunct2 [OF all]]]
    conjunct2 [OF conjunct2 [OF conjunct2 [OF all]]]
  have heap: "ld_heap ld' q = (ld_heap ld q)\<lparr>img_Names :=
      filter (\<lambda>n. \<forall>p \<in> set (p # ps). n \<notin> set (img_Names (h0 p))) (img_Names (ld_heap ld q))\<rparr>" if "q \<in> set ds" for q
    using bspec [OF IH(3), of q] hq [OF that] that by (simp add: conj_commute)
  have first: "ld_heap ld' p = loaded_image rw h0 (after p (p # ps)) i"
    using bspec [OF IH(3), of p] i(2) by (simp add: loaded_image_def after_def)
  have later: "after q (p # ps) = after q ps" if "q \<in> set ps" for q
    using that p(2) by (auto simp: after_def)
  show ?case
  proof (intro conjI ballI)
    fix q
    assume "q \<in> set (p # ps)"
    then consider "q = p" | "q \<in> set ps" by auto
    then show "\<exists>i. recomputeDigests env (h0 q) = Inr i \<and> ld_heap ld' q = loaded_image rw h0 (after q (p # ps)) i"
    proof cases
      case 1
      then show ?thesis using i(1) first by blast
    next
      case 2
      then show ?thesis using IH(4) unfolding later [OF 2] by blast
    qed
  next
    show "load_ok (Validate env) h0 (ds @ p # ps) ld'" "ld_dup ld' \<longleftrightarrow> \<not> names_disjoint h0 (ds @ p # ps)"
      using IH(1,2) by simp_all
  qed (rule heap)
qed

section \<open>Loading\<close>

text \<open>The state \<open>load\<close> installs, before it may have to save.\<close>

definition image_installed :: "image_load \<Rightarrow> imageStore \<Rightarrow> imageStore" where
  "image_installed ld s = s\<lparr>i_heap := ld_heap ld, i_next := i_next s + length (i_json s),
     i_images := [i_next s ..< i_next s + length (i_json s)],
     i_idindex := NewTruncIndex (ld_idlist ld), i_byid := ld_ids ld, i_byname := ld_names ld, i_bydigest := ld_digests ld\<rparr>"

definition load_start :: "imageStore \<Rightarrow> image_load" where
  "load_start s = \<lparr>ld_heap = alloc_images (i_next s) (i_json s) (i_heap s), ld_ids = Map.empty,
     ld_names = Map.empty, ld_digests = Map.empty, ld_idlist = [], ld_dup = False\<rparr>"

abbreviation file_heap :: "imageStore \<Rightarrow> nat \<Rightarrow> Image" where
  "file_heap s \<equiv> alloc_images (i_next s) (i_json s) (i_heap s)"

abbreviation file_addrs :: "imageStore \<Rightarrow> nat list" where
  "file_addrs s \<equiv> [i_next s ..< i_next s + length (i_json s)]"

lemma file_heap_map: "map (\<lambda>p. f (file_heap s p)) (file_addrs s) = map f (i_json s)"
  by (rule nth_equalityI) (simp_all add: alloc_images_def)

lemma image_load_loop:
  assumes "env_ok env" and "distinct (map img_ID (i_json s))"
    and "image_load_all env (IsReadWrite s) (load_start s) (file_addrs s) = Inr ld"
  shows "image_ok (Validate env) (image_installed ld s)"
    and "ld_dup ld \<longleftrightarrow> \<not> names_disjoint (file_heap s) (file_addrs s)"
    and "\<forall>p \<in> set (file_addrs s). \<exists>i. recomputeDigests env (file_heap s p) = Inr i
        \<and> ld_heap ld p = loaded_image (IsReadWrite s) (file_heap s) (after p (file_addrs s)) i"
proof -
  have start: "load_ok (Validate env) (file_heap s) [] (load_start s)" by (simp add: load_ok_def load_start_def)
  have dist: "distinct (map (\<lambda>p. img_ID (file_heap s p)) ([] @ file_addrs s))"
    using assms(2) by (simp add: file_heap_map [of img_ID, simplified])
  have "ld_dup (load_start s) \<longleftrightarrow> \<not> names_disjoint (file_heap s) []" by (simp add: load_start_def names_disjoint_def)
  note all = image_load_all_ok [OF assms(1) start dist assms(3) this, unfolded append_Nil]
  then have ok: "load_ok (Validate env) (file_heap s) (file_addrs s) ld" by blast
  note d = load_okD [OF ok]
  have ids: "dom (ld_ids ld) = set (ld_idlist ld)"
    using map_ok_dom [OF d(1)] d(7) unfolding d(5) by auto
  have "trunc.mirrors (NewTruncIndex (ld_idlist ld)) (dom (ld_ids ld))"
    unfolding ids by (rule trunc.mirrors_new)
  with d(1-4) show "image_ok (Validate env) (image_installed ld s)"
    by (simp add: image_ok_def image_installed_def)
  from all show "ld_dup ld \<longleftrightarrow> \<not> names_disjoint (file_heap s) (file_addrs s)" by blast
  from all show "\<forall>p \<in> set (file_addrs s). \<exists>i. recomputeDigests env (file_heap s p) = Inr i
      \<and> ld_heap ld p = loaded_image (IsReadWrite s) (file_heap s) (after p (file_addrs s)) i" by blast
qed

text \<open>The outcomes of \<open>load\<close>.\<close>

lemma image_load_cases:
  "image_load env locked s0 =
    (case op_seq io_call io_call s0 of
       (Inl e, s) \<Rightarrow> ((False, Some e), s)
     | (Inr _, s) \<Rightarrow>
         (case image_load_all env (IsReadWrite s) (load_start s) (file_addrs s) of
            Inl e \<Rightarrow> ((False, Some e), s)
          | Inr ld \<Rightarrow>
              if ld_dup ld \<and> \<not> IsReadWrite s then ((False, Some ErrDuplicateImageNames), s)
              else if ld_dup ld \<and> \<not> locked then ((True, Some ErrDuplicateImageNames), s)
              else if ld_dup ld
                   then (case image_Save (image_installed ld s) of
                           (Inl e, s2) \<Rightarrow> ((False, Some e), s2)
                         | (Inr _, s2) \<Rightarrow> ((False, None), s2))
                   else ((False, None), image_installed ld s)))"
  by (simp add: image_load_def image_installed_def load_start_def Let_def split: sum.split prod.split)

lemma two_calls:
  assumes "op_seq io_call io_call s = (r, t)"
  obtains fs where "t = s\<lparr>faults := fs\<rparr>"
proof -
  have io: "preserves (\<lambda>t. \<exists>fs. t = s\<lparr>faults := fs\<rparr>) (op_seq io_call io_call)"
    by (intro preserves_intros) auto
  have "\<exists>fs. s = s\<lparr>faults := fs\<rparr>" by (rule exI [of _ "faults s"]) simp
  from preservesD [OF io this assms] show thesis using that by blast
qed


section \<open>What was saved is loaded again\<close>

lemma image_load_all_total:
  assumes "env_ok env" and "load_ok (Validate env) h0 ds ld" and "distinct (map (\<lambda>p. img_ID (h0 p)) (ds @ ps))"
    and "\<forall>p \<in> set ps. \<exists>i. recomputeDigests env (h0 p) = Inr i"
  shows "\<exists>ld'. image_load_all env rw ld ps = Inr ld'"
  using assms(2-4)
proof (induction ps arbitrary: ds ld)
  case (Cons p ps)
  have "distinct (ds @ p # ps)" using Cons.prems(2) unfolding distinct_map by blast
  then have p: "p \<notin> set ds" by auto
  have ids: "\<forall>q \<in> set ds. img_ID (h0 q) \<noteq> img_ID (h0 p)" using Cons.prems(2) by (force simp: image_iff)
  note d = load_okD [OF Cons.prems(1)]
  let ?ld1 = "ld\<lparr>ld_ids := (ld_ids ld)(img_ID (h0 p) \<mapsto> p), ld_idlist := ld_idlist ld @ [img_ID (h0 p)]\<rparr>"
  have "filter (\<lambda>n. \<not> (n \<in> set (img_Names (h0 p)) \<and> ld_names ld n = Some p)) (img_Names (h0 p)) = img_Names (h0 p)"
    using map_ok_mem [OF d(2)] p by (intro filter_True) blast
  then have "ld_heap (foldl load_conflict ?ld1 (img_Names (h0 p))) p = h0 p"
    using load_conflicts_fold [of ?ld1 "img_Names (h0 p)" p] d(8) [OF p] by simp
  then obtain ld1 where one: "image_load_one env rw ld p = Inr ld1"
    using Cons.prems(3) d(8) [OF p] by (auto simp: image_load_one_def Let_def and_then_def)
  have dist: "distinct (map (\<lambda>p. img_ID (h0 p)) ((ds @ [p]) @ ps))" using Cons.prems(2) by simp
  have "\<forall>q \<in> set ps. \<exists>i. recomputeDigests env (h0 q) = Inr i" using Cons.prems(3) by simp
  from Cons.IH [OF image_load_one_ok [OF assms(1) Cons.prems(1) p ids one] dist this]
  show ?case by (simp add: one and_then_def)
qed simp

lemma json_image_idem [simp]: "json_image (json_image i) = json_image i"
  by (simp add: json_image_def)

lemma json_image_fields [simp]:
  "img_ID (json_image i) = img_ID i" "img_Names (json_image i) = img_Names i" "img_Digest (json_image i) = img_Digest i"
  "manifest_digests (json_image i) = manifest_digests i"
  by (simp_all add: json_image_def)

lemma recompute_json:
  assumes "env_ok env" and "digests_ok (Validate env) i"
  obtains j where "recomputeDigests env (json_image i) = Inr j" and "json_image j = json_image i"
    and "set (img_Digests j) = set (img_Digests i)"
proof -
  have d: "img_Digest i = '''' \<or> Validate env (img_Digest i)" "\<forall>d \<in> manifest_digests i. Validate env d"
    "img_Digest i \<noteq> '''' \<or> manifest_digests i = {}"
    using assms(2) by (auto simp: digests_ok_def)
  from recomputeDigests_ok [OF assms(1), of "json_image i"] d obtain j where
    j: "recomputeDigests env (json_image i) = Inr j" "digests_ok (Validate env) j"
    "j\<lparr>img_Digest := '''', img_Digests := []\<rparr> = (json_image i)\<lparr>img_Digest := '''', img_Digests := []\<rparr>"
    "img_Digest j = img_Digest i" by auto
  have "json_image (j\<lparr>img_Digest := '''', img_Digests := []\<rparr>\<lparr>img_Digest := img_Digest j\<rparr>)
      = json_image ((json_image i)\<lparr>img_Digest := '''', img_Digests := []\<rparr>\<lparr>img_Digest := img_Digest i\<rparr>)"
    unfolding j(3,4) ..
  then have same: "json_image j = json_image i" by (simp add: json_image_def)
  have "set (img_Digests j) = set (img_Digests i)"
    using assms(2) j(2,4) arg_cong [OF same, of manifest_digests] by (simp add: digests_ok_def)
  with that j(1) same show thesis by blast
qed

lemma saved_file:
  assumes ok: "image_ok valid s" and js: "i_json s = map (json_image \<circ> i_heap s) (i_images s)"
  shows "distinct (map img_ID (i_json s))" and "names_disjoint (file_heap s) (file_addrs s)"
    and "n < length (i_json s) \<Longrightarrow> file_heap s (i_next s + n) = json_image (i_heap s (i_images s ! n))"
    and "length (i_json s) = length (i_images s)"
proof -
  have "inj_on (\<lambda>p. img_ID (i_heap s p)) (set (i_images s))" by (rule inj_onI) (rule images.ident_inj [OF ok])
  then show "distinct (map img_ID (i_json s))" using image_okD(1) [OF ok] by (simp add: js distinct_map comp_def inj_on_def)
  show len: "length (i_json s) = length (i_images s)" by (simp add: js)
  show heap: "file_heap s (i_next s + n) = json_image (i_heap s (i_images s ! n))" if "n < length (i_json s)" for n
    using that by (simp add: alloc_images_def js)
  show "names_disjoint (file_heap s) (file_addrs s)"
    unfolding names_disjoint_def
  proof (intro ballI impI)
    fix p q
    assume "p \<in> set (file_addrs s)" "q \<in> set (file_addrs s)" and neq: "p \<noteq> q"
    then obtain m n where mn: "p = i_next s + m" "q = i_next s + n" "m < length (i_json s)" "n < length (i_json s)"
      by (metis add_less_cancel_left atLeastLessThan_iff le_Suc_ex set_upt)
    let ?p = "i_images s ! m" and ?q = "i_images s ! n"
    have "?p \<noteq> ?q" using neq mn image_okD(1) [OF ok] by (simp add: nth_eq_iff_index_eq len)
    then have "set (img_Names (i_heap s ?p)) \<inter> set (img_Names (i_heap s ?q)) = {}"
      using images.name_owner [OF ok, of ?p ?q] mn by (auto simp: len)
    then show "set (img_Names (file_heap s p)) \<inter> set (img_Names (file_heap s q)) = {}"
      using heap mn by simp
  qed
qed

lemma after_other:
  assumes "distinct ps" and "q \<in> set (after p ps)"
  shows "q \<in> set ps \<and> q \<noteq> p"
  using assms by (induction ps) (auto simp: after_def split: if_splits)

lemma loaded_image_disjoint:
  assumes "names_disjoint h ps" and "distinct ps" and "p \<in> set ps" and "img_Names i = img_Names (h p)"
  shows "json_image (loaded_image rw h (after p ps) i) = json_image i"
    and "img_Digests (loaded_image rw h (after p ps) i) = img_Digests i"
proof -
  have "n \<notin> set (img_Names (h q))" if "n \<in> set (img_Names i)" "q \<in> set (after p ps)" for n q
    using assms after_other [OF assms(2) that(2)] that(1) unfolding names_disjoint_def by fastforce
  then have "filter (\<lambda>n. \<forall>q \<in> set (after p ps). n \<notin> set (img_Names (h q))) (img_Names i) = img_Names i"
    by (intro filter_True) blast
  then show "json_image (loaded_image rw h (after p ps) i) = json_image i"
    by (simp add: loaded_image_def json_image_def)
qed (simp add: loaded_image_def)

lemma image_saved_load:
  assumes env: "env_ok env" and ok: "image_ok (Validate env) s"
    and saved: "i_json s = map (json_image \<circ> i_heap s) (i_images s)" and "faults s = []"
  obtains ld where "image_load env locked s = ((False, None), image_installed ld s)"
    and "image_ok (Validate env) (image_installed ld s)"
    and "\<And>n. n < length (i_images s) \<Longrightarrow>
        json_image (ld_heap ld (i_next s + n)) = json_image (i_heap s (i_images s ! n))
        \<and> set (img_Digests (ld_heap ld (i_next s + n))) = set (img_Digests (i_heap s (i_images s ! n)))"
proof -
  note f = saved_file [OF ok saved]
  have rec: "\<exists>i. recomputeDigests env (file_heap s (i_next s + n)) = Inr i \<and> json_image i = json_image (i_heap s (i_images s ! n))
      \<and> set (img_Digests i) = set (img_Digests (i_heap s (i_images s ! n)))" if "n < length (i_images s)" for n
  proof -
    have "digests_ok (Validate env) (i_heap s (i_images s ! n))" using image_okD(7) [OF ok] that by simp
    from recompute_json [OF env this] show ?thesis using f(3,4) that by metis
  qed
  have start: "load_ok (Validate env) (file_heap s) [] (load_start s)" by (simp add: load_ok_def load_start_def)
  have dist: "distinct (map (\<lambda>p. img_ID (file_heap s p)) ([] @ file_addrs s))"
    using f(1) by (simp add: file_heap_map [of img_ID, simplified])
  have "\<exists>i. recomputeDigests env (file_heap s p) = Inr i" if p: "p \<in> set (file_addrs s)" for p
  proof -
    have "p = i_next s + (p - i_next s)" "p - i_next s < length (i_images s)" using p f(4) by auto
    then show ?thesis using rec by metis
  qed
  then obtain ld where ld: "image_load_all env (IsReadWrite s) (load_start s) (file_addrs s) = Inr ld"
    using image_load_all_total [OF env start dist] by blast
  note loop = image_load_loop [OF env f(1) ld]
  have "image_load env locked s = ((False, None), image_installed ld s)"
    using loop(2) f(2) ld assms(4) by (simp add: image_load_cases op_seq_def op_then_def)
  moreover have "json_image (ld_heap ld (i_next s + n)) = json_image (i_heap s (i_images s ! n))
      \<and> set (img_Digests (ld_heap ld (i_next s + n))) = set (img_Digests (i_heap s (i_images s ! n)))"
    if n: "n < length (i_images s)" for n
  proof -
    have p: "i_next s + n \<in> set (file_addrs s)" using n f(4) by simp
    obtain i where i: "recomputeDigests env (file_heap s (i_next s + n)) = Inr i"
      "ld_heap ld (i_next s + n) = loaded_image (IsReadWrite s) (file_heap s) (after (i_next s + n) (file_addrs s)) i"
      using bspec [OF loop(3) p] by blast
    from loaded_image_disjoint [OF f(2) distinct_upt p recomputeDigests_fields(2) [OF env i(1)]] rec [OF n] i
    show ?thesis by auto
  qed
  ultimately show thesis using that loop(1) by blast
qed

text \<open>
  C21: saving and loading. From a consistent store whose records are on disk, loading without I/O
  errors always succeeds, with or without the write lock, and yields a consistent store with
  the same images in the same order: every serialised field is the same, and the digests by
  which each image is found are the same.
\<close>

theorem image_save_load:
  assumes "env_ok env" and "image_ok (Validate env) s" and "image_saved s" and "faults s = []"
    and "image_load env locked s = (r, s')"
  shows "r = (False, None) \<and> image_ok (Validate env) s' \<and> image_saved s'
    \<and> map json_image (image_Images s') = map json_image (image_Images s)
    \<and> map (\<lambda>i. set (img_Digests i)) (image_Images s') = map (\<lambda>i. set (img_Digests i)) (image_Images s)"
proof -
  obtain ld where ld: "image_load env locked s = ((False, None), image_installed ld s)"
    and ok: "image_ok (Validate env) (image_installed ld s)"
    and same: "\<And>n. n < length (i_images s) \<Longrightarrow>
        json_image (ld_heap ld (i_next s + n)) = json_image (i_heap s (i_images s ! n))
        \<and> set (img_Digests (ld_heap ld (i_next s + n))) = set (img_Digests (i_heap s (i_images s ! n)))"
    by (rule image_saved_load [OF assms(1,2) _ assms(4)]) (use assms(3) in \<open>auto simp: image_saved_def\<close>)
  have s': "r = (False, None)" "s' = image_installed ld s" using ld assms(5) by simp_all
  have len: "length (i_json s) = length (i_images s)" using assms(3) by (simp add: image_saved_def)
  have json: "map json_image (image_Images s') = map json_image (image_Images s)"
    by (rule nth_equalityI) (simp_all add: s' image_Images_def image_installed_def len same)
  have "map (\<lambda>i. set (img_Digests i)) (image_Images s') = map (\<lambda>i. set (img_Digests i)) (image_Images s)"
    by (rule nth_equalityI) (simp_all add: s' image_Images_def image_installed_def len same)
  moreover have "image_saved s'"
    using assms(3) json by (simp add: image_saved_def s' image_Images_def image_installed_def comp_def)
  ultimately show ?thesis using ok json s' by simp
qed

theorem image_save_load_witness:
  "fst (image_load sample_env False sample_images) = (False, None)
     \<and> map json_image (image_Images (snd (image_load sample_env False sample_images))) = map json_image (image_Images sample_images)"
proof -
  let ?run = "image_create sample_env 1 [] ''a1'' [''busybox''] ''l1'' no_options empty_images"
  have ok: "image_ok (Validate sample_env) sample_images"
    by (rule image_reach_ok [OF sample_env_ok empty_images_ok sample_images_reach])
  have "image_saved sample_images" "faults sample_images = []"
    by (simp_all add: sample_images_def image_run_simps image_saved_def)
  from image_save_load [OF sample_env_ok ok this surjective_pairing] show ?thesis by simp
qed


section \<open>Digests that do not count\<close>

text \<open>
  The list \<open>Digests\<close> in the options of \<open>create\<close> has no effect at all: the new image can only be
  found by \<open>Digest\<close> and by the digests of its manifests.
\<close>

lemma image_create_ignores_Digests:
  "image_create env now draws k names layer (options\<lparr>opt_Digests := ds\<rparr>) = image_create env now draws k names layer options"
proof -
  have "recomputeDigests env (new_image now ident ns layer (options\<lparr>opt_Digests := ds\<rparr>))
      = recomputeDigests env (new_image now ident ns layer options)" for ident ns
    by (simp add: recomputeDigests_def new_image_def cong: if_cong)
  then show ?thesis unfolding image_create_def Let_def by (simp cong: if_cong sum.case_cong)
qed


end
