(* ===== verification/Store_Locks.thy ===== *)
theory Store_Locks
  imports Store_Base
begin

text \<open>
  How the record stores take their two locks: the lock file, shared with other processes, and the
  in-process lock that protects the data in memory. \<open>startReading\<close> and \<open>startWriting\<close> are the same
  code in \<open>storage/images.go\<close> and \<open>storage/containers.go\<close>; they are modelled once, with the
  store's \<open>modified\<close> and \<open>reloadIfChanged\<close> as arguments. While the lock file is not held, other
  processes may change the files; what they do is the argument \<open>others\<close>.

  Locking a lock that is held, unlocking one that is not, and a reload or a save without the locks
  it needs are panics.
\<close>

datatype lock_mode = Unlocked | Reading | Writing

record 's held =
  lk_file :: lock_mode
  lk_mem :: lock_mode
  lk_store :: 's

definition file_lock :: "lock_mode \<Rightarrow> ('s held, unit) op" where
  "file_lock m h =
     (if lk_file h \<noteq> Unlocked then (Inl (Panic ''lock file already locked''), h) else (Inr (), h\<lparr>lk_file := m\<rparr>))"

definition file_unlock :: "('s \<Rightarrow> 's) \<Rightarrow> ('s held, unit) op" where
  "file_unlock others h =
     (if lk_file h = Unlocked then (Inl (Panic ''lock file not locked''), h)
      else (Inr (), h\<lparr>lk_file := Unlocked, lk_store := others (lk_store h)\<rparr>))"

definition mem_lock :: "lock_mode \<Rightarrow> ('s held, unit) op" where
  "mem_lock m h =
     (if lk_mem h \<noteq> Unlocked then (Inl (Panic ''in-process lock already locked''), h) else (Inr (), h\<lparr>lk_mem := m\<rparr>))"

definition mem_unlock :: "('s held, unit) op" where
  "mem_unlock h =
     (if lk_mem h = Unlocked then (Inl (Panic ''in-process lock not locked''), h) else (Inr (), h\<lparr>lk_mem := Unlocked\<rparr>))"

definition stop_store :: "('s \<Rightarrow> 's) \<Rightarrow> ('s held, unit) op" where
  "stop_store others = op_seq mem_unlock (file_unlock others)"

text \<open>Running the store's own operations under the locks they require.\<close>

definition check_modified :: "('s, nat \<times> bool) op \<Rightarrow> ('s held, nat \<times> bool) op" where
  "check_modified modified h =
     (if lk_file h = Unlocked \<or> lk_mem h = Unlocked then (Inl (Panic ''modified without locks''), h)
      else case modified (lk_store h) of (r, s) \<Rightarrow> (r, h\<lparr>lk_store := s\<rparr>))"

definition run_reload ::
  "(bool \<Rightarrow> 's \<Rightarrow> (bool \<times> go_error option) \<times> 's) \<Rightarrow> bool \<Rightarrow> ('s held, bool \<times> go_error option) op" where
  "run_reload reload lockedForWriting h =
     (if lk_mem h \<noteq> Writing \<or> lk_file h = Unlocked \<or> lockedForWriting \<and> lk_file h \<noteq> Writing
      then (Inl (Panic ''reload without locks''), h)
      else case reload lockedForWriting (lk_store h) of (r, s) \<Rightarrow> (Inr r, h\<lparr>lk_store := s\<rparr>))"

definition in_process :: "('s held, 'a) op \<Rightarrow> ('s held, 'a) op" where
  "in_process m = op_seq (mem_lock Writing) (op_then m (\<lambda>x. op_seq mem_unlock (op_return x)))"

definition reload_step ::
  "(bool \<Rightarrow> 's \<Rightarrow> (bool \<times> go_error option) \<times> 's) \<Rightarrow> ('s \<Rightarrow> 's) \<Rightarrow> bool \<Rightarrow> ('s held, unit) op" where
  "reload_step reload others lockedForWriting =
     op_then (in_process (run_reload reload lockedForWriting)) (\<lambda>(_, err).
       case err of None \<Rightarrow> op_return () | Some e \<Rightarrow> op_seq (file_unlock others) (op_fail e))"

definition locked_call :: "('s, 'a) op \<Rightarrow> ('s held, 'a) op" where
  "locked_call m h = (case m (lk_store h) of (r, s) \<Rightarrow> (r, h\<lparr>lk_store := s\<rparr>))"

definition startReadingWithReload ::
  "('s, nat \<times> bool) op \<Rightarrow> (bool \<Rightarrow> 's \<Rightarrow> (bool \<times> go_error option) \<times> 's) \<Rightarrow> ('s \<Rightarrow> 's) \<Rightarrow> bool \<Rightarrow> ('s held, unit) op" where
  "startReadingWithReload modified reload others canReload =
     op_seq (file_lock Reading)
    (op_seq (mem_lock Reading)
    (if \<not> canReload then op_return ()
     else op_then (op_cleanup (check_modified modified) (stop_store others)) (\<lambda>(_, changed).
       if \<not> changed then op_return ()
       else op_seq mem_unlock
           (op_seq (op_then (in_process (run_reload reload False)) (\<lambda>(tryLockedForWriting, err).
              case err of
                None \<Rightarrow> op_return ()
              | Some e \<Rightarrow>
                  if \<not> tryLockedForWriting then op_seq (file_unlock others) (op_fail e)
                  else op_seq (file_unlock others)
                      (op_seq (file_lock Writing)
                      (op_seq (reload_step reload others True)
                      (op_seq (file_unlock others)
                      (op_seq (file_lock Reading)
                      (reload_step reload others False)))))))
           (mem_lock Reading)))))"

definition startWritingWithReload ::
  "(bool \<Rightarrow> 's \<Rightarrow> (bool \<times> go_error option) \<times> 's) \<Rightarrow> ('s \<Rightarrow> 's) \<Rightarrow> bool \<Rightarrow> ('s held, unit) op" where
  "startWritingWithReload reload others canReload =
     op_seq (file_lock Writing)
    (op_seq (mem_lock Writing)
    (if \<not> canReload then op_return ()
     else op_then (run_reload reload True) (\<lambda>(_, err).
       case err of
         None \<Rightarrow> op_return ()
       | Some e \<Rightarrow> op_seq (stop_store others) (op_fail e))))"

lemmas lock_defs = file_lock_def file_unlock_def mem_lock_def mem_unlock_def stop_store_def check_modified_def
  run_reload_def in_process_def reload_step_def

text \<open>The lock state of a call: nothing held before, and after it either both locks or none.\<close>

definition unheld :: "'s \<Rightarrow> 's held" where
  "unheld s = \<lparr>lk_file = Unlocked, lk_mem = Unlocked, lk_store = s\<rparr>"

definition held_as :: "lock_mode \<Rightarrow> 's \<Rightarrow> 's held" where
  "held_as m s = \<lparr>lk_file = m, lk_mem = m, lk_store = s\<rparr>"

section \<open>What the protocol does to the store\<close>

text \<open>
  The specification of \<open>startReading\<close>, without locks: check, reload if something changed, and if that
  needs the write lock, reload with it and once more without.
\<close>

definition fresh_read ::
  "('s, nat \<times> bool) op \<Rightarrow> (bool \<Rightarrow> 's \<Rightarrow> (bool \<times> go_error option) \<times> 's) \<Rightarrow> ('s \<Rightarrow> 's) \<Rightarrow> 's \<Rightarrow> go_error option \<times> 's" where
  "fresh_read modified reload others s =
     (case modified s of
        (Inl e, s1) \<Rightarrow> (Some e, others s1)
      | (Inr (_, changed), s1) \<Rightarrow>
          if \<not> changed then (None, s1)
          else (case reload False s1 of
                  ((_, None), s2) \<Rightarrow> (None, s2)
                | ((try, Some e), s2) \<Rightarrow>
                    if \<not> try then (Some e, others s2)
                    else (case reload True (others s2) of
                            ((_, Some e'), s3) \<Rightarrow> (Some e', others s3)
                          | ((_, None), s3) \<Rightarrow>
                              (case reload False (others s3) of
                                 ((_, None), s4) \<Rightarrow> (None, s4)
                               | ((_, Some e'), s4) \<Rightarrow> (Some e', others s4)))))"

text \<open>The pieces of the protocol, on states with the locks they expect.\<close>

lemma in_process_reload:
  assumes "lk_mem h = Unlocked" and "lk_file h = m" and "m \<noteq> Unlocked" and "locked \<longrightarrow> m = Writing"
  shows "in_process (run_reload reload locked) h =
    (Inr (fst (reload locked (lk_store h))), h\<lparr>lk_store := snd (reload locked (lk_store h))\<rparr>)"
  using assms by (simp add: lock_defs op_seq_def op_then_def op_return_def split: prod.split)

lemma reload_step_run:
  assumes "lk_mem h = Unlocked" and "lk_file h = m" and "m \<noteq> Unlocked" and "locked \<longrightarrow> m = Writing"
  shows "reload_step reload others locked h =
    (case reload locked (lk_store h) of
       ((_, None), s) \<Rightarrow> (Inr (), h\<lparr>lk_store := s\<rparr>)
     | ((_, Some e), s) \<Rightarrow> (Inl e, h\<lparr>lk_file := Unlocked, lk_store := others s\<rparr>))"
proof -
  obtain again err s where "reload locked (lk_store h) = ((again, err), s)" by (metis prod.exhaust)
  then show ?thesis
    using in_process_reload [OF assms, of reload] assms(2,3)
    by (cases err) (simp_all add: reload_step_def op_then_def op_seq_def op_return_def op_fail_def file_unlock_def)
qed

lemma startReading_run:
  "startReadingWithReload modified reload others True (unheld s) =
     (case fresh_read modified reload others s of
        (None, t) \<Rightarrow> (Inr (), held_as Reading t)
      | (Some e, t) \<Rightarrow> (Inl e, unheld t))"
proof -
  obtain r s1 where m: "modified s = (r, s1)" by fastforce
  let ?h = "\<lparr>lk_file = Reading, lk_mem = Unlocked, lk_store = s1\<rparr>"
  show ?thesis
  proof (cases r)
    case (Inl e)
    then show ?thesis
      using m by (simp add: startReadingWithReload_def fresh_read_def unheld_def lock_defs op_seq_def op_then_def op_cleanup_def)
  next
    case (Inr x)
    then obtain lw changed where x: "r = Inr (lw, changed)" by (cases x) auto
    obtain again err s2 where rl: "reload False s1 = ((again, err), s2)" by (metis prod.exhaust)
    have "startReadingWithReload modified reload others True (unheld s) =
        (if \<not> changed then (Inr (), held_as Reading s1)
         else op_seq (op_then (in_process (run_reload reload False)) (\<lambda>(tryLockedForWriting, err).
              case err of
                None \<Rightarrow> op_return ()
              | Some e \<Rightarrow>
                  if \<not> tryLockedForWriting then op_seq (file_unlock others) (op_fail e)
                  else op_seq (file_unlock others)
                      (op_seq (file_lock Writing)
                      (op_seq (reload_step reload others True)
                      (op_seq (file_unlock others)
                      (op_seq (file_lock Reading)
                      (reload_step reload others False)))))))
           (mem_lock Reading) ?h)"
      using m x by (simp add: startReadingWithReload_def unheld_def held_as_def file_lock_def mem_lock_def mem_unlock_def
          check_modified_def op_seq_def op_then_def op_cleanup_def op_return_def)
    also have "\<dots> = (case fresh_read modified reload others s of
        (None, t) \<Rightarrow> (Inr (), held_as Reading t) | (Some e, t) \<Rightarrow> (Inl e, unheld t))"
      using m x rl
      by (cases err)
        (auto simp: fresh_read_def op_seq_def op_then_def op_return_def op_fail_def in_process_reload reload_step_run
          file_lock_def file_unlock_def mem_lock_def held_as_def unheld_def split: prod.split option.split)
    finally show ?thesis .
  qed
qed

text \<open>
  C22: \<open>startReading\<close> follows its specification, for every store. Started without locks it never
  deadlocks, never unlocks what it does not hold, never reloads without the in-process lock held
  for writing and never lets a reload save without the lock file held for writing; when it
  succeeds both locks are held for reading, and when it fails none is.
\<close>

theorem startReading_refines:
  "startReadingWithReload modified reload others True (unheld s) =
     (case fresh_read modified reload others s of
        (None, t) \<Rightarrow> (Inr (), held_as Reading t)
      | (Some e, t) \<Rightarrow> (Inl e, unheld t))"
  by (rule startReading_run)

lemma startWriting_refines:
  "startWritingWithReload reload others True (unheld s) =
     (case reload True s of
        ((_, None), t) \<Rightarrow> (Inr (), held_as Writing t)
      | ((_, Some e), t) \<Rightarrow> (Inl e, unheld (others t)))"
  by (auto simp: startWritingWithReload_def unheld_def held_as_def lock_defs op_seq_def op_then_def op_return_def op_fail_def
      split: prod.split option.split)

end
