(* ===== verification/Image_Access.thy ===== *)
theory Image_Access
  imports Image_Load Store_Locks
begin

text \<open>
  Access to the image store: \<open>startReading\<close> and \<open>startWriting\<close> on top of \<open>reloadIfChanged\<close>, the
  constructors, and the garbage collection of data directories.
\<close>

section \<open>Model\<close>

definition image_modified :: "(imageStore, nat \<times> bool) op" where
  "image_modified s = ModifiedSince (lastWrite s) s"

definition image_startReading :: "digest_env \<Rightarrow> (imageStore \<Rightarrow> imageStore) \<Rightarrow> (imageStore held, unit) op" where
  "image_startReading env others = startReadingWithReload image_modified (image_reloadIfChanged env) others True"

definition image_startWriting :: "digest_env \<Rightarrow> (imageStore \<Rightarrow> imageStore) \<Rightarrow> (imageStore held, unit) op" where
  "image_startWriting env others = startWritingWithReload (image_reloadIfChanged env) others True"

text \<open>
  The constructors on what is on disk, given as a store with nothing in memory: creating the
  directory, opening the lock file, reading the mark and loading.
\<close>

definition image_load_op :: "digest_env \<Rightarrow> bool \<Rightarrow> (imageStore, unit) op" where
  "image_load_op env lockedForWriting s =
     (case image_load env lockedForWriting s of ((_, None), s') \<Rightarrow> (Inr (), s') | ((_, Some e), s') \<Rightarrow> (Inl e, s'))"

definition newImageStore :: "digest_env \<Rightarrow> (imageStore, unit) op" where
  "newImageStore env =
     op_seq io_call (op_seq io_call (op_then GetLastWrite (\<lambda>lw.
       op_seq (op_update (\<lambda>s. s\<lparr>lastWrite := lw\<rparr>)) (image_load_op env True))))"

definition newROImageStore :: "digest_env \<Rightarrow> (imageStore, unit) op" where
  "newROImageStore env =
     op_seq io_call (op_then GetLastWrite (\<lambda>lw.
       op_seq (op_update (\<lambda>s. s\<lparr>lastWrite := lw\<rparr>)) (image_load_op env False)))"

definition image_drop_data :: "string \<Rightarrow> imageStore \<Rightarrow> imageStore" where
  "image_drop_data ident s = s\<lparr>i_data := (\<lambda>(j, key). if j = ident then None else i_data s (j, key))\<rparr>"

definition image_GarbageCollect :: "(string \<times> bool) list \<Rightarrow> imageStore \<Rightarrow> go_error option \<times> imageStore" where
  "image_GarbageCollect entries s =
     (case io_call s of
        (Inl e, s1) \<Rightarrow> (Some e, s1)
      | (Inr _, s1) \<Rightarrow> gc_loop (\<lambda>ident. i_byid s1 ident \<noteq> None) image_drop_data entries None s1)"

section \<open>Reading is always fresh\<close>

text \<open>A consistent store over a file with distinct IDs.\<close>

definition image_file_ok :: "(string \<Rightarrow> bool) \<Rightarrow> imageStore \<Rightarrow> bool" where
  "image_file_ok valid s \<longleftrightarrow> image_ok valid s \<and> distinct (map img_ID (i_json s))"

lemma image_file_ok_io [simp]:
  "image_file_ok valid (s\<lparr>faults := fs\<rparr>) = image_file_ok valid s"
  "image_file_ok valid (s\<lparr>lock_disk := n\<rparr>) = image_file_ok valid s"
  "image_file_ok valid (s\<lparr>lastWrite := n\<rparr>) = image_file_ok valid s"
  by (simp_all add: image_file_ok_def)

lemma image_ids_distinct: "image_ok valid s \<Longrightarrow> distinct (map (\<lambda>p. img_ID (i_heap s p)) (i_images s))"
  using images.ident_inj [of valid s] image_okD(1) [of valid s] by (auto simp: distinct_map intro: inj_onI)

lemma image_Save_file_ok: "preserves (image_file_ok valid) image_Save"
proof -
  have "image_file_ok valid s \<Longrightarrow> image_file_ok valid (s\<lparr>i_json := map (json_image \<circ> i_heap s) (i_images s)\<rparr>)" for s
    using image_ids_distinct [of valid s] by (simp add: image_file_ok_def comp_def)
  then show ?thesis unfolding image_Save_def by (intro preserves_intros preserves_update) simp_all
qed

lemma image_load_file_ok:
  assumes "env_ok env" and s: "image_file_ok (Validate env) s" and "image_load env locked s = (r, s')"
  shows "image_file_ok (Validate env) s'"
proof -
  obtain r1 t where calls: "op_seq io_call io_call s = (r1, t)" by fastforce
  obtain fs where t: "t = s\<lparr>faults := fs\<rparr>" by (rule two_calls [OF calls])
  have ft: "image_file_ok (Validate env) t" using s t by simp
  have inst: "image_file_ok (Validate env) (image_installed ld t)"
    if "image_load_all env (IsReadWrite t) (load_start t) (file_addrs t) = Inr ld" for ld
    using image_load_loop(1) [OF assms(1) _ that] ft by (simp add: image_file_ok_def image_installed_def)
  have "image_file_ok (Validate env) (snd (image_Save (image_installed ld t)))"
    if "image_load_all env (IsReadWrite t) (load_start t) (file_addrs t) = Inr ld" for ld
    using image_Save_file_ok inst [OF that] unfolding preserves_def by blast
  with assms(3) ft inst show ?thesis
    unfolding image_load_cases calls
    by (auto split: sum.splits if_splits prod.splits)
qed

lemma image_load_unlocked:
  assumes "image_load env False s = ((again, None), s')"
  shows "lock_disk s' = lock_disk s"
proof -
  obtain r1 t where calls: "op_seq io_call io_call s = (r1, t)" by fastforce
  obtain fs where t: "t = s\<lparr>faults := fs\<rparr>" by (rule two_calls [OF calls])
  show ?thesis
    using assms unfolding image_load_cases calls
    by (auto simp: t image_installed_def split: sum.splits if_splits)
qed

lemma io_call_frame: "io_call s = (r, t) \<Longrightarrow> t = s\<lparr>faults := faults t\<rparr>"
  by (auto simp: io_call_def split: list.splits option.splits)

lemma image_modified_run:
  assumes "image_modified s = (r, t)"
  shows "t = s\<lparr>faults := faults t\<rparr>" and "\<And>lw changed. r = Inr (lw, changed) \<Longrightarrow> lw = lock_disk s \<and> (changed \<longleftrightarrow> lock_disk s \<noteq> lastWrite s)"
proof -
  obtain r1 t1 where c: "io_call s = (r1, t1)" by fastforce
  note f = io_call_frame [OF c]
  have d: "lock_disk t1 = lock_disk s" by (subst f) simp
  show "t = s\<lparr>faults := faults t\<rparr>"
    using assms c f by (cases r1) (auto simp: image_modified_def ModifiedSince_def op_seq_def op_then_def op_read_def op_return_def)
  show "\<And>lw changed. r = Inr (lw, changed) \<Longrightarrow> lw = lock_disk s \<and> (changed \<longleftrightarrow> lock_disk s \<noteq> lastWrite s)"
    using assms c d by (cases r1) (auto simp: image_modified_def ModifiedSince_def op_seq_def op_then_def op_read_def op_return_def)
qed

lemma image_reload_cases:
  "image_reloadIfChanged env locked s =
     (case image_modified s of
        (Inl e, t) \<Rightarrow> ((False, Some e), t)
      | (Inr (lw, changed), t) \<Rightarrow>
          if changed
          then (case image_load env locked t of
                  ((again, Some e), u) \<Rightarrow> ((again, Some e), u)
                | ((_, None), u) \<Rightarrow> ((False, None), u\<lparr>lastWrite := lw\<rparr>))
          else ((False, None), t))"
  by (simp add: image_reloadIfChanged_def image_modified_def)

lemma image_reload_ok:
  assumes "env_ok env" and s: "image_file_ok (Validate env) s" and run: "image_reloadIfChanged env locked s = ((again, err), s')"
  shows "image_file_ok (Validate env) s'" and "err = None \<Longrightarrow> \<not> locked \<Longrightarrow> lastWrite s' = lock_disk s'"
proof -
  obtain r t where m: "image_modified s = (r, t)" by fastforce
  have "image_file_ok (Validate env) (s\<lparr>faults := faults t\<rparr>)" using s by simp
  then have ft: "image_file_ok (Validate env) t" using image_modified_run(1) [OF m] by metis
  have keep: "lock_disk t = lock_disk s" "lastWrite t = lastWrite s"
    by (subst image_modified_run(1) [OF m], simp)+
  obtain lr u where l: "image_load env locked t = (lr, u)" by fastforce
  have fu: "image_file_ok (Validate env) u" by (rule image_load_file_ok [OF assms(1) ft l])
  show "image_file_ok (Validate env) s'"
    using run ft fu unfolding image_reload_cases m prod.case l
    by (auto split: sum.splits if_splits option.splits prod.splits)
  show "lastWrite s' = lock_disk s'" if "err = None" "\<not> locked"
    using run l that image_load_unlocked [of env t] keep image_modified_run(2) [OF m]
    unfolding image_reload_cases m prod.case
    by (auto split: sum.splits if_splits option.splits prod.splits)
qed


lemma image_load_quiet:
  assumes "env_ok env" and "distinct (map img_ID (i_json s))" and "faults s = []"
    and "\<forall>i \<in> set (i_json s). \<exists>j. recomputeDigests env i = Inr j"
  obtains ld where "image_load_all env (IsReadWrite s) (load_start s) (file_addrs s) = Inr ld"
    and "image_ok (Validate env) (image_installed ld s)"
    and "image_load env locked s =
      (if ld_dup ld \<and> \<not> IsReadWrite s then ((False, Some ErrDuplicateImageNames), s)
       else if ld_dup ld \<and> \<not> locked then ((True, Some ErrDuplicateImageNames), s)
       else if ld_dup ld
            then (case image_Save (image_installed ld s) of
                    (Inl e, s2) \<Rightarrow> ((False, Some e), s2) | (Inr _, s2) \<Rightarrow> ((False, None), s2))
            else ((False, None), image_installed ld s))"
proof -
  have start: "load_ok (Validate env) (file_heap s) [] (load_start s)" by (simp add: load_ok_def load_start_def)
  have dist: "distinct (map (\<lambda>p. img_ID (file_heap s p)) ([] @ file_addrs s))"
    using assms(2) by (simp add: file_heap_map [of img_ID, simplified])
  have "\<exists>i. recomputeDigests env (file_heap s p) = Inr i" if "p \<in> set (file_addrs s)" for p
  proof -
    have "file_heap s p \<in> set (i_json s)" using that by (simp add: alloc_images_def) (metis add_less_cancel_left le_add_diff_inverse nth_mem)
    then show ?thesis using assms(4) by blast
  qed
  then obtain ld where ld: "image_load_all env (IsReadWrite s) (load_start s) (file_addrs s) = Inr ld"
    using image_load_all_total [OF assms(1) start dist] by blast
  show thesis
    by (rule that [OF ld image_load_loop(1) [OF assms(1,2) ld]])
      (simp add: image_load_cases op_seq_def op_then_def assms(3) ld)
qed

text \<open>The state after loading with the write lock, when names had to be taken away.\<close>

lemma image_load_healed:
  assumes "env_ok env" and "distinct (map img_ID (i_json s))" and "faults s = []" and "IsReadWrite s"
    and "\<forall>i \<in> set (i_json s). \<exists>j. recomputeDigests env i = Inr j"
    and "image_load env False s = ((True, err), t)"
  obtains u where "t = s" and "image_load env True s = ((False, None), u)" and "image_ok (Validate env) u"
    and "i_json u = map (json_image \<circ> i_heap u) (i_images u)" and "faults u = []" and "IsReadWrite u"
proof -
  let ?P = "\<lambda>u. image_ok (Validate env) u \<and> faults u = [] \<and> IsReadWrite u"
  obtain ld where inst: "image_ok (Validate env) (image_installed ld s)"
    and loadF: "image_load env False s = (if ld_dup ld then ((True, Some ErrDuplicateImageNames), s) else ((False, None), image_installed ld s))"
    and ld: "image_load_all env (IsReadWrite s) (load_start s) (file_addrs s) = Inr ld"
    by (rule image_load_quiet [OF assms(1-3,5), where locked = False]) (use assms(4) in simp)
  have dup: "ld_dup ld" "t = s" using loadF assms(6) by (auto split: if_splits)
  have "completes ?P image_Save" by (rule image_Save_completes) auto
  moreover have "?P (image_installed ld s)" using inst assms(3,4) by (simp add: image_installed_def)
  ultimately obtain x u where save: "image_Save (image_installed ld s) = (Inr x, u)" and u: "?P u"
    unfolding completes_def succeeded_def by (metis prod.collapse)
  have "image_load env True s = ((False, None), u)"
    using dup(1) save assms(3,4) ld by (simp add: image_load_cases op_seq_def op_then_def)
  moreover have "i_json u = map (json_image \<circ> i_heap u) (i_images u)"
    using establishesD [OF image_Save_saved [of "\<lambda>_. True"] TrueI save] by (simp add: image_saved_def)
  ultimately show thesis using that dup(2) u by blast
qed


definition twins :: imageStore where
  "twins = empty_images\<lparr>i_json := [(new_image 1 ''a1'' [''x'', ''y''] ''l1'' no_options), (new_image 1 ''b2'' [''x''] ''l2'' no_options)],
     lock_disk := 1\<rparr>"



section \<open>Garbage collection\<close>

text \<open>Garbage collection only removes data of images the store does not have, and all that the directory lists.\<close>

lemma image_drop_fold:
  "i_data (fold image_drop_data js s) (j, key) = (if j \<in> set js then None else i_data s (j, key))"
  by (induction js arbitrary: s) (auto simp: image_drop_data_def)

lemma image_GarbageCollect_safe:
  assumes "image_GarbageCollect entries s = (err, t)"
  shows "i_byid s j \<noteq> None \<Longrightarrow> i_data t (j, key) = i_data s (j, key)"
    and "faults s = [] \<Longrightarrow> err = None \<and> ((j, True) \<in> set entries \<and> ValidateID j \<and> i_byid s j = None \<longrightarrow> i_data t (j, key) = None)"
proof -
  obtain r s1 where c: "io_call s = (r, s1)" by fastforce
  have s1: "i_byid s1 = i_byid s" "i_data s1 = i_data s" by (subst io_call_frame [OF c], simp)+
  show "i_data t (j, key) = i_data s (j, key)" if j: "i_byid s j \<noteq> None"
  proof (cases r)
    case (Inr u)
    then have t: "t = snd (gc_loop (\<lambda>ident. i_byid s1 ident \<noteq> None) image_drop_data entries None s1)"
      using assms c by (simp add: image_GarbageCollect_def)
    show ?thesis
      unfolding t
      by (rule gc_loop_preserves [where P = "\<lambda>u. i_data u (j, key) = i_data s (j, key)"])
        (use j s1 in \<open>auto simp: image_drop_data_def\<close>)
  qed (use assms c s1 in \<open>auto simp: image_GarbageCollect_def\<close>)
  have "\<And>ident s. faults (image_drop_data ident s) = faults s" by (simp add: image_drop_data_def)
  note quiet = gc_loop_quiet [where remove = image_drop_data, OF this]
  show "err = None \<and> ((j, True) \<in> set entries \<and> ValidateID j \<and> i_byid s j = None \<longrightarrow> i_data t (j, key) = None)" if "faults s = []"
  proof -
    have "(err, t) = gc_loop (\<lambda>ident. i_byid s ident \<noteq> None) image_drop_data entries None s"
      using assms that by (simp add: image_GarbageCollect_def)
    then show ?thesis unfolding quiet [OF that] by (force simp: image_drop_fold)
  qed
qed

end
