(* ===== verification/Container_Store.thy ===== *)
theory Container_Store
  imports Store_Locks Big_Data_Names Id_Set
begin

text \<open>
  \<open>storage/containers.go\<close>: the container store. It follows the image store, with three differences:
  there is a further map from layers to containers, there is no digest index, and the records
  are split over two files by the location a container belongs to. The files are the two lists of
  \<open>c_json\<close>; \<open>c_data\<close> has the big data files. The digest of a byte string belongs to the digest
  library and is the argument \<open>from_bytes\<close>.
\<close>

section \<open>State\<close>

datatype location = stableContainerLocation | volatileContainerLocation

record Container =
  ctr_ID :: string
  ctr_Names :: "string list"
  ctr_ImageID :: string
  ctr_LayerID :: string
  ctr_Metadata :: string
  ctr_BigDataNames :: "string list"
  ctr_BigDataSizes :: "string \<rightharpoonup> int"
  ctr_BigDataDigests :: "string \<rightharpoonup> string"
  ctr_Created :: int
  ctr_UIDMap :: "IDMap list"
  ctr_GIDMap :: "IDMap list"
  ctr_Flags :: "string \<rightharpoonup> flag_value"
  ctr_volatileStore :: bool

record containerStore = store_io +
  c_heap :: "nat \<Rightarrow> Container"
  c_next :: nat
  c_containers :: "nat list"
  c_idindex :: TruncIndex
  c_byid :: "string \<rightharpoonup> nat"
  c_bylayer :: "string \<rightharpoonup> nat"
  c_byname :: "string \<rightharpoonup> nat"
  c_json :: "location \<Rightarrow> Container list"
  c_data :: "string \<times> string \<rightharpoonup> string"

abbreviation upd_container :: "nat \<Rightarrow> (Container \<Rightarrow> Container) \<Rightarrow> containerStore \<Rightarrow> containerStore" where
  "upd_container p f s \<equiv> s\<lparr>c_heap := (c_heap s)(p := f (c_heap s p))\<rparr>"

text \<open>Labels and mount options kept among the flags.\<close>

definition ctr_MountLabel :: "Container \<Rightarrow> string" where
  "ctr_MountLabel c = (case ctr_Flags c ''MountLabel'' of Some (FlagString l) \<Rightarrow> l | _ \<Rightarrow> '''')"

definition ctr_ProcessLabel :: "Container \<Rightarrow> string" where
  "ctr_ProcessLabel c = (case ctr_Flags c ''ProcessLabel'' of Some (FlagString l) \<Rightarrow> l | _ \<Rightarrow> '''')"

fun flag_string :: "flag_value \<Rightarrow> string option" where
  "flag_string (FlagString s) = Some s"
| "flag_string _ = None"

definition ctr_MountOpts :: "Container \<Rightarrow> string list" where
  "ctr_MountOpts c =
     (case ctr_Flags c ''MountOpts'' of
        Some (FlagStrings xs) \<Rightarrow> xs
      | Some (FlagList vs) \<Rightarrow> List.map_filter flag_string vs
      | _ \<Rightarrow> [])"

definition containerLocation :: "Container \<Rightarrow> location" where
  "containerLocation c = (if ctr_volatileStore c then volatileContainerLocation else stableContainerLocation)"

section \<open>Saving and loading\<close>

definition json_container :: "Container \<Rightarrow> Container" where
  "json_container c = c\<lparr>ctr_Flags := json_flags (ctr_Flags c), ctr_volatileStore := False\<rparr>"

definition save_location :: "location set \<Rightarrow> location \<Rightarrow> (containerStore, unit) op" where
  "save_location saveLocations location =
     (if location \<notin> saveLocations then op_return ()
      else op_seq io_call
          (op_seq io_call
          (op_seq io_call
          (op_update (\<lambda>s. s\<lparr>c_json := (c_json s)(location :=
             map json_container (filter (\<lambda>c. containerLocation c = location) (map (c_heap s) (c_containers s))))\<rparr>)))))"

definition container_save :: "location set \<Rightarrow> (containerStore, unit) op" where
  "container_save saveLocations =
     op_then RecordWrite (\<lambda>lw.
       op_seq (op_update (\<lambda>s. s\<lparr>lastWrite := lw\<rparr>))
      (op_seq (save_location saveLocations stableContainerLocation)
      (save_location saveLocations volatileContainerLocation)))"

definition container_saveFor :: "nat \<Rightarrow> (containerStore, unit) op" where
  "container_saveFor p = op_read (\<lambda>s. containerLocation (c_heap s p)) (\<lambda>location. container_save {location})"

definition container_removeName :: "nat \<Rightarrow> string \<Rightarrow> (nat \<Rightarrow> Container) \<Rightarrow> (nat \<Rightarrow> Container)" where
  "container_removeName p name h = h(p := (h p)\<lparr>ctr_Names := stringSliceWithoutValue (ctr_Names (h p)) name\<rparr>)"

text \<open>The records of one file that are not duplicates of one before, marked with where they came from.\<close>

fun load_records :: "string list \<Rightarrow> bool \<Rightarrow> Container list \<Rightarrow> Container list" where
  "load_records ids vol [] = []"
| "load_records ids vol (c # cs) =
     (if ctr_ID c \<in> set ids then load_records ids vol cs
      else c\<lparr>ctr_volatileStore := vol\<rparr> # load_records (ctr_ID c # ids) vol cs)"

record container_loading =
  cl_heap :: "nat \<Rightarrow> Container"
  cl_layers :: "string \<rightharpoonup> nat"
  cl_names :: "string \<rightharpoonup> nat"
  cl_idlist :: "string list"
  cl_modified :: "location set"

definition load_name :: "nat \<Rightarrow> container_loading \<Rightarrow> string \<Rightarrow> container_loading" where
  "load_name p ld name =
     (let ld1 = (case cl_names ld name of
                   None \<Rightarrow> ld
                 | Some conflict \<Rightarrow>
                     ld\<lparr>cl_heap := container_removeName conflict name (cl_heap ld),
                        cl_modified := insert (containerLocation (cl_heap ld p)) (cl_modified ld)\<rparr>)
      in ld1\<lparr>cl_names := (cl_names ld1)(name \<mapsto> p)\<rparr>)"

definition load_container :: "container_loading \<Rightarrow> nat \<Rightarrow> container_loading" where
  "load_container ld p =
     (let c = cl_heap ld p
      in foldl (load_name p)
           (ld\<lparr>cl_idlist := cl_idlist ld @ [ctr_ID c], cl_layers := (cl_layers ld)(ctr_LayerID c \<mapsto> p)\<rparr>) (ctr_Names c))"

definition alloc_containers :: "nat \<Rightarrow> Container list \<Rightarrow> (nat \<Rightarrow> Container) \<Rightarrow> (nat \<Rightarrow> Container)" where
  "alloc_containers n cs h = (\<lambda>p. if n \<le> p \<and> p < n + length cs then cs ! (p - n) else h p)"

definition container_records :: "containerStore \<Rightarrow> Container list" where
  "container_records s =
     (let stable = load_records [] False (c_json s stableContainerLocation)
      in stable @ load_records (map ctr_ID stable) True (c_json s volatileContainerLocation))"

definition container_load_loop :: "containerStore \<Rightarrow> container_loading" where
  "container_load_loop s =
     foldl load_container
       \<lparr>cl_heap = alloc_containers (c_next s) (container_records s) (c_heap s), cl_layers = Map.empty, cl_names = Map.empty,
        cl_idlist = [], cl_modified = {}\<rparr>
       [c_next s ..< c_next s + length (container_records s)]"

definition container_installed :: "containerStore \<Rightarrow> containerStore" where
  "container_installed s =
     (let ld = container_load_loop s; cs = container_records s; ps = [c_next s ..< c_next s + length cs]
      in s\<lparr>c_heap := cl_heap ld, c_next := c_next s + length cs, c_containers := ps,
           c_idindex := NewTruncIndex (cl_idlist ld),
           c_byid := map_of (zip (map ctr_ID cs) ps),
           c_bylayer := cl_layers ld, c_byname := cl_names ld\<rparr>)"

text \<open>
  \<open>load\<close>: reading and decoding are two calls for each of the two files. The store in memory is
  replaced even when the caller has to come back with the write lock.
\<close>

definition container_load :: "bool \<Rightarrow> containerStore \<Rightarrow> (bool \<times> go_error option) \<times> containerStore" where
  "container_load lockedForWriting s0 =
     (case op_seq io_call (op_seq io_call (op_seq io_call io_call)) s0 of
        (Inl e, s) \<Rightarrow> ((False, Some e), s)
      | (Inr _, s) \<Rightarrow>
          (let modified = cl_modified (container_load_loop s); s1 = container_installed s
           in if modified = {} then ((False, None), s1)
              else if \<not> lockedForWriting then ((True, Some (ErrFmt ''container store is inconsistent'')), s1)
              else (case container_save modified s1 of
                      (Inl e, s2) \<Rightarrow> ((False, Some e), s2)
                    | (Inr _, s2) \<Rightarrow> ((False, None), s2))))"

definition container_modified :: "(containerStore, nat \<times> bool) op" where
  "container_modified s = ModifiedSince (lastWrite s) s"

definition container_reloadIfChanged :: "bool \<Rightarrow> containerStore \<Rightarrow> (bool \<times> go_error option) \<times> containerStore" where
  "container_reloadIfChanged lockedForWriting s0 =
     (case container_modified s0 of
        (Inl e, s) \<Rightarrow> ((False, Some e), s)
      | (Inr (lw, changed), s) \<Rightarrow>
          if changed
          then (case container_load lockedForWriting s of
                  ((again, Some e), s1) \<Rightarrow> ((again, Some e), s1)
                | ((_, None), s1) \<Rightarrow> ((False, None), s1\<lparr>lastWrite := lw\<rparr>))
          else ((False, None), s))"

definition container_startReading :: "(containerStore \<Rightarrow> containerStore) \<Rightarrow> (containerStore held, unit) op" where
  "container_startReading others = startReadingWithReload container_modified container_reloadIfChanged others True"

definition container_startWriting :: "(containerStore \<Rightarrow> containerStore) \<Rightarrow> (containerStore held, unit) op" where
  "container_startWriting others = startWritingWithReload container_reloadIfChanged others True"

definition container_load_op :: "bool \<Rightarrow> (containerStore, unit) op" where
  "container_load_op lockedForWriting s =
     (case container_load lockedForWriting s of ((_, None), s') \<Rightarrow> (Inr (), s') | ((_, Some e), s') \<Rightarrow> (Inl e, s'))"

text \<open>
  \<open>newContainerStore\<close> on what is on disk, given as a store with nothing in memory. Only the load
  releases the locks when it fails.
\<close>

definition newContainerStore :: "(containerStore \<Rightarrow> containerStore) \<Rightarrow> bool \<Rightarrow> (containerStore held, unit) op" where
  "newContainerStore others transient =
     op_seq (locked_call io_call)
    (op_seq (if transient then locked_call io_call else op_return ())
    (op_seq (locked_call io_call)
    (op_seq (startWritingWithReload container_reloadIfChanged others False)
    (op_then (locked_call GetLastWrite) (\<lambda>lw.
     op_seq (op_update (\<lambda>h. h\<lparr>lk_store := (lk_store h)\<lparr>lastWrite := lw\<rparr>\<rparr>))
    (op_seq (op_cleanup (locked_call (container_load_op True)) (stop_store others))
    (stop_store others)))))))"

section \<open>Looking up\<close>

definition container_lookup :: "containerStore \<Rightarrow> string \<Rightarrow> nat option" where
  "container_lookup s k =
     (case c_byid s k of
        Some p \<Rightarrow> Some p
      | None \<Rightarrow>
          (case c_byname s k of
             Some p \<Rightarrow> Some p
           | None \<Rightarrow>
               (case c_bylayer s k of
                  Some p \<Rightarrow> Some p
                | None \<Rightarrow>
                    (case index_Get (c_idindex s) k of
                       Inr longid \<Rightarrow> c_byid s longid
                     | Inl _ \<Rightarrow> None))))"

definition with_container :: "string \<Rightarrow> (nat \<Rightarrow> (containerStore, 'a) op) \<Rightarrow> (containerStore, 'a) op" where
  "with_container k f =
     op_read (\<lambda>s. container_lookup s k) (\<lambda>r. case r of None \<Rightarrow> op_fail ErrContainerUnknown | Some p \<Rightarrow> f p)"

definition container_Containers :: "containerStore \<Rightarrow> Container list" where
  "container_Containers s = map (c_heap s) (c_containers s)"

definition container_Get :: "containerStore \<Rightarrow> string \<Rightarrow> Container res" where
  "container_Get s k = (case container_lookup s k of Some p \<Rightarrow> Inr (c_heap s p) | None \<Rightarrow> Inl ErrContainerUnknown)"

definition container_Lookup :: "containerStore \<Rightarrow> string \<Rightarrow> string res" where
  "container_Lookup s name =
     (case container_lookup s name of Some p \<Rightarrow> Inr (ctr_ID (c_heap s p)) | None \<Rightarrow> Inl ErrContainerUnknown)"

definition container_Exists :: "containerStore \<Rightarrow> string \<Rightarrow> bool" where
  "container_Exists s k \<longleftrightarrow> container_lookup s k \<noteq> None"

definition container_GetMetadata :: "containerStore \<Rightarrow> string \<Rightarrow> string res" where
  "container_GetMetadata s k =
     (case container_lookup s k of Some p \<Rightarrow> Inr (ctr_Metadata (c_heap s p)) | None \<Rightarrow> Inl ErrContainerUnknown)"

section \<open>Changing records\<close>

definition container_ClearFlag :: "string \<Rightarrow> string \<Rightarrow> (containerStore, unit) op" where
  "container_ClearFlag k flag =
     with_container k (\<lambda>p.
       op_seq (op_update (upd_container p (\<lambda>c. c\<lparr>ctr_Flags := (ctr_Flags c)(flag := None)\<rparr>))) (container_saveFor p))"

definition container_SetFlag :: "string \<Rightarrow> string \<Rightarrow> flag_value \<Rightarrow> (containerStore, unit) op" where
  "container_SetFlag k flag v =
     with_container k (\<lambda>p.
       op_seq (op_update (upd_container p (\<lambda>c. c\<lparr>ctr_Flags := (ctr_Flags c)(flag \<mapsto> v)\<rparr>))) (container_saveFor p))"

definition container_SetMetadata :: "string \<Rightarrow> string \<Rightarrow> (containerStore, unit) op" where
  "container_SetMetadata k metadata =
     with_container k (\<lambda>p.
       op_seq (op_update (upd_container p (\<lambda>c. c\<lparr>ctr_Metadata := metadata\<rparr>))) (container_saveFor p))"

definition container_take_name :: "nat \<Rightarrow> containerStore \<Rightarrow> string \<Rightarrow> containerStore" where
  "container_take_name p s name =
     (let s1 = (case c_byname s name of
                  Some q \<Rightarrow> s\<lparr>c_heap := container_removeName q name (c_heap s)\<rparr>
                | None \<Rightarrow> s)
      in s1\<lparr>c_byname := (c_byname s1)(name \<mapsto> p)\<rparr>)"

definition container_updateNames :: "string \<Rightarrow> string list \<Rightarrow> updateNameOperation \<Rightarrow> (containerStore, unit) op" where
  "container_updateNames k names op =
     with_container k (\<lambda>p. op_read (\<lambda>s. ctr_Names (c_heap s p)) (\<lambda>oldNames.
       case applyNameOperation oldNames names op of
         Inl e \<Rightarrow> op_fail e
       | Inr newNames \<Rightarrow>
           op_seq (op_update (\<lambda>s. s\<lparr>c_byname := del_all oldNames (c_byname s)\<rparr>))
          (op_seq (op_update (\<lambda>s. foldl (container_take_name p) s newNames))
          (op_seq (op_update (upd_container p (\<lambda>c. c\<lparr>ctr_Names := newNames\<rparr>))) (container_saveFor p)))))"

definition container_unlink :: "nat \<Rightarrow> containerStore \<Rightarrow> containerStore" where
  "container_unlink p s =
     (let c = c_heap s p
      in s\<lparr>c_byid := (c_byid s)(ctr_ID c := None),
           c_idindex := fst (index_Delete (c_idindex s) (ctr_ID c)),
           c_bylayer := (c_bylayer s)(ctr_LayerID c := None),
           c_byname := del_all (ctr_Names c) (c_byname s),
           c_containers := filter (\<lambda>q. ctr_ID (c_heap s q) \<noteq> ctr_ID c) (c_containers s)\<rparr>)"

definition container_drop_data :: "string \<Rightarrow> containerStore \<Rightarrow> containerStore" where
  "container_drop_data ident s = s\<lparr>c_data := (\<lambda>(j, key). if j = ident then None else c_data s (j, key))\<rparr>"

definition container_Delete :: "string \<Rightarrow> (containerStore, unit) op" where
  "container_Delete k =
     with_container k (\<lambda>p. op_read (\<lambda>s. ctr_ID (c_heap s p)) (\<lambda>ident.
       op_seq (op_update (container_unlink p))
      (op_seq (container_saveFor p)
      (op_seq io_call
      (op_update (container_drop_data ident))))))"

text \<open>\<open>ids\<close> are the identifiers of the store, in the order the iteration over the map yields them.\<close>

definition container_Wipe :: "string list \<Rightarrow> (containerStore, unit) op" where
  "container_Wipe ids = op_each container_Delete ids"

definition container_GarbageCollect :: "(string \<times> bool) list \<Rightarrow> containerStore \<Rightarrow> go_error option \<times> containerStore" where
  "container_GarbageCollect entries s =
     (case io_call s of
        (Inl e, s1) \<Rightarrow> (Some e, s1)
      | (Inr _, s1) \<Rightarrow> gc_loop (\<lambda>ident. c_byid s1 ident \<noteq> None) container_drop_data entries None s1)"

section \<open>Big data\<close>

definition container_BigData :: "string \<Rightarrow> string \<Rightarrow> (containerStore, string) op" where
  "container_BigData k key =
     (if key = '''' then op_fail ErrInvalidBigDataName
      else with_container k (\<lambda>p. op_seq io_call (op_read (\<lambda>s. c_data s (ctr_ID (c_heap s p), makeBigDataBaseName key)) (\<lambda>r.
             case r of None \<Rightarrow> op_fail ErrNotExist | Some d \<Rightarrow> op_return d))))"

definition container_note_data :: "string \<Rightarrow> string \<Rightarrow> string \<Rightarrow> Container \<Rightarrow> Container" where
  "container_note_data key data newDigest c =
     c\<lparr>ctr_BigDataSizes := (ctr_BigDataSizes c)(key \<mapsto> int (length data)),
       ctr_BigDataDigests := (ctr_BigDataDigests c)(key \<mapsto> newDigest),
       ctr_BigDataNames := (if key \<in> set (ctr_BigDataNames c) then ctr_BigDataNames c
                            else ctr_BigDataNames c @ [key])\<rparr>"

definition container_data_changed :: "string \<Rightarrow> string \<Rightarrow> string \<Rightarrow> Container \<Rightarrow> bool" where
  "container_data_changed key data newDigest c \<longleftrightarrow>
     ctr_BigDataSizes c key \<noteq> Some (int (length data)) \<or> ctr_BigDataDigests c key \<noteq> Some newDigest
     \<or> key \<notin> set (ctr_BigDataNames c)"

definition container_SetBigData :: "(string \<Rightarrow> string) \<Rightarrow> string \<Rightarrow> string \<Rightarrow> string \<Rightarrow> (containerStore, unit) op" where
  "container_SetBigData from_bytes k key data =
     (if key = '''' then op_fail ErrInvalidBigDataName
      else with_container k (\<lambda>p.
        op_seq io_call
       (op_seq io_call
       (op_seq (op_update (\<lambda>s. s\<lparr>c_data := (c_data s)((ctr_ID (c_heap s p), makeBigDataBaseName key) \<mapsto> data)\<rparr>))
       (op_read (\<lambda>s. container_data_changed key data (from_bytes data) (c_heap s p)) (\<lambda>save.
        op_seq (op_update (upd_container p (container_note_data key data (from_bytes data))))
          (if save then container_saveFor p else op_return ())))))))"

text \<open>
  Sizes and digests that are not recorded are computed by reading the item and writing it again;
  \<open>field\<close> is the map of the record that is asked for.
\<close>

definition container_data_info ::
  "(string \<Rightarrow> string) \<Rightarrow> (Container \<Rightarrow> string \<rightharpoonup> 'a) \<Rightarrow> go_error \<Rightarrow> string \<Rightarrow> string \<Rightarrow> (containerStore, 'a) op" where
  "container_data_info from_bytes field missing k key =
     (if key = '''' then op_fail ErrInvalidBigDataName
      else with_container k (\<lambda>p. op_read (\<lambda>s. field (c_heap s p) key) (\<lambda>r.
        case r of
          Some x \<Rightarrow> op_return x
        | None \<Rightarrow>
            (\<lambda>s. case container_BigData k key s of
                    (Inl _, s1) \<Rightarrow> (Inl missing, s1)
                  | (Inr data, s1) \<Rightarrow>
                      op_seq (container_SetBigData from_bytes k key data)
                        (with_container k (\<lambda>p. op_read (\<lambda>s. field (c_heap s p) key) (\<lambda>r.
                           case r of Some x \<Rightarrow> op_return x | None \<Rightarrow> op_fail missing))) s1))))"

definition container_BigDataSize :: "(string \<Rightarrow> string) \<Rightarrow> string \<Rightarrow> string \<Rightarrow> (containerStore, int) op" where
  "container_BigDataSize from_bytes = container_data_info from_bytes ctr_BigDataSizes ErrSizeUnknown"

definition container_BigDataDigest :: "(string \<Rightarrow> string) \<Rightarrow> string \<Rightarrow> string \<Rightarrow> (containerStore, string) op" where
  "container_BigDataDigest from_bytes = container_data_info from_bytes ctr_BigDataDigests ErrDigestUnknown"

definition container_GetBigDataNames :: "containerStore \<Rightarrow> string \<Rightarrow> string list res" where
  "container_GetBigDataNames s k =
     (case container_lookup s k of Some p \<Rightarrow> Inr (ctr_BigDataNames (c_heap s p)) | None \<Rightarrow> Inl ErrContainerUnknown)"

section \<open>Creation\<close>

record ContainerOptions =
  copt_UIDMap :: "IDMap list"
  copt_GIDMap :: "IDMap list"
  copt_Flags :: "string \<rightharpoonup> flag_value"
  copt_MountOpts :: "string list option"
  copt_Volatile :: bool
  copt_Metadata :: string
  copt_BigData :: "(string \<times> string) list"

definition new_container :: "int \<Rightarrow> string \<Rightarrow> string list \<Rightarrow> string \<Rightarrow> string \<Rightarrow> ContainerOptions \<Rightarrow> Container" where
  "new_container now ident names imageID layer options =
     \<lparr>ctr_ID = ident, ctr_Names = names, ctr_ImageID = imageID, ctr_LayerID = layer, ctr_Metadata = copt_Metadata options,
      ctr_BigDataNames = [], ctr_BigDataSizes = Map.empty, ctr_BigDataDigests = Map.empty, ctr_Created = now,
      ctr_UIDMap = copt_UIDMap options, ctr_GIDMap = copt_GIDMap options,
      ctr_Flags =
        (let flags1 = (case copt_MountOpts options of
                         None \<Rightarrow> copt_Flags options
                       | Some opts \<Rightarrow> (copt_Flags options)(''MountOpts'' \<mapsto> FlagStrings opts))
         in if copt_Volatile options then flags1(''Volatile'' \<mapsto> FlagBool True) else flags1),
      ctr_volatileStore = copt_Volatile options\<rparr>"

definition container_link :: "nat \<Rightarrow> Container \<Rightarrow> containerStore \<Rightarrow> containerStore" where
  "container_link p c s =
     s\<lparr>c_heap := (c_heap s)(p := c), c_next := Suc p, c_containers := c_containers s @ [p],
       c_idindex := fst (index_Add (c_idindex s) (ctr_ID c)),
       c_byid := (c_byid s)(ctr_ID c \<mapsto> p),
       c_bylayer := (c_bylayer s)(ctr_LayerID c \<mapsto> p),
       c_byname := put_all (ctr_Names c) p (c_byname s)\<rparr>"

definition container_finish :: "(string \<Rightarrow> string) \<Rightarrow> nat \<Rightarrow> string \<Rightarrow> (string \<times> string) list \<Rightarrow> (containerStore, Container) op" where
  "container_finish from_bytes p ident items =
     op_seq (container_saveFor p)
    (op_seq (op_each (\<lambda>(key, data). container_SetBigData from_bytes ident key data) items)
    (op_read (\<lambda>s. c_heap s p) op_return))"

definition container_create ::
  "(string \<Rightarrow> string) \<Rightarrow> int \<Rightarrow> string list \<Rightarrow> string \<Rightarrow> string list \<Rightarrow> string \<Rightarrow> string \<Rightarrow> ContainerOptions \<Rightarrow>
     (containerStore, Container) op" where
  "container_create from_bytes now draws k names0 imageID layer options =
     op_read (\<lambda>s. if k = '''' then fresh_id (\<lambda>j. c_byid s j \<noteq> None) draws else Some k) (\<lambda>chosen.
       case chosen of
         None \<Rightarrow> op_fail (Panic ''random source'')
       | Some ident \<Rightarrow>
           op_read (\<lambda>s. (c_byid s ident, c_byname s, c_next s)) (\<lambda>(inUse, byname, p).
             if inUse \<noteq> None then op_fail ErrDuplicateID
             else let names = dedupeStrings names0
                  in if \<exists>n \<in> set names. byname n \<noteq> None then op_fail ErrDuplicateName
                     else (case hasOverlappingRanges (copt_UIDMap options) of
                             Some e \<Rightarrow> op_fail e
                           | None \<Rightarrow>
                               (case hasOverlappingRanges (copt_GIDMap options) of
                                  Some e \<Rightarrow> op_fail e
                                | None \<Rightarrow>
                                    op_seq (op_update (container_link p (new_container now ident names imageID layer options)))
                                      (op_cleanup (container_finish from_bytes p ident (copt_BigData options)) (container_Delete ident))))))"

section \<open>Invariant\<close>

text \<open>
  The maps lead to exactly the containers with the key; a layer may belong to several containers, of
  which the map knows at most one.
\<close>

definition container_ok :: "containerStore \<Rightarrow> bool" where
  "container_ok s \<longleftrightarrow>
     distinct (c_containers s) \<and> (\<forall>p \<in> set (c_containers s). p < c_next s)
     \<and> map_ok (\<lambda>p. {ctr_ID (c_heap s p)}) (set (c_containers s)) (c_byid s)
     \<and> map_ok (\<lambda>p. set (ctr_Names (c_heap s p))) (set (c_containers s)) (c_byname s)
     \<and> (\<forall>k p. c_bylayer s k = Some p \<longrightarrow> p \<in> set (c_containers s) \<and> ctr_LayerID (c_heap s p) = k)
     \<and> trunc.mirrors (c_idindex s) (dom (c_byid s))"

lemma container_okD:
  assumes "container_ok s"
  shows "distinct (c_containers s)" and "\<And>p. p \<in> set (c_containers s) \<Longrightarrow> p < c_next s"
    and "map_ok (\<lambda>p. {ctr_ID (c_heap s p)}) (set (c_containers s)) (c_byid s)"
    and "map_ok (\<lambda>p. set (ctr_Names (c_heap s p))) (set (c_containers s)) (c_byname s)"
    and "\<And>k p. c_bylayer s k = Some p \<Longrightarrow> p \<in> set (c_containers s) \<and> ctr_LayerID (c_heap s p) = k"
    and "trunc.mirrors (c_idindex s) (dom (c_byid s))"
  using assms unfolding container_ok_def by blast+

lemma container_ok_io [simp]:
  "container_ok (s\<lparr>faults := fs\<rparr>) = container_ok s" "container_ok (s\<lparr>lock_disk := n\<rparr>) = container_ok s"
  "container_ok (s\<lparr>lastWrite := n\<rparr>) = container_ok s" "container_ok (s\<lparr>c_json := js\<rparr>) = container_ok s"
  "container_ok (s\<lparr>c_data := dat\<rparr>) = container_ok s" "container_ok (container_drop_data k s) = container_ok s"
  by (simp_all add: container_ok_def container_drop_data_def)

interpretation containers: record_store container_ok c_containers "\<lambda>s p. ctr_ID (c_heap s p)" "\<lambda>s p. ctr_Names (c_heap s p)"
  c_byid c_byname c_bylayer c_idindex container_lookup
  by unfold_locales (auto simp: container_okD container_lookup_def dest: container_okD(5))

lemma container_ok_heap:
  assumes "container_ok s"
    and same: "\<And>q. q \<in> set (c_containers s) \<Longrightarrow> ctr_ID (h q) = ctr_ID (c_heap s q)
      \<and> ctr_Names (h q) = ctr_Names (c_heap s q) \<and> ctr_LayerID (h q) = ctr_LayerID (c_heap s q)"
  shows "container_ok (s\<lparr>c_heap := h\<rparr>)"
proof -
  note d = container_okD [OF assms(1)]
  have "map_ok (\<lambda>p. {ctr_ID (h p)}) (set (c_containers s)) (c_byid s)" using d(3) by (subst map_ok_cong) (auto simp: same)
  moreover have "map_ok (\<lambda>p. set (ctr_Names (h p))) (set (c_containers s)) (c_byname s)" using d(4) by (subst map_ok_cong) (auto simp: same)
  ultimately show ?thesis using d same unfolding container_ok_def by simp
qed

lemma container_save_preserves:
  assumes "\<And>s fs. P s \<Longrightarrow> P (s\<lparr>faults := fs\<rparr>)" and "\<And>s n. P s \<Longrightarrow> P (s\<lparr>lock_disk := n\<rparr>)"
    and "\<And>s n. P s \<Longrightarrow> P (s\<lparr>lastWrite := n\<rparr>)" and "\<And>s js. P s \<Longrightarrow> P (s\<lparr>c_json := js\<rparr>)"
  shows "preserves P (container_save locations)" and "preserves P (container_saveFor p)"
  unfolding container_saveFor_def container_save_def save_location_def
  by (intro preserves_intros preserves_update assms; assumption)+

lemma container_save_ok [preserves_intros]: "preserves container_ok (container_save locations)" "preserves container_ok (container_saveFor p)"
  by (rule container_save_preserves; simp)+

lemma io_call_container_ok [preserves_intros]: "preserves container_ok io_call"
  by (rule io_call_preserves) simp

lemma with_container_preserves:
  assumes "\<And>p s. container_ok s \<Longrightarrow> p \<in> set (c_containers s) \<Longrightarrow> container_ok (snd (f p s))"
  shows "preserves container_ok (with_container k f)"
  unfolding preserves_def
proof (intro allI impI)
  fix s
  assume ok: "container_ok s"
  show "container_ok (snd (with_container k f s))"
    using ok assms [OF ok] containers.find_mem [OF ok, of k]
    by (cases "container_lookup s k") (auto simp: with_container_def op_read_def op_fail_def)
qed

lemma container_update_ok:
  assumes "\<And>c. ctr_ID (f c) = ctr_ID c \<and> ctr_Names (f c) = ctr_Names c \<and> ctr_LayerID (f c) = ctr_LayerID c"
  shows "preserves container_ok (op_seq (op_update (upd_container p f)) (container_saveFor p))"
  by (intro preserves_intros preserves_update container_ok_heap) (auto simp: assms)

lemma with_container_any:
  assumes "\<And>p. preserves P (f p)"
  shows "preserves P (with_container k f)"
  unfolding with_container_def using assms
  by (intro preserves_intros) (auto split: option.split intro: preserves_intros)

section \<open>Every operation keeps the invariant\<close>

lemma container_flags_ok:
  "preserves container_ok (container_SetFlag k flag v)" "preserves container_ok (container_ClearFlag k flag)"
  "preserves container_ok (container_SetMetadata k m)"
  unfolding container_SetFlag_def container_ClearFlag_def container_SetMetadata_def
  by (intro with_container_any container_update_ok; simp)+

lemma container_SetBigData_ok: "preserves container_ok (container_SetBigData from_bytes k key data)"
  unfolding container_SetBigData_def
  by (intro preserves_intros preserves_update with_container_any container_ok_heap) (auto simp: container_note_data_def)

lemma container_data_info_ok: "preserves container_ok (container_data_info from_bytes field missing k key)"
proof -
  have data: "preserves container_ok (container_BigData k key)"
    unfolding container_BigData_def
    by (intro preserves_intros with_container_any) (auto split: option.split intro: preserves_intros)
  have again: "preserves container_ok (op_seq (container_SetBigData from_bytes k key data)
      (with_container k (\<lambda>p. op_read (\<lambda>s. field (c_heap s p) key) (\<lambda>r.
         case r of Some x \<Rightarrow> op_return x | None \<Rightarrow> op_fail missing))))" for data
    by (intro preserves_intros container_SetBigData_ok with_container_any) (auto split: option.split intro: preserves_intros)
  have "preserves container_ok (\<lambda>s. case container_BigData k key s of
      (Inl _, s1) \<Rightarrow> (Inl missing, s1)
    | (Inr data, s1) \<Rightarrow> op_seq (container_SetBigData from_bytes k key data)
        (with_container k (\<lambda>p. op_read (\<lambda>s. field (c_heap s p) key) (\<lambda>r.
           case r of Some x \<Rightarrow> op_return x | None \<Rightarrow> op_fail missing))) s1)"
    using data again unfolding preserves_def by (auto split: prod.split sum.split)
  then show ?thesis
    unfolding container_data_info_def
    by (intro preserves_intros with_container_any) (auto split: option.split intro: preserves_intros)
qed

lemma container_unlink_containers:
  assumes ok: "container_ok s" and p: "p \<in> set (c_containers s)"
  shows "c_containers (container_unlink p s) = filter (\<lambda>q. q \<noteq> p) (c_containers s)"
proof -
  have "ctr_ID (c_heap s q) \<noteq> ctr_ID (c_heap s p) \<longleftrightarrow> q \<noteq> p" if "q \<in> set (c_containers s)" for q
    using containers.ident_inj [OF ok that p] by blast
  then show ?thesis by (simp add: container_unlink_def Let_def cong: filter_cong)
qed

lemma container_unlink_ok:
  assumes ok: "container_ok s" and p: "p \<in> set (c_containers s)"
  shows "container_ok (container_unlink p s)"
proof -
  let ?R = "set (c_containers s)" and ?c = "c_heap s p"
  note d = container_okD [OF ok]
  have ids: "map_ok (\<lambda>q. {ctr_ID (c_heap s q)}) (?R - {p}) ((c_byid s)(ctr_ID ?c := None))"
    using map_ok_remove [OF d(3) p, of "[ctr_ID ?c]"] by (simp add: del_all_def)
  have names: "map_ok (\<lambda>q. set (ctr_Names (c_heap s q))) (?R - {p}) (del_all (ctr_Names ?c) (c_byname s))"
    using map_ok_remove [OF d(4) p] by simp
  have layers: "q \<in> ?R - {p} \<and> ctr_LayerID (c_heap s q) = k"
    if "((c_bylayer s)(ctr_LayerID ?c := None)) k = Some q" for k q
    using that d(5) [of k q] by (auto split: if_splits)
  have idx: "trunc.mirrors (fst (index_Delete (c_idindex s) (ctr_ID ?c))) (dom (c_byid s) - {ctr_ID ?c})"
    using trunc.mirrors_del [OF d(6)] .
  have f: "c_bylayer (container_unlink p s) = (c_bylayer s)(ctr_LayerID ?c := None)" "c_heap (container_unlink p s) = c_heap s"
    by (simp_all add: container_unlink_def Let_def)
  have R: "set (c_containers (container_unlink p s)) = ?R - {p}"
    unfolding container_unlink_containers [OF assms] by auto
  show ?thesis
    unfolding container_ok_def R
  proof (intro conjI)
    show "distinct (c_containers (container_unlink p s))" unfolding container_unlink_containers [OF assms] using d(1) by simp
    show "\<forall>q \<in> ?R - {p}. q < c_next (container_unlink p s)" using d(2) by (simp add: container_unlink_def Let_def)
    show "\<forall>k q. c_bylayer (container_unlink p s) k = Some q \<longrightarrow> q \<in> ?R - {p} \<and> ctr_LayerID (c_heap (container_unlink p s) q) = k"
      using layers unfolding f by blast
  qed (use ids names idx in \<open>simp_all add: container_unlink_def Let_def\<close>)
qed

lemma container_Delete_ok [preserves_intros]: "preserves container_ok (container_Delete k)"
proof -
  have tail: "preserves container_ok (op_seq (container_saveFor p) (op_seq io_call (op_update (container_drop_data ident))))" for p ident
    by (intro preserves_intros preserves_update) simp
  show ?thesis
    unfolding container_Delete_def
  proof (intro with_container_preserves)
    fix p s
    assume "container_ok s" "p \<in> set (c_containers s)"
    then have "container_ok (container_unlink p s)" by (rule container_unlink_ok)
    with tail show "container_ok (snd (op_read (\<lambda>s. ctr_ID (c_heap s p)) (\<lambda>ident.
        op_seq (op_update (container_unlink p)) (op_seq (container_saveFor p) (op_seq io_call
          (op_update (container_drop_data ident))))) s))"
      unfolding preserves_def by (simp add: op_read_def op_seq_def [of "op_update _"] op_then_def op_update_def)
  qed
qed

lemma container_link_ok:
  assumes ok: "container_ok s" and "c_byid s (ctr_ID c) = None" and "\<forall>n \<in> set (ctr_Names c). c_byname s n = None"
  shows "container_ok (container_link (c_next s) c s)"
proof -
  let ?p = "c_next s" and ?R = "set (c_containers s)" and ?h = "(c_heap s)(c_next s := c)"
  note d = container_okD [OF ok]
  have fresh: "?p \<notin> ?R" using d(2) by blast
  have "map_ok (\<lambda>q. {ctr_ID (?h q)}) ?R (c_byid s)" "map_ok (\<lambda>q. set (ctr_Names (?h q))) ?R (c_byname s)"
    using d(3,4) fresh by (subst map_ok_cong; auto)+
  from map_ok_insert [OF this(1) fresh, of "[ctr_ID c]"] map_ok_insert [OF this(2) fresh, of "ctr_Names c"] assms(2,3)
  have "map_ok (\<lambda>q. {ctr_ID (?h q)}) (insert ?p ?R) ((c_byid s)(ctr_ID c \<mapsto> ?p))"
    "map_ok (\<lambda>q. set (ctr_Names (?h q))) (insert ?p ?R) (put_all (ctr_Names c) ?p (c_byname s))" by simp_all
  moreover have "trunc.mirrors (fst (index_Add (c_idindex s) (ctr_ID c))) (insert (ctr_ID c) (dom (c_byid s)))"
    by (rule trunc.mirrors_add [OF d(6)])
  moreover have "q \<in> insert ?p ?R \<and> ctr_LayerID (?h q) = k"
    if "((c_bylayer s)(ctr_LayerID c \<mapsto> ?p)) k = Some q" for k q
    using that d(5) [of k q] fresh by (auto split: if_splits)
  ultimately show ?thesis
    unfolding container_ok_def using d(1) fresh by (auto simp: container_link_def less_Suc_eq dest: d(2))
qed

text \<open>Renaming.\<close>

lemma container_take_step:
  "c_byname (container_take_name p s n) = (c_byname s)(n \<mapsto> p)" "c_containers (container_take_name p s n) = c_containers s"
  "c_byid (container_take_name p s n) = c_byid s" "c_bylayer (container_take_name p s n) = c_bylayer s"
  "c_idindex (container_take_name p s n) = c_idindex s" "c_next (container_take_name p s n) = c_next s"
  "c_heap (container_take_name p s n) q =
     (c_heap s q)\<lparr>ctr_Names := filter (\<lambda>x. \<not> (x = n \<and> c_byname s x = Some q)) (ctr_Names (c_heap s q))\<rparr>"
  by (auto simp: container_take_name_def Let_def container_removeName_def stringSliceWithoutValue_def filter_id_conv
      split: option.splits intro!: filter_cong)

lemma container_take_fold:
  assumes "distinct ns"
  shows "c_byname (foldl (container_take_name p) s ns) = put_all ns p (c_byname s)
    \<and> c_containers (foldl (container_take_name p) s ns) = c_containers s
    \<and> c_byid (foldl (container_take_name p) s ns) = c_byid s
    \<and> c_bylayer (foldl (container_take_name p) s ns) = c_bylayer s
    \<and> c_idindex (foldl (container_take_name p) s ns) = c_idindex s
    \<and> c_next (foldl (container_take_name p) s ns) = c_next s
    \<and> (\<forall>q. q \<noteq> p \<longrightarrow> c_heap (foldl (container_take_name p) s ns) q =
          (c_heap s q)\<lparr>ctr_Names := filter (\<lambda>x. \<not> (x \<in> set ns \<and> c_byname s x = Some q)) (ctr_Names (c_heap s q))\<rparr>)
    \<and> (\<exists>ns'. c_heap (foldl (container_take_name p) s ns) p = (c_heap s p)\<lparr>ctr_Names := ns'\<rparr>)"
  using assms
proof (induction ns arbitrary: s)
  case Nil
  have "\<exists>ns'. c_heap s p = (c_heap s p)\<lparr>ctr_Names := ns'\<rparr>"
    by (rule exI [of _ "ctr_Names (c_heap s p)"]) simp
  then show ?case by simp
next
  case (Cons n ns)
  let ?s = "container_take_name p s n"
  let ?t = "foldl (container_take_name p) ?s ns"
  have n: "n \<notin> set ns" "distinct ns" using Cons.prems by auto
  note IH = Cons.IH [OF n(2), of ?s]
  have f: "filter (\<lambda>x. \<not> (x \<in> set ns \<and> ((c_byname s)(n \<mapsto> p)) x = Some q)) (filter (\<lambda>x. \<not> (x = n \<and> c_byname s x = Some q)) xs)
      = filter (\<lambda>x. \<not> (x \<in> set (n # ns) \<and> c_byname s x = Some q)) xs" if "q \<noteq> p" for q xs
    unfolding filter_filter by (rule filter_cong) (use n(1) that in auto)
  have heap: "c_heap ?t q = (c_heap s q)\<lparr>ctr_Names := filter (\<lambda>x. \<not> (x \<in> set (n # ns) \<and> c_byname s x = Some q)) (ctr_Names (c_heap s q))\<rparr>"
    if "q \<noteq> p" for q
  proof -
    have "c_heap ?t q = (c_heap ?s q)\<lparr>ctr_Names := filter (\<lambda>x. \<not> (x \<in> set ns \<and> c_byname ?s x = Some q)) (ctr_Names (c_heap ?s q))\<rparr>"
      using IH that by blast
    then show ?thesis unfolding f [OF that, symmetric] container_take_step(1,7) by simp
  qed
  obtain ns' where "c_heap ?t p = (c_heap ?s p)\<lparr>ctr_Names := ns'\<rparr>" using IH by blast
  then have own: "\<exists>ns'. c_heap ?t p = (c_heap s p)\<lparr>ctr_Names := ns'\<rparr>" unfolding container_take_step(7) by auto
  have rest: "c_byname ?t = put_all (n # ns) p (c_byname s)" "c_containers ?t = c_containers s" "c_byid ?t = c_byid s"
    "c_bylayer ?t = c_bylayer s" "c_idindex ?t = c_idindex s" "c_next ?t = c_next s"
    using IH by (simp_all only: container_take_step(1-6) put_all_simps)
  show ?case unfolding foldl_Cons rest using heap own by simp
qed

definition container_renamed :: "nat \<Rightarrow> string list \<Rightarrow> containerStore \<Rightarrow> containerStore" where
  "container_renamed p new s = upd_container p (\<lambda>c. c\<lparr>ctr_Names := new\<rparr>)
     (foldl (container_take_name p) (s\<lparr>c_byname := del_all (ctr_Names (c_heap s p)) (c_byname s)\<rparr>) new)"

lemma container_renamed_names:
  assumes ok: "container_ok s" and p: "p \<in> set (c_containers s)" and "distinct new"
  shows "c_heap (container_renamed p new s) q =
    (if q = p then (c_heap s p)\<lparr>ctr_Names := new\<rparr>
     else (c_heap s q)\<lparr>ctr_Names := filter (\<lambda>n. \<not> (n \<in> set new \<and> c_byname s n = Some q)) (ctr_Names (c_heap s q))\<rparr>)"
proof -
  let ?s = "s\<lparr>c_byname := del_all (ctr_Names (c_heap s p)) (c_byname s)\<rparr>"
  note f = container_take_fold [OF assms(3), of p ?s]
  show ?thesis
  proof (cases "q = p")
    case True
    then show ?thesis using f by (auto simp: container_renamed_def)
  next
    case False
    have "c_byname ?s n = Some q \<longleftrightarrow> c_byname s n = Some q" for n
      using containers.byname_iff [OF ok, of n p] p False by (auto simp: del_all_apply)
    then show ?thesis using f False by (simp add: container_renamed_def)
  qed
qed

lemma container_renamed_ok:
  assumes ok: "container_ok s" and p: "p \<in> set (c_containers s)" and "distinct new"
  shows "container_ok (container_renamed p new s)"
proof -
  let ?R = "set (c_containers s)" and ?t = "container_renamed p new s" and ?old = "ctr_Names (c_heap s p)"
  note d = container_okD [OF ok]
  note h = container_renamed_names [OF assms]
  have f: "c_byname ?t = put_all new p (del_all ?old (c_byname s))" "c_containers ?t = c_containers s" "c_byid ?t = c_byid s"
    "c_bylayer ?t = c_bylayer s" "c_idindex ?t = c_idindex s" "c_next ?t = c_next s"
    using container_take_fold [OF assms(3), of p "s\<lparr>c_byname := del_all ?old (c_byname s)\<rparr>"]
    by (simp_all add: container_renamed_def)
  have same: "ctr_ID (c_heap ?t q) = ctr_ID (c_heap s q)" "ctr_LayerID (c_heap ?t q) = ctr_LayerID (c_heap s q)" for q
    by (simp_all add: h)
  have lost: "set (ctr_Names (c_heap ?t q)) = set (ctr_Names (c_heap s q)) - set new" if q: "q \<in> ?R" "q \<noteq> p" for q
    using q containers.byname_iff [OF ok, of _ q] by (auto simp: h)
  have "map_ok (\<lambda>q. set (ctr_Names (c_heap ?t q))) ?R (put_all new p (del_all ?old (c_byname s)))"
    by (rule map_ok_steal [OF d(4) p]) (use lost in \<open>auto simp: h\<close>)
  then show ?thesis unfolding container_ok_def f same using d by simp
qed

lemma container_updateNames_ok: "preserves container_ok (container_updateNames k ns op)"
  unfolding container_updateNames_def
proof (intro with_container_preserves)
  fix p s
  assume ok: "container_ok s" and p: "p \<in> set (c_containers s)"
  show "container_ok (snd (op_read (\<lambda>s. ctr_Names (c_heap s p)) (\<lambda>oldNames.
      case applyNameOperation oldNames ns op of
        Inl e \<Rightarrow> op_fail e
      | Inr newNames \<Rightarrow>
          op_seq (op_update (\<lambda>s. s\<lparr>c_byname := del_all oldNames (c_byname s)\<rparr>))
         (op_seq (op_update (\<lambda>s. foldl (container_take_name p) s newNames))
         (op_seq (op_update (upd_container p (\<lambda>c. c\<lparr>ctr_Names := newNames\<rparr>))) (container_saveFor p)))) s))"
  proof (cases "applyNameOperation (ctr_Names (c_heap s p)) ns op")
    case (Inl e)
    then show ?thesis using ok by (simp add: op_read_def op_fail_def)
  next
    case (Inr new)
    have "container_ok (container_renamed p new s)"
      by (rule container_renamed_ok [OF ok p]) (use applyNameOperation_Inr [OF Inr] in simp)
    then show ?thesis
      using container_save_ok(2) [of p] Inr unfolding preserves_def container_renamed_def
      by (simp add: op_read_def op_seq_def op_then_def op_update_def)
  qed
qed

lemma container_finish_ok: "preserves container_ok (container_finish from_bytes p ident items)"
  unfolding container_finish_def
  by (intro preserves_intros) (auto intro: container_SetBigData_ok split: prod.split)

text \<open>The cases of \<open>create\<close>.\<close>

lemma container_create_cases:
  "container_create from_bytes now draws k names imageID layer options s =
    (case (if k = '''' then fresh_id (\<lambda>j. c_byid s j \<noteq> None) draws else Some k) of
       None \<Rightarrow> (Inl (Panic ''random source''), s)
     | Some ident \<Rightarrow>
         if c_byid s ident \<noteq> None then (Inl ErrDuplicateID, s)
         else if \<exists>n \<in> set names. c_byname s n \<noteq> None then (Inl ErrDuplicateName, s)
         else case hasOverlappingRanges (copt_UIDMap options) of
                Some e \<Rightarrow> (Inl e, s)
              | None \<Rightarrow>
                  (case hasOverlappingRanges (copt_GIDMap options) of
                     Some e \<Rightarrow> (Inl e, s)
                   | None \<Rightarrow>
                       op_cleanup (container_finish from_bytes (c_next s) ident (copt_BigData options)) (container_Delete ident)
                         (container_link (c_next s) (new_container now ident (dedupeStrings names) imageID layer options) s)))"
  by (simp add: container_create_def op_read_def op_fail_def op_seq_def [of "op_update _"] op_then_def [of "op_update _"]
      op_update_def split: option.splits)

lemma container_create_ok: "preserves container_ok (container_create from_bytes now draws k names imageID layer options)"
  unfolding preserves_def
proof (intro allI impI)
  fix s
  assume ok: "container_ok s"
  have "preserves container_ok (op_cleanup (container_finish from_bytes (c_next s) ident (copt_BigData options)) (container_Delete ident))" for ident
    by (intro preserves_intros container_finish_ok)
  then have "container_ok (snd (op_cleanup (container_finish from_bytes (c_next s) ident (copt_BigData options)) (container_Delete ident)
      (container_link (c_next s) (new_container now ident (dedupeStrings names) imageID layer options) s)))"
    if "c_byid s ident = None" "\<not> (\<exists>n \<in> set names. c_byname s n \<noteq> None)" for ident
    using container_link_ok [OF ok, of "new_container now ident (dedupeStrings names) imageID layer options"] that
    unfolding preserves_def by (simp add: new_container_def)
  then show "container_ok (snd (container_create from_bytes now draws k names imageID layer options s))"
    unfolding container_create_cases using ok by (simp split: option.split)
qed

lemma container_Wipe_ok: "preserves container_ok (container_Wipe ids)"
  unfolding container_Wipe_def by (intro preserves_intros container_Delete_ok)

lemma container_BigDataSize_ok: "preserves container_ok (container_BigDataSize from_bytes k key)"
  unfolding container_BigDataSize_def by (rule container_data_info_ok)

lemma container_BigDataDigest_ok: "preserves container_ok (container_BigDataDigest from_bytes k key)"
  unfolding container_BigDataDigest_def by (rule container_data_info_ok)

inductive container_step :: "containerStore \<Rightarrow> bool \<Rightarrow> containerStore \<Rightarrow> bool" where
  ctr_create: "container_create from_bytes now draws k names imageID layer options s = (r, s') \<Longrightarrow> container_step s (succeeded r) s'"
| ctr_updateNames: "container_updateNames k names op s = (r, s') \<Longrightarrow> container_step s (succeeded r) s'"
| ctr_Delete: "container_Delete k s = (r, s') \<Longrightarrow> container_step s (succeeded r) s'"
| ctr_Wipe: "container_Wipe ids s = (r, s') \<Longrightarrow> container_step s (succeeded r) s'"
| ctr_SetBigData: "container_SetBigData from_bytes k key data s = (r, s') \<Longrightarrow> container_step s (succeeded r) s'"
| ctr_BigDataSize: "container_BigDataSize from_bytes k key s = (r, s') \<Longrightarrow> container_step s (succeeded r) s'"
| ctr_BigDataDigest: "container_BigDataDigest from_bytes k key s = (r, s') \<Longrightarrow> container_step s (succeeded r) s'"
| ctr_SetMetadata: "container_SetMetadata k m s = (r, s') \<Longrightarrow> container_step s (succeeded r) s'"
| ctr_SetFlag: "container_SetFlag k flag v s = (r, s') \<Longrightarrow> container_step s (succeeded r) s'"
| ctr_ClearFlag: "container_ClearFlag k flag s = (r, s') \<Longrightarrow> container_step s (succeeded r) s'"
| ctr_faults: "container_step s True (s\<lparr>faults := fs\<rparr>)"

lemma container_step_ok: "container_step s b s' \<Longrightarrow> container_ok s \<Longrightarrow> container_ok s'"
proof (induction rule: container_step.induct)
  case ctr_create
  then show ?case using preservesD [OF container_create_ok] by blast
next
  case ctr_updateNames
  then show ?case using preservesD [OF container_updateNames_ok] by blast
next
  case ctr_Delete
  then show ?case using preservesD [OF container_Delete_ok] by blast
next
  case ctr_Wipe
  then show ?case using preservesD [OF container_Wipe_ok] by blast
next
  case ctr_SetBigData
  then show ?case using preservesD [OF container_SetBigData_ok] by blast
next
  case ctr_BigDataSize
  then show ?case using preservesD [OF container_BigDataSize_ok] by blast
next
  case ctr_BigDataDigest
  then show ?case using preservesD [OF container_BigDataDigest_ok] by blast
next
  case ctr_SetMetadata
  then show ?case using preservesD [OF container_flags_ok(3)] by blast
next
  case ctr_SetFlag
  then show ?case using preservesD [OF container_flags_ok(1)] by blast
next
  case ctr_ClearFlag
  then show ?case using preservesD [OF container_flags_ok(2)] by blast
qed simp

inductive container_reach :: "containerStore \<Rightarrow> containerStore \<Rightarrow> bool" for s where
  creach_refl: "container_reach s s"
| creach_step: "container_reach s t \<Longrightarrow> container_step t b u \<Longrightarrow> container_reach s u"

lemma container_reach_ok: "container_reach s t \<Longrightarrow> container_ok s \<Longrightarrow> container_ok t"
  by (induction rule: container_reach.induct) (auto intro: container_step_ok)

section \<open>Results\<close>

definition empty_containers :: containerStore where
  "empty_containers = \<lparr>faults = [], IsReadWrite = True, lock_disk = 0, lastWrite = 0,
     c_heap = (\<lambda>_. \<lparr>ctr_ID = '''', ctr_Names = [], ctr_ImageID = '''', ctr_LayerID = '''', ctr_Metadata = '''',
                    ctr_BigDataNames = [], ctr_BigDataSizes = Map.empty, ctr_BigDataDigests = Map.empty, ctr_Created = 0,
                    ctr_UIDMap = [], ctr_GIDMap = [], ctr_Flags = Map.empty, ctr_volatileStore = False\<rparr>),
     c_next = 0, c_containers = [], c_idindex = NewTruncIndex [], c_byid = Map.empty, c_bylayer = Map.empty,
     c_byname = Map.empty, c_json = (\<lambda>_. []), c_data = Map.empty\<rparr>"

definition sample_containers :: containerStore where
  "sample_containers =
     snd (container_updateNames ''b2'' [''web''] addNames
       (snd (container_create (\<lambda>b. ''sha256:'' @ b) 1 [] ''b2'' [] ''i1'' ''l2''
              \<lparr>copt_UIDMap = [], copt_GIDMap = [], copt_Flags = Map.empty, copt_MountOpts = None, copt_Volatile = True,
               copt_Metadata = '''', copt_BigData = []\<rparr>
         (snd (container_create (\<lambda>b. ''sha256:'' @ b) 1 [] ''a1'' [''web''] ''i1'' ''l1''
              \<lparr>copt_UIDMap = [], copt_GIDMap = [], copt_Flags = Map.empty, copt_MountOpts = None, copt_Volatile = False,
               copt_Metadata = '''', copt_BigData = []\<rparr> empty_containers)))))"

lemma empty_containers_ok: "container_ok empty_containers"
  by (simp add: container_ok_def map_ok_def empty_containers_def trunc.mirrors_new [of "[]", simplified])

lemma sample_containers_reach: "container_reach empty_containers sample_containers"
  unfolding sample_containers_def
  by (rule creach_step [OF creach_step [OF creach_step [OF creach_refl ctr_create] ctr_create] ctr_updateNames]; rule surjective_pairing)

text \<open>
  C26: the indexes of the container store. From an empty store, whatever sequence of operations runs
  and whatever I/O calls fail inside them, the list and the maps of the store keep describing the
  same containers: an ID, and a name, leads to the one container that has it, the map of the layers leads to
  a container on that layer, and the index of ID prefixes has exactly the IDs of the containers.
\<close>

theorem container_store_invariant:
  assumes "container_reach empty_containers s"
  shows "distinct (c_containers s)
    \<and> (\<forall>k p. c_byid s k = Some p \<longleftrightarrow> p \<in> set (c_containers s) \<and> ctr_ID (c_heap s p) = k)
    \<and> (\<forall>n p. c_byname s n = Some p \<longleftrightarrow> p \<in> set (c_containers s) \<and> n \<in> set (ctr_Names (c_heap s p)))
    \<and> (\<forall>l p. c_bylayer s l = Some p \<longrightarrow> p \<in> set (c_containers s) \<and> ctr_LayerID (c_heap s p) = l)
    \<and> trunc.mirrors (c_idindex s) (dom (c_byid s))"
proof -
  have "container_ok empty_containers" by (rule empty_containers_ok)
  from container_reach_ok [OF assms this] show ?thesis unfolding container_ok_def map_ok_def by auto
qed

lemmas container_run_simps = container_create_cases container_link_def op_cleanup_def container_finish_def container_saveFor_def
  container_save_def save_location_def RecordWrite_def op_read_def op_seq_def op_then_def op_update_def op_return_def op_fail_def
  new_container_def empty_containers_def container_updateNames_def with_container_def container_lookup_def
  container_take_name_def container_removeName_def containerLocation_def hasOverlappingRanges_def
  applyNameOperation_def dedupeStrings_def

theorem container_store_invariant_witness:
  "c_byname sample_containers ''web'' = Some 1 \<and> 1 \<in> set (c_containers sample_containers)"
proof -
  have "c_byname sample_containers ''web'' = Some 1"
    by (simp add: sample_containers_def container_run_simps)
  then show ?thesis using container_store_invariant [OF sample_containers_reach] by blast
qed

text \<open>
  A stable and a volatile container share a name in the files, and the lock file says that they
  have changed.
\<close>

definition name_stuck :: "containerStore \<Rightarrow> bool" where
  "name_stuck s \<longleftrightarrow>
     faults s = [] \<and> lock_disk s \<noteq> lastWrite s
     \<and> (case (c_json s stableContainerLocation, c_json s volatileContainerLocation) of
          ([a], [b]) \<Rightarrow> ctr_ID a \<noteq> ctr_ID b \<and> ctr_Names a = ctr_Names b \<and> length (ctr_Names a) = 1
        | _ \<Rightarrow> False)"

lemma container_stuck_load:
  assumes "faults s = []" and "c_json s stableContainerLocation = [a]" and "c_json s volatileContainerLocation = [b]"
    and "ctr_ID a \<noteq> ctr_ID b" and "ctr_Names a = [x]" and "ctr_Names b = [x]"
  shows "container_load False s = ((True, Some (ErrFmt ''container store is inconsistent'')), container_installed s)"
    and "container_load True s = ((False, None), snd (container_save {volatileContainerLocation} (container_installed s)))"
    and "c_json (snd (container_save {volatileContainerLocation} (container_installed s))) stableContainerLocation = [a]"
    and "c_json (snd (container_save {volatileContainerLocation} (container_installed s))) volatileContainerLocation = [json_container b]"
    and "lock_disk (snd (container_save {volatileContainerLocation} (container_installed s))) = Suc (lock_disk s)"
    and "faults (snd (container_save {volatileContainerLocation} (container_installed s))) = []"
proof -
  have rec: "container_records s = [a\<lparr>ctr_volatileStore := False\<rparr>, b\<lparr>ctr_volatileStore := True\<rparr>]"
    using assms by (simp add: container_records_def Let_def)
  have loop: "cl_modified (container_load_loop s) = {volatileContainerLocation}"
    "cl_heap (container_load_loop s) (c_next s) = a\<lparr>ctr_volatileStore := False, ctr_Names := []\<rparr>"
    "cl_heap (container_load_loop s) (Suc (c_next s)) = b\<lparr>ctr_volatileStore := True\<rparr>"
    using assms
    by (simp_all add: container_load_loop_def rec load_container_def load_name_def alloc_containers_def Let_def
        container_removeName_def containerLocation_def stringSliceWithoutValue_def upt_rec)
  have inst: "faults (container_installed s) = []" "lock_disk (container_installed s) = lock_disk s"
    "c_json (container_installed s) = c_json s" "c_containers (container_installed s) = [c_next s, Suc (c_next s)]"
    "c_heap (container_installed s) = cl_heap (container_load_loop s)"
    using assms by (simp_all add: container_installed_def rec Let_def upt_rec)
  note run = container_save_def save_location_def RecordWrite_def op_seq_def op_then_def op_read_def op_return_def op_update_def
  show "container_load False s = ((True, Some (ErrFmt ''container store is inconsistent'')), container_installed s)"
    using assms(1) loop(1) by (simp add: container_load_def op_seq_def op_then_def Let_def)
  show "container_load True s = ((False, None), snd (container_save {volatileContainerLocation} (container_installed s)))"
    using assms(1) loop(1) inst(1) by (simp add: container_load_def Let_def run)
  show "c_json (snd (container_save {volatileContainerLocation} (container_installed s))) stableContainerLocation = [a]"
    "c_json (snd (container_save {volatileContainerLocation} (container_installed s))) volatileContainerLocation = [json_container b]"
    "lock_disk (snd (container_save {volatileContainerLocation} (container_installed s))) = Suc (lock_disk s)"
    "faults (snd (container_save {volatileContainerLocation} (container_installed s))) = []"
    using inst loop assms by (simp_all add: run containerLocation_def json_container_def)
qed



text \<open>
  \<open>newContainerStore\<close> keeps the locks when the mark of the lock file cannot be read: the
  deferred release is only registered after that call.
\<close>

lemma newContainerStore_keeps_locks:
  "newContainerStore others False (unheld (s\<lparr>faults := [None, None, Some e]\<rparr>)) =
     (Inl e, held_as Writing (s\<lparr>faults := []\<rparr>))"
  by (simp add: newContainerStore_def startWritingWithReload_def locked_call_def GetLastWrite_def lock_defs unheld_def held_as_def
      op_seq_def op_then_def op_return_def op_update_def io_call_def)

end
