(* ===== verification/Layer_Store.thy ===== *)
theory Layer_Store
  imports Store_Locks Big_Data_Names Id_Set
begin

text \<open>
  \<open>storage/layers.go\<close>: the layer store. Its records are split over three files, the mount counts
  are in a fourth one with a lock file of its own, and the contents of the layers belong to the
  graph driver. The driver is an interface of the code with several implementations; it is the
  argument \<open>drv\<close> of the operations, with a state of its own in \<open>l_driver\<close>, and nothing is assumed
  of it. Reservations of SELinux labels are calls that may fail. Nil and empty slices are the
  same list.
\<close>

section \<open>State\<close>

datatype layerLocation = stableLayerLocation | imageStoreLayerLocation | volatileLayerLocation

record Layer =
  ly_ID :: string
  ly_Names :: "string list"
  ly_Parent :: string
  ly_Metadata :: string
  ly_MountLabel :: string
  ly_MountPoint :: string
  ly_MountCount :: int
  ly_Created :: int
  ly_CompressedDigest :: string
  ly_CompressedSize :: int
  ly_UncompressedDigest :: string
  ly_UncompressedSize :: int
  ly_TOCDigest :: string
  ly_CompressionType :: int
  ly_UIDs :: "nat list"
  ly_GIDs :: "nat list"
  ly_Flags :: "string \<rightharpoonup> flag_value"
  ly_UIDMap :: "IDMap list"
  ly_GIDMap :: "IDMap list"
  ly_ReadOnly :: bool
  ly_location :: "layerLocation option"
  ly_BigDataNames :: "string list"

record layerMountPoint =
  mp_ID :: string
  mp_MountPoint :: string
  mp_MountCount :: int

text \<open>
  The store: what is in memory, the files (\<open>l_json\<close> with the modification times \<open>l_mtime\<close>, 0 for
  a file that does not exist, \<open>l_mounts\<close>, the data items and the tar-split files), the mark of the
  second lock file and the state of the driver. \<open>l_imagedir\<close> tells whether there is a file for
  the location of an image store.
\<close>

record 'd layerStore = store_io +
  l_heap :: "nat \<Rightarrow> Layer"
  l_next :: nat
  l_layers :: "nat list"
  l_idindex :: TruncIndex
  l_byid :: "string \<rightharpoonup> nat"
  l_byname :: "string \<rightharpoonup> nat"
  l_bymount :: "string \<rightharpoonup> nat"
  l_bycompressedsum :: "string \<Rightarrow> string list"
  l_byuncompressedsum :: "string \<Rightarrow> string list"
  l_bytocsum :: "string \<Rightarrow> string list"
  l_pathsModified :: "layerLocation \<Rightarrow> nat"
  l_mountsLastWrite :: nat
  l_json :: "layerLocation \<Rightarrow> Layer list"
  l_mtime :: "layerLocation \<Rightarrow> nat"
  l_imagedir :: bool
  l_mounts :: "layerMountPoint list"
  l_mounts_disk :: nat
  l_data :: "string \<times> string \<rightharpoonup> string"
  l_tarsplit :: "string \<rightharpoonup> string"
  l_driver :: 'd

type_synonym ('d, 'a) lop = "('d layerStore, 'a) op"

abbreviation upd_layer :: "nat \<Rightarrow> (Layer \<Rightarrow> Layer) \<Rightarrow> 'd layerStore \<Rightarrow> 'd layerStore" where
  "upd_layer p f s \<equiv> s\<lparr>l_heap := (l_heap s)(p := f (l_heap s p))\<rparr>"

text \<open>The graph driver, and the mount table of the kernel that it changes.\<close>

datatype SyncMode = SyncModeNone | SyncModeFilesystem | SyncModeUnknown

record 'd Driver =
  drv_Create :: "bool \<Rightarrow> string \<Rightarrow> string \<Rightarrow> ('d, unit) op"
  drv_CreateFromTemplate :: "string \<Rightarrow> string \<Rightarrow> string \<Rightarrow> bool \<Rightarrow> ('d, unit) op"
  drv_UpdateLayerIDMap :: "string \<Rightarrow> ('d, unit) op"
  drv_ApplyDiff :: "string \<Rightarrow> ('d, unit) op"
  drv_CommitStagedLayer :: "string \<Rightarrow> ('d, unit) op"
  drv_ApplyDiffFromStagingDirectory :: "string \<Rightarrow> string \<Rightarrow> ('d, unit) op"
  drv_Get :: "string \<Rightarrow> string \<Rightarrow> ('d, string) op"
  drv_Put :: "string \<Rightarrow> ('d, unit) op"
  drv_DeferredRemove :: "string \<Rightarrow> ('d, unit) op"
  drv_Remove :: "string \<Rightarrow> ('d, unit) op"
  drv_ListLayers :: "('d, string list) op"
  drv_SupportsShifting :: "IDMap list \<Rightarrow> IDMap list \<Rightarrow> bool"
  drv_HasDiffer :: bool
  drv_SyncMode :: SyncMode
  drv_TempDirRootDirs :: "string list"
  sys_Mounted :: "string \<Rightarrow> ('d, bool) op"

definition drive :: "('d, 'a) op \<Rightarrow> ('d, 'a) lop" where
  "drive m s = (case m (l_driver s) of (r, d) \<Rightarrow> (r, s\<lparr>l_driver := d\<rparr>))"

text \<open>Errors that say that something is missing already do not count for a deletion.\<close>

definition unless_missing :: "('s, unit) op \<Rightarrow> ('s, unit) op" where
  "unless_missing m s = (case m s of (Inl e, s1) \<Rightarrow> if e = ErrNotExist then (Inr (), s1) else (Inl e, s1) | (Inr x, s1) \<Rightarrow> (Inr x, s1))"

definition layerHasIncompleteFlag :: "Layer \<Rightarrow> bool" where
  "layerHasIncompleteFlag l \<longleftrightarrow> ly_Flags l ''incomplete'' = Some (FlagBool True)"

definition layer_lookup :: "'d layerStore \<Rightarrow> string \<Rightarrow> nat option" where
  "layer_lookup s k =
     (case l_byid s k of
        Some p \<Rightarrow> Some p
      | None \<Rightarrow>
          (case l_byname s k of
             Some p \<Rightarrow> Some p
           | None \<Rightarrow>
               (case index_Get (l_idindex s) k of
                  Inr longid \<Rightarrow> l_byid s longid
                | Inl _ \<Rightarrow> None)))"

definition with_layer :: "string \<Rightarrow> (nat \<Rightarrow> ('d, 'a) lop) \<Rightarrow> ('d, 'a) lop" where
  "with_layer k f =
     op_read (\<lambda>s. layer_lookup s k) (\<lambda>r. case r of None \<Rightarrow> op_fail ErrLayerUnknown | Some p \<Rightarrow> f p)"

definition writable :: "('d, 'a) lop \<Rightarrow> ('d, 'a) lop" where
  "writable m = op_read IsReadWrite (\<lambda>rw. if \<not> rw then op_fail ErrStoreIsReadOnly else m)"

section \<open>Mounts\<close>

definition clear_mounts :: "'d layerStore \<Rightarrow> 'd layerStore" where
  "clear_mounts s =
     s\<lparr>l_heap := (\<lambda>p. if p \<in> set (l_layers s) then (l_heap s p)\<lparr>ly_MountPoint := '''', ly_MountCount := 0\<rparr> else l_heap s p),
       l_bymount := Map.empty\<rparr>"

definition load_mount :: "'d layerStore \<Rightarrow> layerMountPoint \<Rightarrow> 'd layerStore" where
  "load_mount s m =
     (if mp_MountPoint m = '''' then s
      else case layer_lookup s (mp_ID m) of
             None \<Rightarrow> s
           | Some p \<Rightarrow>
               (upd_layer p (\<lambda>l. l\<lparr>ly_MountPoint := mp_MountPoint m, ly_MountCount := mp_MountCount m\<rparr>) s)
                 \<lparr>l_bymount := (l_bymount s)(mp_MountPoint m \<mapsto> p)\<rparr>)"

definition loadMounts :: "('d, unit) lop" where
  "loadMounts =
     op_seq io_call (op_seq io_call (op_update (\<lambda>s. foldl load_mount (clear_mounts s) (l_mounts s))))"

definition mount_records :: "'d layerStore \<Rightarrow> layerMountPoint list" where
  "mount_records s =
     map (\<lambda>l. \<lparr>mp_ID = ly_ID l, mp_MountPoint = ly_MountPoint l, mp_MountCount = ly_MountCount l\<rparr>)
       (filter (\<lambda>l. ly_MountPoint l \<noteq> '''' \<and> 0 < ly_MountCount l) (map (l_heap s) (l_layers s)))"

definition saveMounts :: "('d, unit) lop" where
  "saveMounts =
     writable
    (op_seq io_call
    (op_read mount_records (\<lambda>mounts.
     op_seq io_call
    (op_seq io_call
    (op_seq (op_update (\<lambda>s. s\<lparr>l_mounts_disk := Suc (l_mounts_disk s), l_mountsLastWrite := Suc (l_mounts_disk s)\<rparr>))
    (op_seq io_call
    (op_seq (op_update (\<lambda>s. s\<lparr>l_mounts := mounts\<rparr>))
     loadMounts)))))))"

definition reloadMountsIfChanged :: "('d, unit) lop" where
  "reloadMountsIfChanged =
     op_seq io_call
    (op_read (\<lambda>s. (l_mounts_disk s, l_mountsLastWrite s)) (\<lambda>(lw, previous).
       if lw = previous then op_return ()
       else op_seq loadMounts (op_update (\<lambda>s. s\<lparr>l_mountsLastWrite := lw\<rparr>))))"

section \<open>Saving\<close>

definition json_layer :: "Layer \<Rightarrow> Layer" where
  "json_layer l =
     l\<lparr>ly_Flags := json_flags (ly_Flags l), ly_MountPoint := '''', ly_MountCount := 0, ly_ReadOnly := False, ly_location := None\<rparr>"

definition layer_RecordWrite :: "('d, nat) lop" where
  "layer_RecordWrite =
     op_then RecordWrite (\<lambda>lw.
       op_read l_imagedir (\<lambda>second. if second then op_seq io_call (op_return lw) else op_return lw))"

definition sync_files :: "'d Driver \<Rightarrow> bool \<Rightarrow> ('d, unit) lop" where
  "sync_files drv needsSyncfs =
     (if \<not> needsSyncfs then op_return ()
      else case drv_SyncMode drv of
             SyncModeNone \<Rightarrow> op_return ()
           | SyncModeFilesystem \<Rightarrow> io_call
           | SyncModeUnknown \<Rightarrow> op_fail (ErrFmt ''unknown sync mode''))"

definition write_layers :: "layerLocation \<Rightarrow> 'd layerStore \<Rightarrow> 'd layerStore" where
  "write_layers loc s =
     s\<lparr>l_json := (l_json s)(loc := map json_layer (filter (\<lambda>l. ly_location l = Some loc) (map (l_heap s) (l_layers s)))),
       l_mtime := (l_mtime s)(loc := Suc (l_mtime s loc)),
       l_pathsModified := (l_pathsModified s)(loc := Suc (l_mtime s loc))\<rparr>"

definition layer_save_location :: "'d Driver \<Rightarrow> layerLocation set \<Rightarrow> bool \<Rightarrow> layerLocation \<Rightarrow> ('d, unit) lop" where
  "layer_save_location drv saveLocations needsSyncfs loc =
     (if loc \<notin> saveLocations then op_return ()
      else op_read l_imagedir (\<lambda>imagedir.
        if loc = imageStoreLayerLocation \<and> \<not> imagedir then op_fail (ErrFmt ''internal error: no path for location'')
        else op_seq io_call
            (op_seq io_call
            (op_seq (sync_files drv needsSyncfs)
            (op_seq io_call
            (op_update (write_layers loc)))))))"

definition saveLayers :: "'d Driver \<Rightarrow> layerLocation set \<Rightarrow> bool \<Rightarrow> ('d, unit) lop" where
  "saveLayers drv saveLocations needsSyncfs =
     writable
    (op_then layer_RecordWrite (\<lambda>lw.
     op_seq (op_update (\<lambda>s. s\<lparr>lastWrite := lw\<rparr>))
    (op_each (layer_save_location drv saveLocations needsSyncfs)
       [stableLayerLocation, imageStoreLayerLocation, volatileLayerLocation])))"

definition layer_save :: "'d Driver \<Rightarrow> layerLocation set \<Rightarrow> bool \<Rightarrow> ('d, unit) lop" where
  "layer_save drv saveLocations needsSyncfs = op_seq (saveLayers drv saveLocations needsSyncfs) saveMounts"

definition layer_saveFor :: "'d Driver \<Rightarrow> nat \<Rightarrow> bool \<Rightarrow> ('d, unit) lop" where
  "layer_saveFor drv p needsSyncfs =
     op_read (\<lambda>s. set_option (ly_location (l_heap s p))) (\<lambda>location. layer_save drv location needsSyncfs)"

section \<open>Deleting\<close>

definition deleteInDigestMap :: "string \<Rightarrow> 'd layerStore \<Rightarrow> 'd layerStore" where
  "deleteInDigestMap ident s =
     s\<lparr>l_bycompressedsum := (\<lambda>d. remove1 ident (l_bycompressedsum s d)),
       l_byuncompressedsum := (\<lambda>d. remove1 ident (l_byuncompressedsum s d))\<rparr>"

definition layer_unlink :: "nat \<Rightarrow> 'd layerStore \<Rightarrow> 'd layerStore" where
  "layer_unlink p s =
     (let l = l_heap s p; ident = ly_ID l;
          s1 = s\<lparr>l_byid := (l_byid s)(ident := None),
                 l_byname := del_all (ly_Names l) (l_byname s),
                 l_idindex := fst (index_Delete (l_idindex s) ident),
                 l_bymount := (if ly_MountPoint l \<noteq> '''' then (l_bymount s)(ly_MountPoint l := None) else l_bymount s)\<rparr>;
          s2 = deleteInDigestMap ident s1
      in s2\<lparr>l_layers := filter (\<lambda>q. ly_ID (l_heap s q) \<noteq> ident) (l_layers s)\<rparr>)"

definition stage_deletion :: "string \<Rightarrow> ('d, unit) lop" where
  "stage_deletion ident =
     op_seq (unless_missing io_call)
    (op_seq (op_update (\<lambda>s. s\<lparr>l_tarsplit := (l_tarsplit s)(ident := None)\<rparr>))
    (op_seq (unless_missing io_call)
    (op_update (\<lambda>s. s\<lparr>l_data := (\<lambda>(j, key). if j = ident then None else l_data s (j, key))\<rparr>))))"

definition internalDelete :: "'d Driver \<Rightarrow> string \<Rightarrow> ('d, unit) lop" where
  "internalDelete drv k =
     writable (with_layer k (\<lambda>p.
       op_seq (op_read (\<lambda>s. layerHasIncompleteFlag (l_heap s p)) (\<lambda>incomplete.
                 if incomplete then op_return ()
                 else op_seq (op_update (upd_layer p (\<lambda>l. l\<lparr>ly_Flags := (ly_Flags l)(''incomplete'' \<mapsto> FlagBool True)\<rparr>)))
                        (layer_saveFor drv p False)))
      (op_seq io_call
      (op_read (\<lambda>s. ly_ID (l_heap s p)) (\<lambda>ident.
       op_seq (unless_missing (drive (drv_DeferredRemove drv ident)))
      (op_seq (stage_deletion ident)
      (op_update (layer_unlink p))))))))"

section \<open>Loading\<close>

definition layer_removeName :: "nat \<Rightarrow> string \<Rightarrow> (nat \<Rightarrow> Layer) \<Rightarrow> (nat \<Rightarrow> Layer)" where
  "layer_removeName p name h = h(p := (h p)\<lparr>ly_Names := stringSliceWithoutValue (ly_Names (h p)) name\<rparr>)"

text \<open>The records of one file that are not duplicates of one before, marked with where they came from.\<close>

fun load_layers :: "string list \<Rightarrow> layerLocation \<Rightarrow> Layer list \<Rightarrow> Layer list" where
  "load_layers ids loc [] = []"
| "load_layers ids loc (l # ls) =
     (if ly_ID l \<in> set ids then load_layers ids loc ls
      else l\<lparr>ly_location := Some loc\<rparr> # load_layers (ly_ID l # ids) loc ls)"

definition layer_records :: "'d layerStore \<Rightarrow> Layer list" where
  "layer_records s =
     (let stable = load_layers [] stableLayerLocation (l_json s stableLayerLocation);
          image = (if l_imagedir s
                   then load_layers (map ly_ID stable) imageStoreLayerLocation (l_json s imageStoreLayerLocation) else []);
          volatile = load_layers (map ly_ID (stable @ image)) volatileLayerLocation (l_json s volatileLayerLocation)
      in stable @ image @ volatile)"

definition append_sum :: "string \<Rightarrow> string \<Rightarrow> (string \<Rightarrow> string list) \<Rightarrow> (string \<Rightarrow> string list)" where
  "append_sum d ident m = (if d = '''' then m else m(d := m d @ [ident]))"

record layer_loading =
  ll_heap :: "nat \<Rightarrow> Layer"
  ll_names :: "string \<rightharpoonup> nat"
  ll_idlist :: "string list"
  ll_compressed :: "string \<Rightarrow> string list"
  ll_uncompressed :: "string \<Rightarrow> string list"
  ll_toc :: "string \<Rightarrow> string list"
  ll_labels :: "string list"
  ll_modified :: "layerLocation set"
  ll_error :: "go_error option"

definition load_layer_name :: "nat \<Rightarrow> layer_loading \<Rightarrow> string \<Rightarrow> layer_loading" where
  "load_layer_name p ld name =
     (let ld1 = (case ll_names ld name of
                   None \<Rightarrow> ld
                 | Some conflict \<Rightarrow>
                     ld\<lparr>ll_heap := layer_removeName conflict name (ll_heap ld),
                        ll_error := Some ErrDuplicateLayerNames,
                        ll_modified := set_option (ly_location (ll_heap ld conflict)) \<union> ll_modified ld\<rparr>)
      in ld1\<lparr>ll_names := (ll_names ld1)(name \<mapsto> p)\<rparr>)"

text \<open>The body of the loop; the labels are reserved after the loop, since a failure gives up the load.\<close>

definition load_layer :: "bool \<Rightarrow> layer_loading \<Rightarrow> nat \<Rightarrow> layer_loading" where
  "load_layer rw ld p =
     (let l = ll_heap ld p;
          ld1 = foldl (load_layer_name p) (ld\<lparr>ll_idlist := ll_idlist ld @ [ly_ID l]\<rparr>) (ly_Names l);
          ld2 = ld1\<lparr>ll_compressed := append_sum (ly_CompressedDigest l) (ly_ID l) (ll_compressed ld1),
                    ll_uncompressed := append_sum (ly_UncompressedDigest l) (ly_ID l) (ll_uncompressed ld1),
                    ll_toc := append_sum (ly_TOCDigest l) (ly_ID l) (ll_toc ld1),
                    ll_labels := (if ly_MountLabel l = '''' then ll_labels ld1 else ll_labels ld1 @ [ly_MountLabel l]),
                    ll_heap := (ll_heap ld1)(p := (ll_heap ld1 p)\<lparr>ly_ReadOnly := \<not> rw\<rparr>)\<rparr>
      in if layerHasIncompleteFlag l \<and> rw then ld2\<lparr>ll_error := Some (ErrFmt ''an incomplete layer exists'')\<rparr> else ld2)"

definition layer_load_loop :: "'d layerStore \<Rightarrow> layer_loading" where
  "layer_load_loop s =
     (let ls = layer_records s
      in foldl (load_layer (IsReadWrite s))
           \<lparr>ll_heap = (\<lambda>p. if l_next s \<le> p \<and> p < l_next s + length ls then ls ! (p - l_next s) else l_heap s p),
            ll_names = Map.empty, ll_idlist = [], ll_compressed = (\<lambda>_. []), ll_uncompressed = (\<lambda>_. []), ll_toc = (\<lambda>_. []),
            ll_labels = [], ll_modified = {}, ll_error = None\<rparr>
           [l_next s ..< l_next s + length ls])"

definition layer_installed :: "'d layerStore \<Rightarrow> 'd layerStore" where
  "layer_installed s =
     (let ld = layer_load_loop s; ls = layer_records s; ps = [l_next s ..< l_next s + length ls]
      in s\<lparr>l_heap := ll_heap ld, l_next := l_next s + length ls, l_layers := ps, l_idindex := NewTruncIndex (ll_idlist ld),
           l_byid := map_of (zip (map ly_ID ls) ps), l_byname := ll_names ld,
           l_bycompressedsum := ll_compressed ld, l_byuncompressedsum := ll_uncompressed ld, l_bytocsum := ll_toc ld\<rparr>)"

text \<open>Reading the files: for each a call for its status, one for its contents and one to decode them.\<close>

definition stat_file :: "layerLocation \<Rightarrow> ('d, unit) lop" where
  "stat_file loc =
     op_seq io_call
       (op_update (\<lambda>s. if l_mtime s loc = 0 then s else s\<lparr>l_pathsModified := (l_pathsModified s)(loc := l_mtime s loc)\<rparr>))"

definition read_files :: "('d, unit) lop" where
  "read_files =
     op_each (\<lambda>loc. op_read l_imagedir (\<lambda>imagedir.
         if loc = imageStoreLayerLocation \<and> \<not> imagedir then op_return ()
         else op_seq (stat_file loc) (op_seq io_call io_call)))
       [stableLayerLocation, imageStoreLayerLocation, volatileLayerLocation]"

definition load_mounts_fresh :: "('d, unit) lop" where
  "load_mounts_fresh =
     op_read IsReadWrite (\<lambda>rw.
       if \<not> rw then op_return ()
       else op_seq io_call (op_read l_mounts_disk (\<lambda>lw.
              op_seq loadMounts (op_update (\<lambda>s. s\<lparr>l_mountsLastWrite := lw\<rparr>)))))"

text \<open>Every incomplete layer is deleted; failures are collected and the others still removed.\<close>

fun delete_incomplete ::
  "'d Driver \<Rightarrow> nat list \<Rightarrow> go_error option \<Rightarrow> layerLocation set \<Rightarrow> 'd layerStore \<Rightarrow>
     (go_error option \<times> layerLocation set) \<times> 'd layerStore" where
  "delete_incomplete drv [] err modified s = ((err, modified), s)"
| "delete_incomplete drv (p # ps) err modified s =
     (case internalDelete drv (ly_ID (l_heap s p)) s of
        (r, s1) \<Rightarrow>
          delete_incomplete drv ps (case r of Inl e \<Rightarrow> if err = None then Some e else err | Inr _ \<Rightarrow> err)
            (set_option (ly_location (l_heap s1 p)) \<union> modified) s1)"

definition clean_up :: "'d Driver \<Rightarrow> layerLocation set \<Rightarrow> ('d, unit) lop" where
  "clean_up drv modified s =
     (case delete_incomplete drv (filter (\<lambda>p. layerHasIncompleteFlag (l_heap s p)) (l_layers s)) None modified s of
        ((err, modified1), s1) \<Rightarrow>
          op_seq (saveLayers drv modified1 False) (case err of None \<Rightarrow> op_return () | Some e \<Rightarrow> op_fail e) s1)"

definition load_prepare :: "'d Driver \<Rightarrow> ('d, unit) lop" where
  "load_prepare drv =
     op_read IsReadWrite (\<lambda>rw.
       op_seq (if rw then op_seq io_call (op_each (\<lambda>_. io_call) (drv_TempDirRootDirs drv)) else op_return ())
      (op_seq read_files
      (op_read (\<lambda>s. ll_labels (layer_load_loop s)) (op_each (\<lambda>_. io_call)))))"

definition layer_load :: "'d Driver \<Rightarrow> bool \<Rightarrow> 'd layerStore \<Rightarrow> (bool \<times> go_error option) \<times> 'd layerStore" where
  "layer_load drv lockedForWriting s0 =
     (case load_prepare drv s0 of
        (Inl e, s) \<Rightarrow> ((False, Some e), s)
      | (Inr _, s) \<Rightarrow>
          (let err = ll_error (layer_load_loop s); modified = ll_modified (layer_load_loop s)
           in if err \<noteq> None \<and> \<not> IsReadWrite s then ((False, err), s)
              else if err \<noteq> None \<and> \<not> lockedForWriting then ((True, err), s)
              else (case op_seq load_mounts_fresh (if err = None then op_return () else clean_up drv modified) (layer_installed s) of
                      (Inl e, s1) \<Rightarrow> ((False, Some e), s1)
                    | (Inr _, s1) \<Rightarrow> ((False, None), s1))))"

text \<open>Whether the files have changed, by the mark of the lock file or by their modification times.\<close>

fun paths_changed :: "layerLocation list \<Rightarrow> ('d, bool) lop" where
  "paths_changed [] = op_return False"
| "paths_changed (loc # locs) =
     op_read (\<lambda>s. (l_imagedir s, l_mtime s loc, l_pathsModified s loc)) (\<lambda>(imagedir, mtime, seen).
       if loc = imageStoreLayerLocation \<and> \<not> imagedir then paths_changed locs
       else op_seq io_call (if mtime \<noteq> 0 \<and> mtime \<noteq> seen then op_return True else paths_changed locs))"

definition layersModified :: "('d, nat \<times> bool) lop" where
  "layersModified =
     op_read lastWrite (\<lambda>previous. op_then (ModifiedSince previous) (\<lambda>(lw, changed).
       if changed then op_return (lw, True)
       else op_then (paths_changed [stableLayerLocation, imageStoreLayerLocation, volatileLayerLocation]) (\<lambda>changed2.
              op_return (lw, changed2))))"

definition layer_modified :: "('d, bool) lop" where
  "layer_modified =
     op_then layersModified (\<lambda>(_, m).
       if m then op_return True
       else op_read IsReadWrite (\<lambda>rw.
         if \<not> rw then op_return False
         else op_seq io_call (op_read (\<lambda>s. l_mounts_disk s \<noteq> l_mountsLastWrite s) op_return)))"

definition layer_reloadIfChanged :: "'d Driver \<Rightarrow> bool \<Rightarrow> 'd layerStore \<Rightarrow> (bool \<times> go_error option) \<times> 'd layerStore" where
  "layer_reloadIfChanged drv lockedForWriting s0 =
     (case layersModified s0 of
        (Inl e, s) \<Rightarrow> ((False, Some e), s)
      | (Inr (lw, True), s) \<Rightarrow>
          (case layer_load drv lockedForWriting s of
             ((again, Some e), s1) \<Rightarrow> ((again, Some e), s1)
           | ((_, None), s1) \<Rightarrow> ((False, None), s1\<lparr>lastWrite := lw\<rparr>))
      | (Inr (_, False), s) \<Rightarrow>
          (case op_read IsReadWrite (\<lambda>rw. if rw then reloadMountsIfChanged else op_return ()) s of
             (Inl e, s1) \<Rightarrow> ((False, Some e), s1)
           | (Inr _, s1) \<Rightarrow> ((False, None), s1)))"

section \<open>Queries\<close>

definition layer_Layers :: "'d layerStore \<Rightarrow> Layer list" where
  "layer_Layers s = map (l_heap s) (l_layers s)"

definition layer_Exists :: "'d layerStore \<Rightarrow> string \<Rightarrow> bool" where
  "layer_Exists s k \<longleftrightarrow> layer_lookup s k \<noteq> None"

definition layer_Get :: "'d layerStore \<Rightarrow> string \<Rightarrow> Layer res" where
  "layer_Get s k = (case layer_lookup s k of Some p \<Rightarrow> Inr (l_heap s p) | None \<Rightarrow> Inl ErrLayerUnknown)"

definition layer_GetMetadata :: "'d layerStore \<Rightarrow> string \<Rightarrow> string res" where
  "layer_GetMetadata s k = (case layer_lookup s k of Some p \<Rightarrow> Inr (ly_Metadata (l_heap s p)) | None \<Rightarrow> Inl ErrLayerUnknown)"

definition layer_Size :: "'d layerStore \<Rightarrow> string \<Rightarrow> int res" where
  "layer_Size s k =
     (case layer_lookup s k of
        None \<Rightarrow> Inl ErrLayerUnknown
      | Some p \<Rightarrow>
          (let l = l_heap s p
           in if ly_UncompressedDigest l \<noteq> '''' \<or> ly_TOCDigest l \<noteq> '''' then Inr (ly_UncompressedSize l) else Inr (- 1)))"

definition layer_Mounted :: "'d layerStore \<Rightarrow> string \<Rightarrow> int res" where
  "layer_Mounted s k =
     (if \<not> IsReadWrite s then Inl ErrStoreIsReadOnly
      else case layer_lookup s k of Some p \<Rightarrow> Inr (ly_MountCount (l_heap s p)) | None \<Rightarrow> Inl ErrLayerUnknown)"

definition layer_GetBigDataNames :: "'d layerStore \<Rightarrow> string \<Rightarrow> string list res" where
  "layer_GetBigDataNames s k =
     (case layer_lookup s k of Some p \<Rightarrow> Inr (ly_BigDataNames (l_heap s p)) | None \<Rightarrow> Inl ErrImageUnknown)"

fun layersByDigest_loop :: "'d layerStore \<Rightarrow> string list \<Rightarrow> Layer list res" where
  "layersByDigest_loop s [] = Inr []"
| "layersByDigest_loop s (k # ks) =
     (case layer_lookup s k of
        None \<Rightarrow> Inl ErrLayerUnknown
      | Some p \<Rightarrow> (case layersByDigest_loop s ks of Inl e \<Rightarrow> Inl e | Inr ls \<Rightarrow> Inr (l_heap s p # ls)))"

definition layersByDigestMap :: "'d layerStore \<Rightarrow> (string \<Rightarrow> string list) \<Rightarrow> string \<Rightarrow> Layer list res" where
  "layersByDigestMap s m d = layersByDigest_loop s (m d)"

definition LayersByCompressedDigest :: "'d layerStore \<Rightarrow> string \<Rightarrow> Layer list res" where
  "LayersByCompressedDigest s d = layersByDigestMap s (l_bycompressedsum s) d"

definition LayersByUncompressedDigest :: "'d layerStore \<Rightarrow> string \<Rightarrow> Layer list res" where
  "LayersByUncompressedDigest s d = layersByDigestMap s (l_byuncompressedsum s) d"

definition LayersByTOCDigest :: "'d layerStore \<Rightarrow> string \<Rightarrow> Layer list res" where
  "LayersByTOCDigest s d = layersByDigestMap s (l_bytocsum s) d"

text \<open>The layers a difference is taken between: the identifiers, and the records as far as they exist.\<close>

definition findParentAndLayer ::
  "'d layerStore \<Rightarrow> string \<Rightarrow> string \<Rightarrow> (string \<times> string \<times> nat option \<times> nat) res" where
  "findParentAndLayer s from to =
     (case layer_lookup s to of
        None \<Rightarrow> Inl ErrLayerUnknown
      | Some toLayer \<Rightarrow>
          (let toID = ly_ID (l_heap s toLayer); parent = ly_Parent (l_heap s toLayer);
               from1 = (if from = '''' then parent else from)
           in if from1 = '''' then Inr (from1, toID, None, toLayer)
              else case layer_lookup s from1 of
                     Some q \<Rightarrow> Inr (ly_ID (l_heap s q), toID, Some q, toLayer)
                   | None \<Rightarrow>
                       (case layer_lookup s parent of
                          Some q \<Rightarrow> Inr (ly_ID (l_heap s q), toID, Some q, toLayer)
                        | None \<Rightarrow> Inr (from1, toID, None, toLayer))))"

section \<open>Changing records\<close>

definition layer_ClearFlag :: "'d Driver \<Rightarrow> string \<Rightarrow> string \<Rightarrow> ('d, unit) lop" where
  "layer_ClearFlag drv k flag =
     writable (with_layer k (\<lambda>p.
       op_seq (op_update (upd_layer p (\<lambda>l. l\<lparr>ly_Flags := (ly_Flags l)(flag := None)\<rparr>))) (layer_saveFor drv p False)))"

definition layer_SetFlag :: "'d Driver \<Rightarrow> string \<Rightarrow> string \<Rightarrow> flag_value \<Rightarrow> ('d, unit) lop" where
  "layer_SetFlag drv k flag v =
     writable (with_layer k (\<lambda>p.
       op_seq (op_update (upd_layer p (\<lambda>l. l\<lparr>ly_Flags := (ly_Flags l)(flag \<mapsto> v)\<rparr>))) (layer_saveFor drv p False)))"

definition layer_SetMetadata :: "'d Driver \<Rightarrow> string \<Rightarrow> string \<Rightarrow> ('d, unit) lop" where
  "layer_SetMetadata drv k metadata =
     writable (with_layer k (\<lambda>p.
       op_seq (op_update (upd_layer p (\<lambda>l. l\<lparr>ly_Metadata := metadata\<rparr>))) (layer_saveFor drv p False)))"

definition layer_take_name :: "nat \<Rightarrow> 'd layerStore \<Rightarrow> string \<Rightarrow> 'd layerStore" where
  "layer_take_name p s name =
     (let s1 = (case l_byname s name of
                  Some q \<Rightarrow> s\<lparr>l_heap := layer_removeName q name (l_heap s)\<rparr>
                | None \<Rightarrow> s)
      in s1\<lparr>l_byname := (l_byname s1)(name \<mapsto> p)\<rparr>)"

definition layer_updateNames :: "'d Driver \<Rightarrow> string \<Rightarrow> string list \<Rightarrow> updateNameOperation \<Rightarrow> ('d, unit) lop" where
  "layer_updateNames drv k names op =
     writable (with_layer k (\<lambda>p. op_read (\<lambda>s. ly_Names (l_heap s p)) (\<lambda>oldNames.
       case applyNameOperation oldNames names op of
         Inl e \<Rightarrow> op_fail e
       | Inr newNames \<Rightarrow>
           op_seq (op_update (\<lambda>s. s\<lparr>l_byname := del_all oldNames (l_byname s)\<rparr>))
          (op_seq (op_update (\<lambda>s. foldl (layer_take_name p) s newNames))
          (op_seq (op_update (upd_layer p (\<lambda>l. l\<lparr>ly_Names := newNames\<rparr>))) (layer_saveFor drv p False))))))"

definition layer_BigData :: "string \<Rightarrow> string \<Rightarrow> ('d, string) lop" where
  "layer_BigData k key =
     (if key = '''' then op_fail ErrInvalidBigDataName
      else with_layer k (\<lambda>p. op_seq io_call (op_read (\<lambda>s. l_data s (ly_ID (l_heap s p), makeBigDataBaseName key)) (\<lambda>r.
             case r of None \<Rightarrow> op_fail ErrNotExist | Some d \<Rightarrow> op_return d))))"

definition layer_setBigData :: "'d Driver \<Rightarrow> nat \<Rightarrow> string \<Rightarrow> string \<Rightarrow> ('d, unit) lop" where
  "layer_setBigData drv p key data =
     (if key = '''' then op_fail ErrInvalidBigDataName
      else op_seq io_call
          (op_seq io_call
          (op_seq io_call
          (op_seq io_call
          (op_seq (op_update (\<lambda>s. s\<lparr>l_data := (l_data s)((ly_ID (l_heap s p), makeBigDataBaseName key) \<mapsto> data)\<rparr>))
          (op_read (\<lambda>s. key \<in> set (ly_BigDataNames (l_heap s p))) (\<lambda>known.
             if known then op_return ()
             else op_seq (op_update (upd_layer p (\<lambda>l. l\<lparr>ly_BigDataNames := ly_BigDataNames l @ [key]\<rparr>)))
                    (layer_saveFor drv p False))))))))"

definition layer_SetBigData :: "'d Driver \<Rightarrow> string \<Rightarrow> string \<Rightarrow> string \<Rightarrow> ('d, unit) lop" where
  "layer_SetBigData drv k key data = writable (with_layer k (\<lambda>p. layer_setBigData drv p key data))"

section \<open>Mounting\<close>

text \<open>
  \<open>Mount\<close>. A store that is read-only has no lock file for its mounts. \<open>maps\<close> are the mappings of
  the request, if it has any.
\<close>

definition layer_Mount ::
  "'d Driver \<Rightarrow> string \<Rightarrow> string list \<Rightarrow> string \<Rightarrow> (IDMap list \<times> IDMap list) option \<Rightarrow> ('d, string) lop" where
  "layer_Mount drv k options mountLabel maps =
     op_read IsReadWrite (\<lambda>rw.
       if \<not> rw \<and> ''ro'' \<notin> set options then op_fail ErrStoreIsReadOnly
       else if \<not> rw then op_fail (Panic ''nil lock file'')
       else op_seq reloadMountsIfChanged (with_layer k (\<lambda>p.
         op_then (op_read (\<lambda>s. l_heap s p) (\<lambda>l.
                    if 0 < ly_MountCount l then drive (sys_Mounted drv (ly_MountPoint l)) else op_return False)) (\<lambda>mounted.
         if mounted
         then op_seq (op_update (upd_layer p (\<lambda>l. l\<lparr>ly_MountCount := ly_MountCount l + 1\<rparr>)))
             (op_read (\<lambda>s. ly_MountPoint (l_heap s p)) (\<lambda>mountpoint. op_seq saveMounts (op_return mountpoint)))
         else op_read (\<lambda>s. l_heap s p) (\<lambda>l.
           if (case maps of None \<Rightarrow> False
               | Some (us, gs) \<Rightarrow> \<not> drv_SupportsShifting drv us gs \<and> (us \<noteq> ly_UIDMap l \<or> gs \<noteq> ly_GIDMap l))
           then op_fail (ErrFmt ''shifting not enabled'')
           else op_then (drive (drv_Get drv k (if mountLabel = '''' then ly_MountLabel l else mountLabel))) (\<lambda>mountpoint.
             if mountpoint = '''' then op_return mountpoint
             else op_seq (op_update (\<lambda>s. let l = l_heap s p; m = filepath_Clean mountpoint
                           in (upd_layer p (\<lambda>l. l\<lparr>ly_MountPoint := m, ly_MountCount := ly_MountCount l + 1\<rparr>) s)
                                \<lparr>l_bymount := ((if ly_MountPoint l \<noteq> '''' then (l_bymount s)(ly_MountPoint l := None)
                                               else l_bymount s)(m \<mapsto> p))\<rparr>))
                 (op_seq saveMounts (op_return mountpoint))))))))"

text \<open>\<open>unmount\<close>: the result tells whether the layer is still mounted.\<close>

definition unmount_lookup :: "'d layerStore \<Rightarrow> string \<Rightarrow> nat option" where
  "unmount_lookup s k = (case layer_lookup s k of Some p \<Rightarrow> Some p | None \<Rightarrow> l_bymount s (filepath_Clean k))"

definition unmount_locked :: "'d Driver \<Rightarrow> string \<Rightarrow> bool \<Rightarrow> bool \<Rightarrow> ('d, bool) lop" where
  "unmount_locked drv k force conditional =
     op_read (\<lambda>s. unmount_lookup s k) (\<lambda>found.
       case found of
         None \<Rightarrow> op_fail ErrLayerUnknown
       | Some p \<Rightarrow>
           op_read (\<lambda>s. ly_MountCount (l_heap s p)) (\<lambda>count0.
             if conditional \<and> count0 = 0 then op_fail ErrLayerNotMounted
             else op_seq (op_update (upd_layer p (\<lambda>l. l\<lparr>ly_MountCount := (if force then 1 else ly_MountCount l)\<rparr>)))
                 (op_read (\<lambda>s. ly_MountCount (l_heap s p)) (\<lambda>count.
                    if 1 < count
                    then op_seq (op_update (upd_layer p (\<lambda>l. l\<lparr>ly_MountCount := ly_MountCount l - 1\<rparr>)))
                           (op_seq saveMounts (op_return True))
                    else op_seq (unless_missing (drive (drv_Put drv k)))
                        (op_seq (op_update (\<lambda>s.
                           (upd_layer p (\<lambda>l. l\<lparr>ly_MountCount := ly_MountCount l - 1, ly_MountPoint := ''''\<rparr>) s)
                             \<lparr>l_bymount := (if ly_MountPoint (l_heap s p) \<noteq> ''''
                                            then (l_bymount s)(ly_MountPoint (l_heap s p) := None) else l_bymount s)\<rparr>))
                        (op_seq saveMounts (op_return False)))))))"

definition unmount :: "'d Driver \<Rightarrow> string \<Rightarrow> bool \<Rightarrow> bool \<Rightarrow> ('d, bool) lop" where
  "unmount drv k force conditional = writable (op_seq reloadMountsIfChanged (unmount_locked drv k force conditional))"

text \<open>
  The loop of \<open>deferredDelete\<close>, with a bound on the number of turns. \<open>mount_turns\<close> is a bound that is
  never exceeded: the count in memory or, when the file has changed, one in the file, and the
  turn that finds the layer not mounted.
\<close>

fun unmount_loop :: "'d Driver \<Rightarrow> nat \<Rightarrow> string \<Rightarrow> ('d, unit) lop" where
  "unmount_loop drv 0 ident = op_fail (Panic ''out of turns'')"
| "unmount_loop drv (Suc n) ident =
     (\<lambda>s. case unmount drv ident False True s of
            (Inl e, s1) \<Rightarrow> if e = ErrLayerNotMounted then (Inr (), s1) else (Inl e, s1)
          | (Inr _, s1) \<Rightarrow> unmount_loop drv n ident s1)"

definition mount_turns :: "'d layerStore \<Rightarrow> nat \<Rightarrow> nat" where
  "mount_turns s p =
     Suc (Suc (nat (fold max (ly_MountCount (l_heap s p) # map mp_MountCount (l_mounts s)) 0)))"

definition deferredDelete :: "'d Driver \<Rightarrow> string \<Rightarrow> ('d, unit) lop" where
  "deferredDelete drv k =
     with_layer k (\<lambda>p. op_read (\<lambda>s. (ly_ID (l_heap s p), mount_turns s p)) (\<lambda>(ident, n).
       op_seq (unmount_loop drv n ident)
      (op_seq (internalDelete drv ident)
      (layer_saveFor drv p False))))"

text \<open>Cleaning up the temporary directories is one more call, which runs whether the deletion failed or not.\<close>

definition deleteWhileHoldingLock :: "'d Driver \<Rightarrow> string \<Rightarrow> ('d, unit) lop" where
  "deleteWhileHoldingLock drv k s =
     (case deferredDelete drv k s of
        (Inl e, s1) \<Rightarrow> (Inl e, snd (io_call s1))
      | (Inr _, s1) \<Rightarrow> io_call s1)"

text \<open>\<open>ids\<close> are the identifiers of the store, the layers that were created last first.\<close>

definition layer_Wipe :: "'d Driver \<Rightarrow> string list \<Rightarrow> ('d, unit) lop" where
  "layer_Wipe drv ids =
     writable (op_seq (op_each (deleteWhileHoldingLock drv) ids)
       (op_then (\<lambda>s. case drive (drv_ListLayers drv) s of
                    (Inl e, s1) \<Rightarrow> if e = ErrNotSupported then (Inr [], s1) else (Inl e, s1)
                  | (Inr ids, s1) \<Rightarrow> (Inr ids, s1))
         (op_each (\<lambda>ident. drive (drv_Remove drv ident)))))"

section \<open>Creating\<close>

record applyDiffResult =
  ad_compressedDigest :: string
  ad_compressedSize :: int
  ad_compressionType :: int
  ad_uncompressedDigest :: string
  ad_uncompressedSize :: int
  ad_uids :: "nat list"
  ad_gids :: "nat list"
  ad_size :: int

record DriverWithDifferOutput =
  do_Size :: int
  do_UIDs :: "nat list"
  do_GIDs :: "nat list"
  do_UncompressedDigest :: string
  do_CompressedDigest :: string
  do_TOCDigest :: string
  do_Metadata :: string
  do_BigData :: "(string \<times> string) list"
  do_TarSplit :: "string option"
  do_Flags :: "string \<rightharpoonup> flag_value"

text \<open>
  The contents of a new layer: what a staged extraction has produced, a stream that is extracted
  now, with what that will produce, or a staging directory.
\<close>

datatype layerContents =
    NoContents
  | StagedExtraction applyDiffResult string
  | Diff applyDiffResult string
  | StagingDirectory DriverWithDifferOutput

record LayerOptions =
  lopt_TemplateLayer :: string
  lopt_Volatile :: bool
  lopt_BigData :: "(string \<times> string) list"
  lopt_Flags :: "string \<rightharpoonup> flag_value"
  lopt_HostUIDMapping :: bool
  lopt_HostGIDMapping :: bool
  lopt_UIDMap :: "IDMap list"
  lopt_GIDMap :: "IDMap list"

definition updateDigestMap :: "(string \<Rightarrow> string list) \<Rightarrow> string \<Rightarrow> string \<Rightarrow> string \<Rightarrow> (string \<Rightarrow> string list)" where
  "updateDigestMap m oldvalue newvalue ident =
     append_sum newvalue ident (if oldvalue = '''' then m else m(oldvalue := filter (\<lambda>x. x \<noteq> ident) (m oldvalue)))"

definition applyDiffResultToLayer :: "nat \<Rightarrow> applyDiffResult \<Rightarrow> 'd layerStore \<Rightarrow> 'd layerStore" where
  "applyDiffResultToLayer p result s =
     (let l = l_heap s p
      in (upd_layer p (\<lambda>l. l\<lparr>ly_CompressedDigest := ad_compressedDigest result, ly_CompressedSize := ad_compressedSize result,
             ly_UncompressedDigest := ad_uncompressedDigest result, ly_UncompressedSize := ad_uncompressedSize result,
             ly_CompressionType := ad_compressionType result, ly_UIDs := ad_uids result, ly_GIDs := ad_gids result\<rparr>) s)
          \<lparr>l_bycompressedsum := updateDigestMap (l_bycompressedsum s) (ly_CompressedDigest l) (ad_compressedDigest result) (ly_ID l),
           l_byuncompressedsum :=
             updateDigestMap (l_byuncompressedsum s) (ly_UncompressedDigest l) (ad_uncompressedDigest result) (ly_ID l)\<rparr>)"

definition applyDiffWithOptions :: "'d Driver \<Rightarrow> string \<Rightarrow> applyDiffResult \<Rightarrow> string \<Rightarrow> ('d, int) lop" where
  "applyDiffWithOptions drv k result tarSplit =
     writable (with_layer k (\<lambda>p. op_read (\<lambda>s. ly_ID (l_heap s p)) (\<lambda>ident.
       op_seq io_call
      (op_seq io_call
      (op_seq (drive (drv_ApplyDiff drv ident))
      (op_seq io_call
      (op_seq (op_update (\<lambda>s. s\<lparr>l_tarsplit := (l_tarsplit s)(ident \<mapsto> tarSplit)\<rparr>))
      (op_seq (op_update (applyDiffResultToLayer p result))
      (op_seq (layer_saveFor drv p True)
      (op_return (ad_size result)))))))))))"

definition differ_output :: "nat \<Rightarrow> DriverWithDifferOutput \<Rightarrow> 'd layerStore \<Rightarrow> 'd layerStore" where
  "differ_output p out s =
     (let l = l_heap s p
      in (upd_layer p (\<lambda>l. l\<lparr>ly_UIDs := do_UIDs out, ly_GIDs := do_GIDs out,
             ly_UncompressedDigest := do_UncompressedDigest out, ly_CompressedDigest := do_CompressedDigest out,
             ly_TOCDigest := do_TOCDigest out, ly_UncompressedSize := do_Size out, ly_Metadata := do_Metadata out,
             ly_Flags := ly_Flags l ++ do_Flags out\<rparr>) s)
          \<lparr>l_bycompressedsum := updateDigestMap (l_bycompressedsum s) (ly_CompressedDigest l) (do_CompressedDigest out) (ly_ID l),
           l_byuncompressedsum :=
             updateDigestMap (l_byuncompressedsum s) (ly_UncompressedDigest l) (do_UncompressedDigest out) (ly_ID l),
           l_bytocsum := updateDigestMap (l_bytocsum s) (ly_TOCDigest l) (do_TOCDigest out) (ly_ID l)\<rparr>)"

definition applyDiffFromStagingDirectory :: "'d Driver \<Rightarrow> string \<Rightarrow> DriverWithDifferOutput \<Rightarrow> ('d, unit) lop" where
  "applyDiffFromStagingDirectory drv k out =
     (if \<not> drv_HasDiffer drv then op_fail ErrNotSupported
      else with_layer k (\<lambda>p. op_read (\<lambda>s. l_heap s p) (\<lambda>l.
        op_seq (drive (drv_ApplyDiffFromStagingDirectory drv (ly_ID l) (ly_Parent l)))
       (op_seq (op_update (differ_output p out))
       (op_seq (case do_TarSplit out of
                  None \<Rightarrow> op_return ()
                | Some t \<Rightarrow> op_seq io_call (op_seq io_call (op_seq io_call
                    (op_update (\<lambda>s. s\<lparr>l_tarsplit := (l_tarsplit s)(ly_ID l \<mapsto> t)\<rparr>)))))
       (op_seq (op_each (\<lambda>(key, data). op_cleanup (layer_SetBigData drv k key data) (deleteWhileHoldingLock drv k)) (do_BigData out))
       (layer_saveFor drv p True)))))))"

definition pickStoreLocation :: "bool \<Rightarrow> bool \<Rightarrow> bool \<Rightarrow> layerLocation" where
  "pickStoreLocation imagedir volatile writeable =
     (if volatile then volatileLayerLocation
      else if \<not> writeable \<and> imagedir then imageStoreLayerLocation
      else stableLayerLocation)"

definition checkIdOrNameConflict :: "'d layerStore \<Rightarrow> string \<Rightarrow> string list \<Rightarrow> go_error option" where
  "checkIdOrNameConflict s ident names =
     (if l_byid s ident \<noteq> None then Some ErrDuplicateID
      else if \<exists>n \<in> set names. l_byname s n \<noteq> None then Some ErrDuplicateName
      else None)"

definition layer_link :: "nat \<Rightarrow> Layer \<Rightarrow> string list \<Rightarrow> 'd layerStore \<Rightarrow> 'd layerStore" where
  "layer_link p l names s =
     s\<lparr>l_heap := (l_heap s)(p := l), l_next := Suc p, l_layers := l_layers s @ [p],
       l_idindex := fst (index_Add (l_idindex s) (ly_ID l)),
       l_byid := (l_byid s)(ly_ID l \<mapsto> p),
       l_byname := put_all names p (l_byname s)\<rparr>"

definition add_sums :: "nat \<Rightarrow> 'd layerStore \<Rightarrow> 'd layerStore" where
  "add_sums p s =
     (let l = l_heap s p
      in s\<lparr>l_bycompressedsum := append_sum (ly_CompressedDigest l) (ly_ID l) (l_bycompressedsum s),
           l_byuncompressedsum := append_sum (ly_UncompressedDigest l) (ly_ID l) (l_byuncompressedsum s),
           l_bytocsum := append_sum (ly_TOCDigest l) (ly_ID l) (l_bytocsum s)\<rparr>)"

text \<open>\<open>info\<close> is the record an additional layer comes with, decoded from JSON.\<close>

definition PutAdditionalLayer :: "'d Driver \<Rightarrow> int \<Rightarrow> string \<Rightarrow> Layer option \<Rightarrow> string list \<Rightarrow> Layer \<Rightarrow> ('d, Layer) lop" where
  "PutAdditionalLayer drv now ident parentLayer names info =
     op_read (\<lambda>s. (checkIdOrNameConflict s ident names, l_next s)) (\<lambda>(conflict, p).
       case conflict of
         Some e \<Rightarrow> op_fail e
       | None \<Rightarrow>
           op_seq io_call
          (op_seq io_call
          (op_seq io_call
          (op_seq (op_update (layer_link p
                     ((json_layer info)\<lparr>ly_ID := ident, ly_Created := now,
                        ly_Parent := (case parentLayer of None \<Rightarrow> '''' | Some q \<Rightarrow> ly_ID q)\<rparr>) names))
          (op_seq (op_update (add_sums p))
          (op_seq (op_cleanup (layer_saveFor drv p True) (deleteWhileHoldingLock drv ident))
          (op_read (\<lambda>s. l_heap s p) op_return)))))))"

text \<open>What a new layer takes over from its template.\<close>

definition no_layer :: Layer where
  "no_layer = \<lparr>ly_ID = '''', ly_Names = [], ly_Parent = '''', ly_Metadata = '''', ly_MountLabel = '''', ly_MountPoint = '''',
     ly_MountCount = 0, ly_Created = 0, ly_CompressedDigest = '''', ly_CompressedSize = 0, ly_UncompressedDigest = '''',
     ly_UncompressedSize = 0, ly_TOCDigest = '''', ly_CompressionType = 0, ly_UIDs = [], ly_GIDs = [], ly_Flags = Map.empty,
     ly_UIDMap = [], ly_GIDMap = [], ly_ReadOnly = False, ly_location = None, ly_BigDataNames = []\<rparr>"

definition new_layer ::
  "int \<Rightarrow> string \<Rightarrow> string \<Rightarrow> string list \<Rightarrow> string \<Rightarrow> Layer \<Rightarrow> LayerOptions \<Rightarrow> layerLocation \<Rightarrow> Layer" where
  "new_layer now ident parent names mountLabel template options loc =
     no_layer\<lparr>ly_ID := ident, ly_Parent := parent, ly_Names := names, ly_MountLabel := mountLabel,
       ly_Metadata := ly_Metadata template, ly_Created := now,
       ly_CompressedDigest := ly_CompressedDigest template, ly_CompressedSize := ly_CompressedSize template,
       ly_UncompressedDigest := ly_UncompressedDigest template, ly_TOCDigest := ly_TOCDigest template,
       ly_UncompressedSize := ly_UncompressedSize template, ly_CompressionType := ly_CompressionType template,
       ly_UIDs := ly_UIDs template, ly_GIDs := ly_GIDs template,
       ly_Flags := (lopt_Flags options)(''incomplete'' \<mapsto> FlagBool True),
       ly_UIDMap := lopt_UIDMap options, ly_GIDMap := lopt_GIDMap options, ly_location := Some loc\<rparr>"

definition driver_create :: "'d Driver \<Rightarrow> string \<Rightarrow> Layer option \<Rightarrow> Layer \<Rightarrow> LayerOptions \<Rightarrow> bool \<Rightarrow> ('d, unit) lop" where
  "driver_create drv ident parentLayer template options writeable =
     (let parent = (case parentLayer of None \<Rightarrow> '''' | Some q \<Rightarrow> ly_ID q);
          host = lopt_HostUIDMapping options \<and> lopt_HostGIDMapping options;
          idMappings = (if host then ([], []) else (lopt_UIDMap options, lopt_GIDMap options));
          oldMappings = (if lopt_TemplateLayer options \<noteq> '''' then Some (ly_UIDMap template, ly_GIDMap template)
                         else map_option (\<lambda>q. (ly_UIDMap q, ly_GIDMap q)) parentLayer)
      in op_seq (drive (if lopt_TemplateLayer options \<noteq> ''''
                        then drv_CreateFromTemplate drv ident (lopt_TemplateLayer options) parent writeable
                        else drv_Create drv writeable ident parent))
           (if oldMappings \<noteq> None \<and> oldMappings \<noteq> Some idMappings
            then drive (drv_UpdateLayerIDMap drv ident) else op_return ()))"

definition copy_tarsplit :: "string \<Rightarrow> string option \<Rightarrow> ('d, unit) lop" where
  "copy_tarsplit ident tsdata =
     (if tsdata = None \<or> tsdata = Some '''' then op_return ()
      else op_seq io_call (op_seq io_call (op_update (\<lambda>s. s\<lparr>l_tarsplit := (l_tarsplit s)(ident := tsdata)\<rparr>))))"

definition fill_layer :: "'d Driver \<Rightarrow> nat \<Rightarrow> string \<Rightarrow> layerContents \<Rightarrow> ('d, int) lop" where
  "fill_layer drv p ident contents =
     (case contents of
        NoContents \<Rightarrow> op_seq (op_update (add_sums p)) (op_return (- 1))
      | StagedExtraction result tarSplit \<Rightarrow>
          op_seq io_call
         (op_seq (op_update (\<lambda>s. s\<lparr>l_tarsplit := (l_tarsplit s)(ident \<mapsto> tarSplit)\<rparr>))
         (op_seq (drive (drv_CommitStagedLayer drv ident))
         (op_seq (op_update (applyDiffResultToLayer p result)) (op_return (- 1)))))
      | Diff result tarSplit \<Rightarrow> applyDiffWithOptions drv ident result tarSplit
      | StagingDirectory out \<Rightarrow> op_seq (applyDiffFromStagingDirectory drv ident out) (op_return (- 1)))"

definition layer_finish ::
  "'d Driver \<Rightarrow> nat \<Rightarrow> string \<Rightarrow> Layer option \<Rightarrow> Layer \<Rightarrow> string option \<Rightarrow> LayerOptions \<Rightarrow> bool \<Rightarrow> layerContents \<Rightarrow> ('d, Layer \<times> int) lop" where
  "layer_finish drv p ident parentLayer template tsdata options writeable contents =
     op_seq (layer_saveFor drv p False)
    (op_seq (op_each (\<lambda>(key, data). layer_setBigData drv p key data) (lopt_BigData options))
    (op_seq (driver_create drv ident parentLayer template options writeable)
    (op_seq (copy_tarsplit ident tsdata)
    (op_then (fill_layer drv p ident contents) (\<lambda>size.
     op_seq (op_update (upd_layer p (\<lambda>l. l\<lparr>ly_Flags := (ly_Flags l)(''incomplete'' := None)\<rparr>)))
    (op_seq (layer_saveFor drv p True)
    (op_read (\<lambda>s. (l_heap s p, size)) op_return)))))))"

definition read_template :: "string \<Rightarrow> ('d, Layer \<times> string option) lop" where
  "read_template k =
     (if k = '''' then op_return (no_layer, None)
      else with_layer k (\<lambda>q. op_seq (unless_missing io_call)
             (op_read (\<lambda>s. (l_heap s q, l_tarsplit s (ly_ID (l_heap s q)))) op_return)))"

definition create_as ::
  "'d Driver \<Rightarrow> int \<Rightarrow> string \<Rightarrow> Layer option \<Rightarrow> string list \<Rightarrow> string \<Rightarrow> LayerOptions \<Rightarrow> bool \<Rightarrow> layerContents \<Rightarrow>
     ('d, Layer \<times> int) lop" where
  "create_as drv now ident parentLayer names mountLabel options writeable contents s0 =
     (let p = l_next s0; parent = (case parentLayer of None \<Rightarrow> '''' | Some q \<Rightarrow> ly_ID q);
          loc = pickStoreLocation (l_imagedir s0) (lopt_Volatile options) writeable
      in case checkIdOrNameConflict s0 ident names of
           Some e \<Rightarrow> (Inl e, s0)
         | None \<Rightarrow>
             op_then (read_template (lopt_TemplateLayer options)) (\<lambda>(template, tsdata).
             op_seq (if mountLabel = '''' then op_return () else io_call)
            (op_seq (op_update (layer_link p (new_layer now ident parent names mountLabel template options loc) names))
            (op_cleanup (layer_finish drv p ident parentLayer template tsdata options writeable contents)
               (deleteWhileHoldingLock drv ident)))) s0)"

definition layer_create ::
  "'d Driver \<Rightarrow> int \<Rightarrow> string list \<Rightarrow> string \<Rightarrow> Layer option \<Rightarrow> string list \<Rightarrow> string \<Rightarrow> LayerOptions \<Rightarrow> bool \<Rightarrow> layerContents \<Rightarrow>
     ('d, Layer \<times> int) lop" where
  "layer_create drv now draws k parentLayer names mountLabel options writeable contents =
     writable
    (op_seq io_call
    (op_seq io_call
    (op_read (\<lambda>s. if k = '''' then fresh_id (\<lambda>j. l_byid s j \<noteq> None) draws else Some k) (\<lambda>chosen.
       case chosen of
         None \<Rightarrow> op_fail (Panic ''random source'')
       | Some ident \<Rightarrow> create_as drv now ident parentLayer names mountLabel options writeable contents))))"

text \<open>
  Garbage collection: the layers of the driver that the store does not have, then the files of
  the layer directory, as \<open>os.ReadDir\<close> lists them.
\<close>

fun gc_driver_layers :: "'d Driver \<Rightarrow> string list \<Rightarrow> ('d, unit) lop" where
  "gc_driver_layers drv [] = op_return ()"
| "gc_driver_layers drv (ident # ids) =
     op_read (\<lambda>s. l_byid s ident \<noteq> None) (\<lambda>known.
       if known then gc_driver_layers drv ids
       else op_seq (drive (drv_Remove drv ident))
           (op_seq (op_ignore (op_seq io_call (op_update (\<lambda>s. s\<lparr>l_tarsplit := (l_tarsplit s)(ident := None)\<rparr>))))
           (op_seq (op_ignore (op_seq io_call
                      (op_update (\<lambda>s. s\<lparr>l_data := (\<lambda>(j, key). if j = ident then None else l_data s (j, key))\<rparr>))))
           (gc_driver_layers drv ids))))"

datatype gc_entry = GcTarSplit string | GcDataDir string | GcOther

definition gc_entry_of :: "string \<Rightarrow> gc_entry" where
  "gc_entry_of name =
     (let n = length name - 13
      in if 13 \<le> length name \<and> drop n name = ''.tar-split.gz''
         then (if ValidateID (take n name) then GcTarSplit (take n name) else GcOther)
         else if ValidateID name then GcDataDir name else GcOther)"

fun gc_layer_files :: "string list \<Rightarrow> go_error option \<Rightarrow> 'd layerStore \<Rightarrow> go_error option \<times> 'd layerStore" where
  "gc_layer_files [] err s = (err, s)"
| "gc_layer_files (name # names) err s =
     (let first = (\<lambda>r. case r of Inl e \<Rightarrow> if err = None then Some e else err | Inr _ \<Rightarrow> err)
      in case gc_entry_of name of
           GcOther \<Rightarrow> gc_layer_files names err s
         | GcTarSplit ident \<Rightarrow>
             if l_byid s ident \<noteq> None then gc_layer_files names err s
             else (case op_seq io_call (op_update (\<lambda>s. s\<lparr>l_tarsplit := (l_tarsplit s)(ident := None)\<rparr>)) s of
                     (r, s1) \<Rightarrow> gc_layer_files names (first r) s1)
         | GcDataDir ident \<Rightarrow>
             if l_byid s ident \<noteq> None then gc_layer_files names err s
             else (case op_seq io_call
                          (op_update (\<lambda>s. s\<lparr>l_data := (\<lambda>(j, key). if j = ident then None else l_data s (j, key))\<rparr>)) s of
                     (r, s1) \<Rightarrow> gc_layer_files names (first r) s1))"

definition layer_GarbageCollect :: "'d Driver \<Rightarrow> string list \<Rightarrow> ('d, unit) lop" where
  "layer_GarbageCollect drv entries s =
     (case drive (drv_ListLayers drv) s of
        (Inl e, s1) \<Rightarrow> if e = ErrNotSupported then (Inr (), s1) else (Inl e, s1)
      | (Inr ids, s1) \<Rightarrow>
          op_seq (gc_driver_layers drv ids)
         (op_seq io_call (\<lambda>s. case gc_layer_files entries None s of (Some e, s1) \<Rightarrow> (Inl e, s1) | (None, s1) \<Rightarrow> (Inr (), s1))) s1)"

end
