(* ===== verification/Layer_Index.thy ===== *)
theory Layer_Index
  imports Layer_Store
begin

text \<open>
  The indexes of the layer store: identifiers and names lead to exactly the layers that have them,
  and the two digest maps that are cleaned up on deletion are sound. Most operations do not touch what
  the invariant looks at, \<open>layer_view\<close>; those that do are deletion, creation, renaming and the
  application of a difference.
\<close>

section \<open>Invariant\<close>

definition layer_ok :: "'d layerStore \<Rightarrow> bool" where
  "layer_ok s \<longleftrightarrow>
     distinct (l_layers s) \<and> (\<forall>p \<in> set (l_layers s). p < l_next s)
     \<and> map_ok (\<lambda>p. {ly_ID (l_heap s p)}) (set (l_layers s)) (l_byid s)
     \<and> map_ok (\<lambda>p. set (ly_Names (l_heap s p))) (set (l_layers s)) (l_byname s)
     \<and> trunc.mirrors (l_idindex s) (dom (l_byid s))
     \<and> sums_ok (\<lambda>p. ly_ID (l_heap s p)) (\<lambda>p. ly_CompressedDigest (l_heap s p)) (set (l_layers s)) (l_bycompressedsum s)
     \<and> sums_ok (\<lambda>p. ly_ID (l_heap s p)) (\<lambda>p. ly_UncompressedDigest (l_heap s p)) (set (l_layers s)) (l_byuncompressedsum s)"

lemma layer_okD:
  assumes "layer_ok s"
  shows "distinct (l_layers s)" and "\<And>p. p \<in> set (l_layers s) \<Longrightarrow> p < l_next s"
    and "map_ok (\<lambda>p. {ly_ID (l_heap s p)}) (set (l_layers s)) (l_byid s)"
    and "map_ok (\<lambda>p. set (ly_Names (l_heap s p))) (set (l_layers s)) (l_byname s)"
    and "trunc.mirrors (l_idindex s) (dom (l_byid s))"
    and "sums_ok (\<lambda>p. ly_ID (l_heap s p)) (\<lambda>p. ly_CompressedDigest (l_heap s p)) (set (l_layers s)) (l_bycompressedsum s)"
    and "sums_ok (\<lambda>p. ly_ID (l_heap s p)) (\<lambda>p. ly_UncompressedDigest (l_heap s p)) (set (l_layers s)) (l_byuncompressedsum s)"
  using assms by (simp_all add: layer_ok_def)

interpretation layers: record_store layer_ok l_layers "\<lambda>s p. ly_ID (l_heap s p)" "\<lambda>s p. ly_Names (l_heap s p)"
  l_byid l_byname "\<lambda>_. Map.empty" l_idindex layer_lookup
  by unfold_locales (auto simp: layer_okD layer_lookup_def split: option.split)

definition layer_view ::
  "'d layerStore \<Rightarrow> nat list \<times> nat \<times> TruncIndex \<times> (string \<rightharpoonup> nat) \<times> (string \<rightharpoonup> nat) \<times> (string \<Rightarrow> string list)
     \<times> (string \<Rightarrow> string list) \<times> (nat \<Rightarrow> string \<times> string \<times> string list \<times> string \<times> string)" where
  "layer_view s =
     (l_layers s, l_next s, l_idindex s, l_byid s, l_byname s, l_bycompressedsum s, l_byuncompressedsum s,
      (\<lambda>p. (ly_ID (l_heap s p), ly_Parent (l_heap s p), ly_Names (l_heap s p), ly_CompressedDigest (l_heap s p),
            ly_UncompressedDigest (l_heap s p))))"

definition keeps_view :: "('d, 'a) lop \<Rightarrow> bool" where
  "keeps_view m \<longleftrightarrow> (\<forall>v. preserves (\<lambda>s. layer_view s = v) m)"

lemma keeps_viewI: "(\<And>v. preserves (\<lambda>s. layer_view s = v) m) \<Longrightarrow> keeps_view m"
  by (simp add: keeps_view_def)

lemma layer_view_eq:
  "layer_view s = layer_view t \<longleftrightarrow>
     l_layers s = l_layers t \<and> l_next s = l_next t \<and> l_idindex s = l_idindex t \<and> l_byid s = l_byid t \<and> l_byname s = l_byname t
     \<and> l_bycompressedsum s = l_bycompressedsum t \<and> l_byuncompressedsum s = l_byuncompressedsum t
     \<and> (\<forall>p. ly_ID (l_heap s p) = ly_ID (l_heap t p) \<and> ly_Parent (l_heap s p) = ly_Parent (l_heap t p)
          \<and> ly_Names (l_heap s p) = ly_Names (l_heap t p)
          \<and> ly_CompressedDigest (l_heap s p) = ly_CompressedDigest (l_heap t p)
          \<and> ly_UncompressedDigest (l_heap s p) = ly_UncompressedDigest (l_heap t p))"
  by (auto simp: layer_view_def fun_eq_iff)

lemma layer_ok_view: "layer_view s = layer_view t \<Longrightarrow> layer_ok s \<longleftrightarrow> layer_ok t"
  unfolding layer_view_eq layer_ok_def by simp

lemma layer_lookup_view: "layer_view s = layer_view t \<Longrightarrow> layer_lookup s k = layer_lookup t k"
  unfolding layer_view_eq layer_lookup_def by (simp cong: option.case_cong sum.case_cong)

lemma keeps_view_preserves:
  assumes "keeps_view m" and "\<And>s t. layer_view s = layer_view t \<Longrightarrow> P s \<Longrightarrow> P t"
  shows "preserves P m"
  using assms unfolding preserves_def keeps_view_def by metis

lemma keeps_view_ok: "keeps_view m \<Longrightarrow> preserves layer_ok m"
  by (rule keeps_view_preserves) (auto dest: layer_ok_view)

lemma keeps_view_at:
  assumes "keeps_view m"
  shows "preserves (\<lambda>s. layer_ok s \<and> p \<in> set (l_layers s)) m"
proof (rule keeps_view_preserves [OF assms])
  fix s t :: "'a layerStore"
  assume e: "layer_view s = layer_view t" and "layer_ok s \<and> p \<in> set (l_layers s)"
  moreover have "l_layers s = l_layers t" using e by (simp add: layer_view_def)
  ultimately show "layer_ok t \<and> p \<in> set (l_layers t)" using layer_ok_view [OF e] by simp
qed

lemma view_update: "(\<And>s. layer_view (f s) = layer_view s) \<Longrightarrow> preserves (\<lambda>s. layer_view s = v) (op_update f)"
  by (simp add: preserves_update)

section \<open>Operations the invariant does not notice\<close>

lemma view_simps [simp]:
  "layer_view (s\<lparr>faults := fs\<rparr>) = layer_view s" "layer_view (s\<lparr>lock_disk := n\<rparr>) = layer_view s"
  "layer_view (s\<lparr>lastWrite := n\<rparr>) = layer_view s" "layer_view (s\<lparr>l_driver := d\<rparr>) = layer_view s"
  "layer_view (s\<lparr>l_tarsplit := ts\<rparr>) = layer_view s" "layer_view (s\<lparr>l_data := dt\<rparr>) = layer_view s"
  "layer_view (s\<lparr>l_mounts := ms\<rparr>) = layer_view s" "layer_view (s\<lparr>l_mountsLastWrite := n\<rparr>) = layer_view s"
  "layer_view (s\<lparr>l_mounts_disk := n\<rparr>) = layer_view s"
  "layer_view (s\<lparr>l_bymount := bm\<rparr>) = layer_view s" "layer_view (write_layers loc s) = layer_view s"
  by (simp_all add: layer_view_def write_layers_def)

lemma view_heap:
  "(\<And>q. ly_ID (h q) = ly_ID (l_heap s q) \<and> ly_Parent (h q) = ly_Parent (l_heap s q) \<and> ly_Names (h q) = ly_Names (l_heap s q)
      \<and> ly_CompressedDigest (h q) = ly_CompressedDigest (l_heap s q) \<and> ly_UncompressedDigest (h q) = ly_UncompressedDigest (l_heap s q)) \<Longrightarrow>
     layer_view (s\<lparr>l_heap := h\<rparr>) = layer_view s"
  by (simp add: layer_view_eq)

lemma view_load_mount: "layer_view (load_mount s m) = layer_view s"
  by (simp add: load_mount_def layer_view_eq split: option.split)

lemma view_load_mount_fold: "layer_view (foldl load_mount s ms) = layer_view s"
  by (induction ms arbitrary: s) (simp_all add: view_load_mount)

lemma view_load_mounts: "layer_view (foldl load_mount (clear_mounts s) ms) = layer_view s"
  unfolding view_load_mount_fold by (simp add: clear_mounts_def layer_view_eq)

lemma drive_preserves [preserves_intros]: "(\<And>s d. P s \<Longrightarrow> P (s\<lparr>l_driver := d\<rparr>)) \<Longrightarrow> preserves P (drive m)"
  by (simp add: preserves_def drive_def split: prod.split)

lemma unless_missing_preserves [preserves_intros]: "preserves P m \<Longrightarrow> preserves P (unless_missing m)"
  by (auto simp: preserves_def unless_missing_def split: prod.splits sum.splits)

lemma layer_writable_preserves [preserves_intros]: "preserves P m \<Longrightarrow> preserves P (writable m)"
  unfolding writable_def by (intro preserves_intros)

lemma with_layer_preserves [preserves_intros]: "(\<And>p. preserves P (f p)) \<Longrightarrow> preserves P (with_layer k f)"
  unfolding with_layer_def by (intro preserves_intros) (simp split: option.split add: preserves_intros)

lemma loadMounts_view [preserves_intros]: "preserves (\<lambda>s. layer_view s = v) loadMounts"
  unfolding loadMounts_def by (intro preserves_intros view_update) (simp_all add: view_load_mounts)

lemma saveMounts_view [preserves_intros]: "preserves (\<lambda>s. layer_view s = v) saveMounts"
  unfolding saveMounts_def by (intro preserves_intros view_update) simp_all

lemma reloadMounts_view [preserves_intros]: "preserves (\<lambda>s. layer_view s = v) reloadMountsIfChanged"
  unfolding reloadMountsIfChanged_def
  by (intro preserves_intros) (auto intro!: preserves_intros view_update split: prod.split)

lemma saveLayers_view [preserves_intros]: "preserves (\<lambda>s. layer_view s = v) (saveLayers drv locs sync)"
proof -
  have "preserves (\<lambda>s. layer_view s = v) (layer_save_location drv locs sync loc)" for loc
    unfolding layer_save_location_def sync_files_def
    by (intro preserves_intros view_update) (auto intro!: preserves_intros view_update split: SyncMode.split)
  then show ?thesis
    unfolding saveLayers_def layer_RecordWrite_def by (intro preserves_intros view_update) simp_all
qed

lemma saveFor_view [preserves_intros]: "preserves (\<lambda>s. layer_view s = v) (layer_saveFor drv p sync)"
  unfolding layer_saveFor_def layer_save_def by (intro preserves_intros)

lemma unmount_locked_view [preserves_intros]: "preserves (\<lambda>s. layer_view s = v) (unmount_locked drv k force cond)"
  unfolding unmount_locked_def
  by (intro preserves_intros)
    (auto intro!: preserves_intros view_update simp: view_heap layer_view_eq split: option.split)

lemma unmount_view [preserves_intros]: "preserves (\<lambda>s. layer_view s = v) (unmount drv k force cond)"
  unfolding unmount_def by (intro preserves_intros)

lemma unmount_loop_view [preserves_intros]: "preserves (\<lambda>s. layer_view s = v) (unmount_loop drv n ident)"
proof (induction n)
  case (Suc n)
  have "preserves (\<lambda>s. layer_view s = v) (unmount drv ident False True)" by (intro preserves_intros)
  then show ?case
    using Suc by (auto simp: preserves_def split: prod.split sum.split)
qed (simp add: preserves_fail)

lemma stage_deletion_view [preserves_intros]: "preserves (\<lambda>s. layer_view s = v) (stage_deletion ident)"
  unfolding stage_deletion_def by (intro preserves_intros view_update) simp_all

lemma setBigData_view [preserves_intros]: "preserves (\<lambda>s. layer_view s = v) (layer_setBigData drv p key data)"
  unfolding layer_setBigData_def by (intro preserves_intros view_update) (auto intro: view_heap)

lemma record_changes_view [preserves_intros]:
  "preserves (\<lambda>s. layer_view s = v) (layer_SetFlag drv k flag x)" "preserves (\<lambda>s. layer_view s = v) (layer_ClearFlag drv k flag)"
  "preserves (\<lambda>s. layer_view s = v) (layer_SetMetadata drv k meta)" "preserves (\<lambda>s. layer_view s = v) (layer_SetBigData drv k key data)"
  unfolding layer_SetFlag_def layer_ClearFlag_def layer_SetMetadata_def layer_SetBigData_def
  by (intro preserves_intros view_update; auto intro: view_heap)+

lemma driver_create_view [preserves_intros]:
  "preserves (\<lambda>s. layer_view s = v) (driver_create drv ident parentLayer template options writeable)"
  unfolding driver_create_def Let_def by (intro preserves_intros) simp_all

lemma copy_tarsplit_view [preserves_intros]: "preserves (\<lambda>s. layer_view s = v) (copy_tarsplit ident tsdata)"
  unfolding copy_tarsplit_def by (intro preserves_intros view_update) simp_all

lemma layer_Mount_view [preserves_intros]: "preserves (\<lambda>s. layer_view s = v) (layer_Mount drv k opts label maps)"
  unfolding layer_Mount_def
  by (intro preserves_intros view_update) (auto simp: Let_def layer_view_eq intro: view_heap)

section \<open>Deletion\<close>

lemma with_layer_at:
  "(\<And>p. leads (\<lambda>s. layer_ok s \<and> p \<in> set (l_layers s)) (f p) layer_ok) \<Longrightarrow> preserves layer_ok (with_layer k f)"
  unfolding preserves_leads with_layer_def leads_def op_read_def
  by (auto simp: op_fail_def split: option.split dest: layers.find_mem)

lemma layer_unlink_layers:
  assumes ok: "layer_ok s" and p: "p \<in> set (l_layers s)"
  shows "l_layers (layer_unlink p s) = filter (\<lambda>q. q \<noteq> p) (l_layers s)"
proof -
  have "ly_ID (l_heap s q) \<noteq> ly_ID (l_heap s p) \<longleftrightarrow> q \<noteq> p" if "q \<in> set (l_layers s)" for q
    using layers.ident_inj [OF ok that p] by blast
  then show ?thesis by (simp add: layer_unlink_def deleteInDigestMap_def Let_def cong: filter_cong)
qed

lemma layer_unlink_ok:
  assumes ok: "layer_ok s" and p: "p \<in> set (l_layers s)"
  shows "layer_ok (layer_unlink p s)"
proof -
  let ?R = "set (l_layers s)" and ?l = "l_heap s p"
  note d = layer_okD [OF ok]
  have ids: "map_ok (\<lambda>q. {ly_ID (l_heap s q)}) (?R - {p}) ((l_byid s)(ly_ID ?l := None))"
    using map_ok_remove [OF d(3) p, of "[ly_ID ?l]"] by (simp add: del_all_def)
  have names: "map_ok (\<lambda>q. set (ly_Names (l_heap s q))) (?R - {p}) (del_all (ly_Names ?l) (l_byname s))"
    using map_ok_remove [OF d(4) p] by simp
  have idx: "trunc.mirrors (fst (index_Delete (l_idindex s) (ly_ID ?l))) (dom (l_byid s) - {ly_ID ?l})"
    using trunc.mirrors_del [OF d(5)] .
  have f: "l_heap (layer_unlink p s) = l_heap s" "l_next (layer_unlink p s) = l_next s"
    "l_byid (layer_unlink p s) = (l_byid s)(ly_ID ?l := None)" "l_byname (layer_unlink p s) = del_all (ly_Names ?l) (l_byname s)"
    "l_idindex (layer_unlink p s) = fst (index_Delete (l_idindex s) (ly_ID ?l))"
    "l_bycompressedsum (layer_unlink p s) = (\<lambda>d. remove1 (ly_ID ?l) (l_bycompressedsum s d))"
    "l_byuncompressedsum (layer_unlink p s) = (\<lambda>d. remove1 (ly_ID ?l) (l_byuncompressedsum s d))"
    by (simp_all add: layer_unlink_def deleteInDigestMap_def Let_def)
  have R: "set (l_layers (layer_unlink p s)) = ?R - {p}" unfolding layer_unlink_layers [OF assms] by auto
  show ?thesis
    unfolding layer_ok_def R f
    using d(1,2) ids names idx sums_ok_remove [OF d(6), of p] sums_ok_remove [OF d(7), of p]
    by (simp add: layer_unlink_layers [OF assms])
qed

lemma internalDelete_ok [preserves_intros]: "preserves layer_ok (internalDelete drv k)"
proof -
  have flag: "keeps_view (op_read (\<lambda>s. layerHasIncompleteFlag (l_heap s p)) (\<lambda>incomplete.
      if incomplete then op_return ()
      else op_seq (op_update (upd_layer p (\<lambda>l. l\<lparr>ly_Flags := (ly_Flags l)(''incomplete'' \<mapsto> FlagBool True)\<rparr>)))
             (layer_saveFor drv p False)))" for p
    by (intro keeps_viewI preserves_intros view_update) (auto intro: view_heap)
  have io: "keeps_view io_call" "keeps_view (unless_missing (drive (drv_DeferredRemove drv ident)))" "keeps_view (stage_deletion ident)"
    for ident
    by (intro keeps_viewI preserves_intros; simp)+
  show ?thesis
    unfolding internalDelete_def
    by (intro layer_writable_preserves with_layer_at leads_seq_keep leads_read_any leads_update keeps_view_at flag io)
      (auto intro: layer_unlink_ok)
qed

lemma deferredDelete_ok [preserves_intros]: "preserves layer_ok (deferredDelete drv k)"
proof -
  have "preserves layer_ok (unmount_loop drv n ident)" "preserves layer_ok (layer_saveFor drv p sync)" for n ident p sync
    by (intro keeps_view_ok keeps_viewI preserves_intros)+
  then show ?thesis unfolding deferredDelete_def by (intro preserves_intros) (auto intro!: preserves_seq internalDelete_ok)
qed

lemma deleteWhileHoldingLock_ok [preserves_intros]: "preserves layer_ok (deleteWhileHoldingLock drv k)"
proof -
  have "preserves layer_ok io_call" by (intro keeps_view_ok keeps_viewI preserves_intros) simp
  then show ?thesis
    using deferredDelete_ok [of drv k] unfolding preserves_def deleteWhileHoldingLock_def
    by (auto split: prod.split sum.split)
qed

section \<open>Renaming\<close>

definition layer_renamed :: "nat \<Rightarrow> string list \<Rightarrow> 'd layerStore \<Rightarrow> 'd layerStore" where
  "layer_renamed p new s = upd_layer p (\<lambda>l. l\<lparr>ly_Names := new\<rparr>)
     (foldl (layer_take_name p) (s\<lparr>l_byname := del_all (ly_Names (l_heap s p)) (l_byname s)\<rparr>) new)"

lemma layer_take_fold:
  "((\<lambda>q. ly_Names (l_heap (foldl (layer_take_name p) s ns) q)), l_byname (foldl (layer_take_name p) s ns)) =
     foldl (steal_name p) ((\<lambda>q. ly_Names (l_heap s q)), l_byname s) ns
   \<and> layer_view ((foldl (layer_take_name p) s ns)\<lparr>l_byname := m, l_heap := (\<lambda>q. (l_heap (foldl (layer_take_name p) s ns) q)\<lparr>ly_Names := nm q\<rparr>)\<rparr>)
       = layer_view (s\<lparr>l_byname := m, l_heap := (\<lambda>q. (l_heap s q)\<lparr>ly_Names := nm q\<rparr>)\<rparr>)"
proof (induction ns arbitrary: s)
  case (Cons n ns)
  have step: "((\<lambda>q. ly_Names (l_heap (layer_take_name p s n) q)), l_byname (layer_take_name p s n)) =
      steal_name p ((\<lambda>q. ly_Names (l_heap s q)), l_byname s) n"
    by (auto simp: layer_take_name_def Let_def layer_removeName_def stringSliceWithoutValue_def fun_eq_iff split: option.split)
  have view: "layer_view ((layer_take_name p s n)\<lparr>l_byname := m, l_heap := (\<lambda>q. (l_heap (layer_take_name p s n) q)\<lparr>ly_Names := nm q\<rparr>)\<rparr>)
      = layer_view (s\<lparr>l_byname := m, l_heap := (\<lambda>q. (l_heap s q)\<lparr>ly_Names := nm q\<rparr>)\<rparr>)"
    by (auto simp: layer_view_eq layer_take_name_def Let_def layer_removeName_def split: option.split)
  show ?case using Cons.IH [of "layer_take_name p s n"] unfolding step view by simp
qed simp

lemma layer_renamed_ok:
  assumes ok: "layer_ok s" and p: "p \<in> set (l_layers s)" and dist: "distinct new"
  shows "layer_ok (layer_renamed p new s)"
proof -
  let ?old = "ly_Names (l_heap s p)" and ?nm = "\<lambda>q. ly_Names (l_heap s q)" and ?t = "layer_renamed p new s"
  let ?s = "s\<lparr>l_byname := del_all ?old (l_byname s)\<rparr>"
  let ?f = "foldl (layer_take_name p) ?s new"
  note d = layer_okD [OF ok]
  have st: "foldl (steal_name p) (?nm, del_all (?nm p) (l_byname s)) new = ((\<lambda>q. ly_Names (l_heap ?f q)), l_byname ?f)"
    using conjunct1 [OF layer_take_fold [of p ?s new "\<lambda>_. []" Map.empty]] by simp
  have "map_ok (\<lambda>q. set (((\<lambda>q. ly_Names (l_heap ?f q))(p := new)) q)) (set (l_layers s)) (l_byname ?f)"
    by (rule map_ok_rename [OF d(4) p dist st])
  moreover have "((\<lambda>q. ly_Names (l_heap ?f q))(p := new)) q = ly_Names (l_heap ?t q)" for q
    by (simp add: layer_renamed_def)
  ultimately have names: "map_ok (\<lambda>q. set (ly_Names (l_heap ?t q))) (set (l_layers s)) (l_byname ?t)"
    by (simp add: layer_renamed_def)
  have v: "layer_view (?f\<lparr>l_byname := Map.empty, l_heap := (\<lambda>q. (l_heap ?f q)\<lparr>ly_Names := []\<rparr>)\<rparr>)
      = layer_view (?s\<lparr>l_byname := Map.empty, l_heap := (\<lambda>q. (l_heap ?s q)\<lparr>ly_Names := []\<rparr>)\<rparr>)"
    using conjunct2 [OF layer_take_fold [of p ?s new "\<lambda>_. []" Map.empty]] .
  have same: "l_layers ?t = l_layers s" "l_next ?t = l_next s" "l_byid ?t = l_byid s" "l_idindex ?t = l_idindex s"
    "l_bycompressedsum ?t = l_bycompressedsum s" "l_byuncompressedsum ?t = l_byuncompressedsum s"
    "ly_ID (l_heap ?t q) = ly_ID (l_heap s q)" "ly_CompressedDigest (l_heap ?t q) = ly_CompressedDigest (l_heap s q)"
    "ly_UncompressedDigest (l_heap ?t q) = ly_UncompressedDigest (l_heap s q)" for q
    using v by (simp_all add: layer_view_eq layer_renamed_def)
  show ?thesis unfolding layer_ok_def same using d names by simp
qed

lemma layer_updateNames_ok [preserves_intros]: "preserves layer_ok (layer_updateNames drv k ns op)"
proof -
  have save: "preserves layer_ok (layer_saveFor drv p sync)" for p sync by (intro keeps_view_ok keeps_viewI preserves_intros)
  have "leads (\<lambda>s. layer_ok s \<and> p \<in> set (l_layers s)) (op_read (\<lambda>s. ly_Names (l_heap s p)) (\<lambda>oldNames.
       case applyNameOperation oldNames ns op of
         Inl e \<Rightarrow> op_fail e
       | Inr newNames \<Rightarrow>
           op_seq (op_update (\<lambda>s. s\<lparr>l_byname := del_all oldNames (l_byname s)\<rparr>))
          (op_seq (op_update (\<lambda>s. foldl (layer_take_name p) s newNames))
          (op_seq (op_update (upd_layer p (\<lambda>l. l\<lparr>ly_Names := newNames\<rparr>))) (layer_saveFor drv p False))))) layer_ok" for p
    unfolding leads_def
  proof (intro allI impI, elim conjE)
    fix s :: "'a layerStore"
    assume ok: "layer_ok s" and p: "p \<in> set (l_layers s)"
    show "layer_ok (snd (op_read (\<lambda>s. ly_Names (l_heap s p)) (\<lambda>oldNames.
       case applyNameOperation oldNames ns op of
         Inl e \<Rightarrow> op_fail e
       | Inr newNames \<Rightarrow>
           op_seq (op_update (\<lambda>s. s\<lparr>l_byname := del_all oldNames (l_byname s)\<rparr>))
          (op_seq (op_update (\<lambda>s. foldl (layer_take_name p) s newNames))
          (op_seq (op_update (upd_layer p (\<lambda>l. l\<lparr>ly_Names := newNames\<rparr>))) (layer_saveFor drv p False)))) s))"
    proof (cases "applyNameOperation (ly_Names (l_heap s p)) ns op")
      case (Inr new)
      then have "layer_ok (layer_renamed p new s)"
        using layer_renamed_ok [OF ok p] applyNameOperation_Inr by blast
      then show ?thesis
        using save [of p False] Inr unfolding preserves_def layer_renamed_def
        by (simp add: op_read_def op_seq_def op_then_def op_update_def)
    qed (simp add: ok op_read_def op_fail_def)
  qed
  then show ?thesis unfolding layer_updateNames_def by (intro preserves_intros with_layer_at)
qed

section \<open>Differences\<close>

lemma sums_ok_update:
  assumes ok: "sums_ok ident dig R m" and inj: "\<And>q. q \<in> R \<Longrightarrow> ident q = ident p \<Longrightarrow> q = p" and p: "p \<in> R"
  shows "sums_ok ident (dig(p := new)) R (updateDigestMap m (dig p) new (ident p))"
proof -
  let ?m = "if dig p = '''' then m else m(dig p := filter (\<lambda>x. x \<noteq> ident p) (m (dig p)))"
  have old: "distinct (m d)" "k \<in> set (m d) \<Longrightarrow> d \<noteq> '''' \<and> (\<exists>q \<in> R. ident q = k \<and> dig q = d)" for d k
    using ok by (simp_all add: sums_ok_def)
  have gone: "ident p \<notin> set (?m d)" for d using old(2) [of "ident p" d] inj by auto
  have rest: "d \<noteq> '''' \<and> (\<exists>q \<in> R. ident q = k \<and> (dig(p := new)) q = d)" if "k \<in> set (?m d)" for d k
  proof -
    have "k \<in> set (m d)" "k \<noteq> ident p" using that gone [of d] by (auto split: if_splits)
    then show ?thesis using old(2) [of k d] by auto
  qed
  have dist: "distinct (?m d)" for d using old(1) by simp
  obtain m' where m': "m' = ?m" by blast
  note facts = gone [folded m'] rest [folded m'] dist [folded m']
  show ?thesis
    unfolding sums_ok_def updateDigestMap_def append_sum_def m' [symmetric]
  proof (intro allI conjI ballI)
    fix d k
    show "distinct ((if new = '''' then m' else m'(new := m' new @ [ident p])) d)" using facts(3) [of d] facts(1) [of d] by auto
    assume "k \<in> set ((if new = '''' then m' else m'(new := m' new @ [ident p])) d)"
    then have "k \<in> set (m' d) \<or> new \<noteq> '''' \<and> d = new \<and> k = ident p" by (auto split: if_splits)
    then show "d \<noteq> ''''" "\<exists>q \<in> R. ident q = k \<and> (dig(p := new)) q = d"
      using facts(2) [of k d] p by (blast, metis fun_upd_same)
  qed
qed

lemma layer_digests_ok:
  assumes ok: "layer_ok s" and p: "p \<in> set (l_layers s)"
    and h: "\<And>q. ly_ID (h q) = ly_ID (l_heap s q) \<and> ly_Names (h q) = ly_Names (l_heap s q)"
    and c: "(\<lambda>q. ly_CompressedDigest (h q)) = (\<lambda>q. ly_CompressedDigest (l_heap s q))(p := c')"
    and u: "(\<lambda>q. ly_UncompressedDigest (h q)) = (\<lambda>q. ly_UncompressedDigest (l_heap s q))(p := u')"
  shows "layer_ok (s\<lparr>l_heap := h,
      l_bycompressedsum := updateDigestMap (l_bycompressedsum s) (ly_CompressedDigest (l_heap s p)) c' (ly_ID (l_heap s p)),
      l_byuncompressedsum := updateDigestMap (l_byuncompressedsum s) (ly_UncompressedDigest (l_heap s p)) u' (ly_ID (l_heap s p))\<rparr>)"
proof -
  note d = layer_okD [OF ok]
  have inj: "q = p" if "q \<in> set (l_layers s)" "ly_ID (l_heap s q) = ly_ID (l_heap s p)" for q
    using layers.ident_inj [OF ok that(1) p that(2)] .
  show ?thesis
    unfolding layer_ok_def
    using d sums_ok_update [OF d(6) inj p, of c'] sums_ok_update [OF d(7) inj p, of u'] by (simp add: h c u)
qed

lemma applyDiffResultToLayer_ok:
  assumes "layer_ok s" and "p \<in> set (l_layers s)"
  shows "layer_ok (applyDiffResultToLayer p result s)"
  unfolding applyDiffResultToLayer_def Let_def
  using layer_digests_ok [OF assms, of "(l_heap s)(p := (l_heap s p)\<lparr>ly_CompressedDigest := ad_compressedDigest result,
      ly_CompressedSize := ad_compressedSize result, ly_UncompressedDigest := ad_uncompressedDigest result,
      ly_UncompressedSize := ad_uncompressedSize result, ly_CompressionType := ad_compressionType result,
      ly_UIDs := ad_uids result, ly_GIDs := ad_gids result\<rparr>)" "ad_compressedDigest result" "ad_uncompressedDigest result"]
  by (simp add: fun_eq_iff)

lemma differ_output_ok:
  assumes "layer_ok s" and "p \<in> set (l_layers s)"
  shows "layer_ok (differ_output p out s)"
proof -
  let ?l = "l_heap s p"
  let ?h = "(l_heap s)(p := ?l\<lparr>ly_UIDs := do_UIDs out, ly_GIDs := do_GIDs out, ly_UncompressedDigest := do_UncompressedDigest out,
    ly_CompressedDigest := do_CompressedDigest out, ly_TOCDigest := do_TOCDigest out, ly_UncompressedSize := do_Size out,
    ly_Metadata := do_Metadata out, ly_Flags := ly_Flags ?l ++ do_Flags out\<rparr>)"
  have toc: "layer_ok t \<Longrightarrow> layer_ok (t\<lparr>l_bytocsum := m\<rparr>)" for t :: "'a layerStore" and m by (simp add: layer_ok_def)
  have "layer_ok (s\<lparr>l_heap := ?h,
      l_bycompressedsum := updateDigestMap (l_bycompressedsum s) (ly_CompressedDigest ?l) (do_CompressedDigest out) (ly_ID ?l),
      l_byuncompressedsum := updateDigestMap (l_byuncompressedsum s) (ly_UncompressedDigest ?l) (do_UncompressedDigest out) (ly_ID ?l)\<rparr>)"
    by (rule layer_digests_ok [OF assms]) (auto simp: fun_eq_iff)
  from toc [OF this, of "updateDigestMap (l_bytocsum s) (ly_TOCDigest ?l) (do_TOCDigest out) (ly_ID ?l)"]
  show ?thesis by (simp add: differ_output_def Let_def)
qed

lemma view_ops:
  "keeps_view io_call" "keeps_view (drive m)" "keeps_view (layer_saveFor drv p sync)"
  "keeps_view (op_update (\<lambda>s. s\<lparr>l_tarsplit := f (l_tarsplit s)\<rparr>))"
  "keeps_view (op_update (upd_layer p (\<lambda>l. l\<lparr>ly_Flags := g (ly_Flags l)\<rparr>)))"
  by (intro keeps_viewI preserves_intros view_update; simp add: view_heap)+

lemmas ok_ops = view_ops [THEN keeps_view_ok]

lemma leads_ok: "preserves layer_ok m \<Longrightarrow> leads layer_ok m layer_ok"
  by (simp add: preserves_leads)

lemma applyDiffWithOptions_ok [preserves_intros]: "preserves layer_ok (applyDiffWithOptions drv k result ts)"
proof -
  have tail: "leads (\<lambda>s. layer_ok s \<and> p \<in> set (l_layers s))
      (op_seq (op_update (applyDiffResultToLayer p result)) (op_seq (layer_saveFor drv p True) (op_return (ad_size result)))) layer_ok" for p
    by (rule leads_seq_update [where R = layer_ok])
      (auto intro!: applyDiffResultToLayer_ok leads_ok preserves_seq preserves_return ok_ops)
  show ?thesis
    unfolding applyDiffWithOptions_def
    by (intro layer_writable_preserves with_layer_at leads_read_any leads_seq_keep tail keeps_view_at view_ops) simp_all
qed

lemma applyDiffFromStagingDirectory_ok [preserves_intros]: "preserves layer_ok (applyDiffFromStagingDirectory drv k out)"
proof -
  have data: "preserves layer_ok (layer_SetBigData drv k key data)" for key data
    by (intro keeps_view_ok keeps_viewI preserves_intros)
  have rest: "preserves layer_ok (op_seq (case do_TarSplit out of
        None \<Rightarrow> op_return ()
      | Some t \<Rightarrow> op_seq io_call (op_seq io_call (op_seq io_call
          (op_update (\<lambda>s. s\<lparr>l_tarsplit := (l_tarsplit s)(ident \<mapsto> t)\<rparr>)))))
     (op_seq (op_each (\<lambda>(key, data). op_cleanup (layer_SetBigData drv k key data) (deleteWhileHoldingLock drv k)) (do_BigData out))
     (layer_saveFor drv p True)))" for ident p
    by (intro preserves_seq preserves_each)
      (auto split: option.split intro!: preserves_seq preserves_return preserves_cleanup data deleteWhileHoldingLock_ok ok_ops)
  show ?thesis
    unfolding applyDiffFromStagingDirectory_def
    by (intro preserves_if preserves_fail with_layer_at leads_read_any leads_seq_keep leads_seq_update [where R = layer_ok]
        leads_ok rest keeps_view_at view_ops)
      (auto intro: differ_output_ok)
qed

section \<open>Creation\<close>

lemma layer_link_ok:
  assumes ok: "layer_ok s" and "checkIdOrNameConflict s (ly_ID l) (ly_Names l) = None"
  shows "layer_ok (layer_link (l_next s) l (ly_Names l) s)"
proof -
  let ?p = "l_next s" and ?R = "set (l_layers s)" and ?h = "(l_heap s)(l_next s := l)"
  note d = layer_okD [OF ok]
  have free: "l_byid s (ly_ID l) = None" "\<forall>n \<in> set (ly_Names l). l_byname s n = None"
    using assms(2) by (auto simp: checkIdOrNameConflict_def split: if_splits)
  have fresh: "?p \<notin> ?R" using d(2) by blast
  have grow: "sums_ok (\<lambda>q. ly_ID (?h q)) (\<lambda>q. dig (?h q)) (insert ?p ?R) m"
    if "sums_ok (\<lambda>q. ly_ID (l_heap s q)) (\<lambda>q. dig (l_heap s q)) ?R m" for dig m
  proof (rule sums_ok_grow)
    show "sums_ok (\<lambda>q. ly_ID (?h q)) (\<lambda>q. dig (?h q)) ?R m"
      using that sums_ok_cong [of ?R "\<lambda>q. ly_ID (?h q)" "\<lambda>q. ly_ID (l_heap s q)" "\<lambda>q. dig (?h q)" "\<lambda>q. dig (l_heap s q)" m] fresh
      by (metis fun_upd_other)
  qed blast
  have "map_ok (\<lambda>q. {ly_ID (?h q)}) ?R (l_byid s)" "map_ok (\<lambda>q. set (ly_Names (?h q))) ?R (l_byname s)"
    using d(3,4) fresh by (subst map_ok_cong; auto)+
  from map_ok_insert [OF this(1) fresh, of "[ly_ID l]"] map_ok_insert [OF this(2) fresh, of "ly_Names l"] free
  have "map_ok (\<lambda>q. {ly_ID (?h q)}) (insert ?p ?R) ((l_byid s)(ly_ID l \<mapsto> ?p))"
    "map_ok (\<lambda>q. set (ly_Names (?h q))) (insert ?p ?R) (put_all (ly_Names l) ?p (l_byname s))" by simp_all
  moreover have "trunc.mirrors (fst (index_Add (l_idindex s) (ly_ID l))) (insert (ly_ID l) (dom (l_byid s)))"
    by (rule trunc.mirrors_add [OF d(5)])
  moreover have "sums_ok (\<lambda>q. ly_ID (?h q)) (\<lambda>q. ly_CompressedDigest (?h q)) (insert ?p ?R) (l_bycompressedsum s)"
    "sums_ok (\<lambda>q. ly_ID (?h q)) (\<lambda>q. ly_UncompressedDigest (?h q)) (insert ?p ?R) (l_byuncompressedsum s)"
    using grow [of "\<lambda>l. ly_CompressedDigest l"] grow [of "\<lambda>l. ly_UncompressedDigest l"] d(6,7) by blast+
  ultimately show ?thesis
    unfolding layer_ok_def using d(1) fresh by (simp add: layer_link_def) (auto dest: d(2) intro: less_SucI)
qed

text \<open>A layer whose identifier is in no digest map yet.\<close>

definition fresh_layer :: "nat \<Rightarrow> string \<Rightarrow> 'd layerStore \<Rightarrow> bool" where
  "fresh_layer p ident s \<longleftrightarrow>
     layer_ok s \<and> p \<in> set (l_layers s) \<and> ly_ID (l_heap s p) = ident
     \<and> (\<forall>d. ident \<notin> set (l_bycompressedsum s d) \<and> ident \<notin> set (l_byuncompressedsum s d))"

lemma fresh_layerD: "fresh_layer p ident s \<Longrightarrow> layer_ok s \<and> p \<in> set (l_layers s)"
  by (simp add: fresh_layer_def)

lemma keeps_view_fresh: "keeps_view m \<Longrightarrow> preserves (fresh_layer p ident) m"
proof (erule keeps_view_preserves)
  fix s t :: "'a layerStore"
  assume e: "layer_view s = layer_view t" and f: "fresh_layer p ident s"
  note v = e [unfolded layer_view_eq]
  have "ly_ID (l_heap t p) = ident" using v f by (auto simp: fresh_layer_def)
  then show "fresh_layer p ident t" using v f layer_ok_view [OF e] by (simp add: fresh_layer_def)
qed

lemma layer_link_fresh:
  assumes "layer_ok s" and "checkIdOrNameConflict s (ly_ID l) (ly_Names l) = None"
  shows "fresh_layer (l_next s) (ly_ID l) (layer_link (l_next s) l (ly_Names l) s)"
proof -
  have "\<forall>q \<in> set (l_layers s). ly_ID (l_heap s q) \<noteq> ly_ID l"
    using assms layers.byid_None [OF assms(1), of "ly_ID l"] by (auto simp: checkIdOrNameConflict_def split: if_splits)
  then have "ly_ID l \<notin> set (l_bycompressedsum s d) \<and> ly_ID l \<notin> set (l_byuncompressedsum s d)" for d
    using layer_okD(6,7) [OF assms(1)] unfolding sums_ok_def by blast
  then show ?thesis using layer_link_ok [OF assms] by (simp add: fresh_layer_def layer_link_def)
qed

lemma sums_ok_append:
  assumes "sums_ok ident dig R m" and "p \<in> R" and "\<forall>d. ident p \<notin> set (m d)"
  shows "sums_ok ident dig R (append_sum (dig p) (ident p) m)"
  using assms unfolding sums_ok_def append_sum_def by auto

lemma add_sums_ok: "fresh_layer p ident s \<Longrightarrow> layer_ok (add_sums p s)"
  unfolding fresh_layer_def
  using sums_ok_append [of "\<lambda>q. ly_ID (l_heap s q)" "\<lambda>q. ly_CompressedDigest (l_heap s q)" "set (l_layers s)" "l_bycompressedsum s" p]
    sums_ok_append [of "\<lambda>q. ly_ID (l_heap s q)" "\<lambda>q. ly_UncompressedDigest (l_heap s q)" "set (l_layers s)" "l_byuncompressedsum s" p]
  by (auto simp: layer_ok_def add_sums_def Let_def)

lemma fill_layer_leads: "leads (fresh_layer p ident) (fill_layer drv p ident contents) layer_ok"
proof (cases contents)
  case NoContents
  then show ?thesis
    unfolding fill_layer_def
    by (auto intro!: leads_seq_update [where R = layer_ok] add_sums_ok leads_ok preserves_return)
next
  case (StagedExtraction result tarSplit)
  have "leads (fresh_layer p ident)
      (op_seq (op_update (applyDiffResultToLayer p result)) (op_return (- 1 :: int))) layer_ok"
    by (rule leads_seq_update [where R = layer_ok])
      (auto intro: applyDiffResultToLayer_ok leads_ok preserves_return dest: fresh_layerD)
  note tail = this
  show ?thesis
    unfolding fill_layer_def StagedExtraction layerContents.case
    by (rule leads_seq_keep, intro keeps_view_fresh view_ops, rule leads_seq_keep, intro keeps_view_fresh view_ops,
        rule leads_seq_keep, intro keeps_view_fresh view_ops, rule tail) (auto dest: fresh_layerD)
next
  case (Diff result tarSplit)
  show ?thesis
    unfolding fill_layer_def Diff layerContents.case
    by (rule leads_weaken [OF leads_ok [OF applyDiffWithOptions_ok]]) (auto dest: fresh_layerD)
next
  case (StagingDirectory out)
  have "preserves layer_ok (op_seq (applyDiffFromStagingDirectory drv ident out) (op_return (- 1 :: int)))"
    by (intro preserves_intros)
  then show ?thesis
    unfolding fill_layer_def StagingDirectory layerContents.case
    by (rule leads_weaken [OF leads_ok]) (auto dest: fresh_layerD)
qed

lemma layer_finish_leads:
  "leads (fresh_layer p ident) (layer_finish drv p ident parentLayer template tsdata options writeable contents) layer_ok"
proof -
  have v: "keeps_view (op_each (\<lambda>(key, data). layer_setBigData drv p key data) items)"
    "keeps_view (driver_create drv ident parentLayer template options writeable)" "keeps_view (copy_tarsplit ident tsdata)" for items
    by (intro keeps_viewI preserves_intros; auto intro: preserves_intros)+
  have last: "preserves layer_ok (op_seq (op_update (upd_layer p (\<lambda>l. l\<lparr>ly_Flags := (ly_Flags l)(''incomplete'' := None)\<rparr>)))
      (op_seq (layer_saveFor drv p True) (op_read (\<lambda>s. (l_heap s p, size)) op_return)))" for size :: int
    by (intro preserves_seq preserves_read preserves_return ok_ops)
  have "leads (fresh_layer p ident) (op_then (fill_layer drv p ident contents) (\<lambda>size.
     op_seq (op_update (upd_layer p (\<lambda>l. l\<lparr>ly_Flags := (ly_Flags l)(''incomplete'' := None)\<rparr>)))
    (op_seq (layer_saveFor drv p True)
    (op_read (\<lambda>s. (l_heap s p, size)) op_return)))) layer_ok"
  proof (rule leads_then [OF fill_layer_leads _ leads_ok [OF last]])
    show "layer_ok s'" if "fresh_layer p ident s" "fill_layer drv p ident contents s = (Inr x, s')" for s x s'
      using fill_layer_leads [of p ident drv contents] that unfolding leads_def by (metis snd_conv)
  qed
  then show ?thesis
    unfolding layer_finish_def
    by (intro leads_seq_keep keeps_view_fresh v view_ops) (auto dest: fresh_layerD)
qed

lemma read_template_view [preserves_intros]: "preserves (\<lambda>s. layer_view s = v) (read_template k)"
  unfolding read_template_def by (intro preserves_intros) simp_all

lemma keeps_view_free:
  assumes "keeps_view m"
  shows "preserves (\<lambda>s. layer_ok s \<and> checkIdOrNameConflict s ident names = None \<and> l_next s = p) m"
proof (rule keeps_view_preserves [OF assms])
  fix s t :: "'a layerStore"
  assume e: "layer_view s = layer_view t"
    and s: "layer_ok s \<and> checkIdOrNameConflict s ident names = None \<and> l_next s = p"
  have "checkIdOrNameConflict t ident names = checkIdOrNameConflict s ident names"
    using e unfolding layer_view_eq checkIdOrNameConflict_def by simp
  then show "layer_ok t \<and> checkIdOrNameConflict t ident names = None \<and> l_next t = p"
    using s layer_ok_view [OF e] e [unfolded layer_view_eq] by simp
qed

lemma layer_create_tail:
  assumes "\<And>l. ly_ID (mk l) = ident" and "\<And>l. ly_Names (mk l) = names"
  shows "leads (\<lambda>s. layer_ok s \<and> checkIdOrNameConflict s ident names = None \<and> l_next s = p)
    (op_then (read_template k) (\<lambda>(template, tsdata).
       op_seq (if label = '''' then op_return () else io_call)
      (op_seq (op_update (layer_link p (mk template) names))
      (op_cleanup (layer_finish drv p ident parentLayer template tsdata options writeable contents)
         (deleteWhileHoldingLock drv ident))))) layer_ok"
proof -
  let ?P = "\<lambda>s. layer_ok s \<and> checkIdOrNameConflict s ident names = None \<and> l_next s = p"
  have clean: "leads (fresh_layer p ident) (op_cleanup (layer_finish drv p ident parentLayer template tsdata options writeable contents)
      (deleteWhileHoldingLock drv ident)) layer_ok" for template tsdata
    using layer_finish_leads [of p ident drv parentLayer template tsdata options writeable contents] deleteWhileHoldingLock_ok [of drv ident]
    unfolding leads_def preserves_def op_cleanup_def by (auto split: prod.split sum.split)
  have link: "fresh_layer p ident (layer_link p (mk template) names s)" if "?P s" for s template
    using layer_link_fresh [of s "mk template"] that assms by simp
  have tail: "leads ?P (op_seq (op_update (layer_link p (mk template) names))
      (op_cleanup (layer_finish drv p ident parentLayer template tsdata options writeable contents)
         (deleteWhileHoldingLock drv ident))) layer_ok" for template tsdata
    by (rule leads_seq_update [OF link clean])
  have label: "preserves ?P (if label = '''' then op_return () else (io_call :: ('a, unit) lop))"
    by (auto intro: preserves_return keeps_view_free view_ops)
  have "leads ?P (op_seq (if label = '''' then op_return () else io_call)
      (op_seq (op_update (layer_link p (mk template) names))
      (op_cleanup (layer_finish drv p ident parentLayer template tsdata options writeable contents)
         (deleteWhileHoldingLock drv ident)))) layer_ok" for template tsdata
    by (rule leads_seq_keep [OF label tail]) simp
  then show ?thesis by (intro leads_then_keep keeps_view_free keeps_viewI preserves_intros) auto
qed

lemma create_as_ok: "preserves layer_ok (create_as drv now ident parentLayer names label options writeable contents)"
  unfolding preserves_def
proof (intro allI impI)
  fix s :: "'a layerStore"
  assume ok: "layer_ok s"
  let ?mk = "\<lambda>template. new_layer now ident (case parentLayer of None \<Rightarrow> '''' | Some q \<Rightarrow> ly_ID q) names label template
    options (pickStoreLocation (l_imagedir s) (lopt_Volatile options) writeable)"
  note tail = layer_create_tail [of ?mk ident names "l_next s" "lopt_TemplateLayer options" label drv parentLayer options writeable contents,
    unfolded leads_def, rule_format]
  show "layer_ok (snd (create_as drv now ident parentLayer names label options writeable contents s))"
  proof (cases "checkIdOrNameConflict s ident names")
    case None
    then show ?thesis using tail [of s] ok by (simp add: create_as_def Let_def new_layer_def)
  qed (simp add: create_as_def ok)
qed

lemma layer_create_ok:
  "preserves layer_ok (layer_create drv now draws k parentLayer names label options writeable contents)"
  unfolding layer_create_def
  by (intro layer_writable_preserves preserves_seq preserves_read ok_ops) (auto split: option.split intro: preserves_fail create_as_ok)

section \<open>Sequences of operations\<close>

lemma layer_Wipe_ok: "preserves layer_ok (layer_Wipe drv ids)"
proof -
  have "preserves layer_ok (drive m)" for m :: "('a, 'b) op" by (rule ok_ops)
  then have "preserves layer_ok (\<lambda>s. case drive (drv_ListLayers drv) s of
      (Inl e, s1) \<Rightarrow> if e = ErrNotSupported then (Inr [], s1) else (Inl e, s1)
    | (Inr ids, s1) \<Rightarrow> (Inr ids, s1))"
    using ok_ops(2) [of "drv_ListLayers drv"] unfolding preserves_def by (auto split: prod.split sum.split)
  then show ?thesis
    unfolding layer_Wipe_def by (intro layer_writable_preserves preserves_seq preserves_then preserves_each deleteWhileHoldingLock_ok ok_ops)
qed

lemma gc_driver_layers_view: "keeps_view (gc_driver_layers drv ids)"
  by (induction ids)
    (auto intro!: keeps_viewI preserves_read preserves_return preserves_seq preserves_ignore drive_preserves io_call_preserves view_update
      simp: keeps_view_def)

lemma gc_layer_files_view: "layer_view (snd (gc_layer_files names err s)) = layer_view s"
proof (induction names arbitrary: err s)
  case (Cons name names)
  have step: "layer_view t = layer_view s"
    if "op_seq io_call (op_update f) s = (r, t)" "\<And>s. layer_view (f s) = layer_view s" for f r t
    using that by (auto simp: op_seq_def op_then_def op_update_def io_call_def split: list.splits option.splits)
  show ?case
    by (auto simp: Let_def Cons.IH split: gc_entry.split prod.split dest: step)
qed simp

lemma PutAdditionalLayer_ok:
  assumes "ly_Names info = names"
  shows "preserves layer_ok (PutAdditionalLayer drv now ident parentLayer names info)"
  unfolding preserves_def
proof (intro allI impI)
  fix s :: "'a layerStore"
  assume ok: "layer_ok s"
  let ?l = "(json_layer info)\<lparr>ly_ID := ident, ly_Created := now, ly_Parent := (case parentLayer of None \<Rightarrow> '''' | Some q \<Rightarrow> ly_ID q)\<rparr>"
  let ?P = "\<lambda>t. layer_ok t \<and> checkIdOrNameConflict t ident names = None \<and> l_next t = l_next s"
  have rest: "preserves layer_ok (op_seq (op_cleanup (layer_saveFor drv p True) (deleteWhileHoldingLock drv ident))
      (op_read (\<lambda>s. l_heap s p) op_return))" for p
    by (intro preserves_seq preserves_cleanup preserves_read preserves_return deleteWhileHoldingLock_ok ok_ops)
  have link: "fresh_layer (l_next s) ident (layer_link (l_next s) ?l names t)" if "?P t" for t
    using layer_link_fresh [of t ?l] that assms by (simp add: json_layer_def)
  note io = leads_seq_keep [OF keeps_view_free [OF view_ops(1)]]
  have tail: "leads ?P (op_seq (op_update (layer_link (l_next s) ?l names)) (op_seq (op_update (add_sums (l_next s)))
      (op_seq (op_cleanup (layer_saveFor drv (l_next s) True) (deleteWhileHoldingLock drv ident))
      (op_read (\<lambda>s'. l_heap s' (l_next s)) op_return)))) layer_ok"
    by (intro leads_seq_update [where R = "fresh_layer (l_next s) ident"] leads_seq_update [where R = layer_ok] link add_sums_ok leads_ok rest)
  have body: "leads ?P (op_seq io_call (op_seq io_call (op_seq io_call
      (op_seq (op_update (layer_link (l_next s) ?l names)) (op_seq (op_update (add_sums (l_next s)))
      (op_seq (op_cleanup (layer_saveFor drv (l_next s) True) (deleteWhileHoldingLock drv ident))
      (op_read (\<lambda>s'. l_heap s' (l_next s)) op_return))))))) layer_ok"
    by (rule io, rule io, rule io, rule tail) simp_all
  show "layer_ok (snd (PutAdditionalLayer drv now ident parentLayer names info s))"
  proof (cases "checkIdOrNameConflict s ident names")
    case None
    then show ?thesis using body [unfolded leads_def, rule_format, of s] ok by (simp add: PutAdditionalLayer_def op_read_def)
  qed (simp add: PutAdditionalLayer_def op_read_def op_fail_def ok)
qed

text \<open>
  One call of an operation on a driver that may change on its own between calls. An additional layer is
  only covered when the names it is put under are those of its record.
\<close>

inductive layer_step :: "'d Driver \<Rightarrow> 'd layerStore \<Rightarrow> 'd layerStore \<Rightarrow> bool" for drv where
  ly_create: "layer_create drv now draws k parentLayer names label options writeable contents s = (r, s') \<Longrightarrow> layer_step drv s s'"
| ly_additional: "ly_Names info = names \<Longrightarrow> PutAdditionalLayer drv now k parentLayer names info s = (r, s') \<Longrightarrow> layer_step drv s s'"
| ly_updateNames: "layer_updateNames drv k names op s = (r, s') \<Longrightarrow> layer_step drv s s'"
| ly_delete: "deleteWhileHoldingLock drv k s = (r, s') \<Longrightarrow> layer_step drv s s'"
| ly_deferred: "deferredDelete drv k s = (r, s') \<Longrightarrow> layer_step drv s s'"
| ly_Wipe: "layer_Wipe drv ids s = (r, s') \<Longrightarrow> layer_step drv s s'"
| ly_SetBigData: "layer_SetBigData drv k key data s = (r, s') \<Longrightarrow> layer_step drv s s'"
| ly_SetMetadata: "layer_SetMetadata drv k m s = (r, s') \<Longrightarrow> layer_step drv s s'"
| ly_SetFlag: "layer_SetFlag drv k flag v s = (r, s') \<Longrightarrow> layer_step drv s s'"
| ly_ClearFlag: "layer_ClearFlag drv k flag s = (r, s') \<Longrightarrow> layer_step drv s s'"
| ly_Mount: "layer_Mount drv k opts label maps s = (m, s') \<Longrightarrow> layer_step drv s s'"
| ly_unmount: "unmount drv k force conditional s = (b, s') \<Longrightarrow> layer_step drv s s'"
| ly_ApplyDiff: "applyDiffWithOptions drv k result ts s = (n, s') \<Longrightarrow> layer_step drv s s'"
| ly_staging: "applyDiffFromStagingDirectory drv k out s = (r, s') \<Longrightarrow> layer_step drv s s'"
| ly_gc: "layer_GarbageCollect drv entries s = (r, s') \<Longrightarrow> layer_step drv s s'"
| ly_reloadMounts: "reloadMountsIfChanged s = (r, s') \<Longrightarrow> layer_step drv s s'"
| ly_others: "layer_step drv s (s\<lparr>faults := fs, l_driver := d, l_mounts := ms, l_mounts_disk := n\<rparr>)"

lemma layer_GarbageCollect_ok: "preserves layer_ok (layer_GarbageCollect drv entries)"
proof -
  have files: "preserves layer_ok (\<lambda>s. case gc_layer_files entries None s of (Some e, s1) \<Rightarrow> (Inl e, s1) | (None, s1) \<Rightarrow> (Inr (), s1))"
    unfolding preserves_def
  proof (intro allI impI)
    fix s
    assume "layer_ok s"
    then have "layer_ok (snd (gc_layer_files entries None s))" using layer_ok_view [OF gc_layer_files_view] by blast
    then show "layer_ok (snd (case gc_layer_files entries None s of (Some e, s1) \<Rightarrow> (Inl e, s1) | (None, s1) \<Rightarrow> (Inr (), s1)))"
      by (cases "gc_layer_files entries None s") (auto split: option.split)
  qed
  have "preserves layer_ok (op_seq (gc_driver_layers drv ids)
      (op_seq io_call (\<lambda>s. case gc_layer_files entries None s of (Some e, s1) \<Rightarrow> (Inl e, s1) | (None, s1) \<Rightarrow> (Inr (), s1))))" for ids
    by (intro preserves_seq keeps_view_ok [OF gc_driver_layers_view] ok_ops files)
  then show ?thesis
    using ok_ops(2) [of "drv_ListLayers drv"] unfolding preserves_def layer_GarbageCollect_def
    by (auto split: prod.split sum.split)
qed

lemmas layer_views_ok = record_changes_view [THEN keeps_viewI, THEN keeps_view_ok] layer_Mount_view [THEN keeps_viewI, THEN keeps_view_ok]
  unmount_view [THEN keeps_viewI, THEN keeps_view_ok] reloadMounts_view [THEN keeps_viewI, THEN keeps_view_ok]

lemma layer_step_ok: "layer_step drv s s' \<Longrightarrow> layer_ok s \<Longrightarrow> layer_ok s'"
proof (induction rule: layer_step.induct)
  case ly_create
  then show ?case using preservesD [OF layer_create_ok] by blast
next
  case ly_additional
  then show ?case using preservesD [OF PutAdditionalLayer_ok] by blast
next
  case ly_updateNames
  then show ?case using preservesD [OF layer_updateNames_ok] by blast
next
  case ly_delete
  then show ?case using preservesD [OF deleteWhileHoldingLock_ok] by blast
next
  case ly_deferred
  then show ?case using preservesD [OF deferredDelete_ok] by blast
next
  case ly_Wipe
  then show ?case using preservesD [OF layer_Wipe_ok] by blast
next
  case ly_SetBigData
  then show ?case using preservesD [OF layer_views_ok(4)] by blast
next
  case ly_SetMetadata
  then show ?case using preservesD [OF layer_views_ok(3)] by blast
next
  case ly_SetFlag
  then show ?case using preservesD [OF layer_views_ok(1)] by blast
next
  case ly_ClearFlag
  then show ?case using preservesD [OF layer_views_ok(2)] by blast
next
  case ly_Mount
  then show ?case using preservesD [OF layer_views_ok(5)] by blast
next
  case ly_unmount
  then show ?case using preservesD [OF layer_views_ok(6)] by blast
next
  case ly_ApplyDiff
  then show ?case using preservesD [OF applyDiffWithOptions_ok] by blast
next
  case ly_staging
  then show ?case using preservesD [OF applyDiffFromStagingDirectory_ok] by blast
next
  case ly_gc
  then show ?case using preservesD [OF layer_GarbageCollect_ok] by blast
next
  case ly_reloadMounts
  then show ?case using preservesD [OF layer_views_ok(7)] by blast
next
  case ly_others
  then show ?case by (simp add: layer_ok_def)
qed

inductive layer_reach :: "'d Driver \<Rightarrow> 'd layerStore \<Rightarrow> 'd layerStore \<Rightarrow> bool" for drv s where
  lreach_refl: "layer_reach drv s s"
| lreach_step: "layer_reach drv s t \<Longrightarrow> layer_step drv t u \<Longrightarrow> layer_reach drv s u"

lemma layer_reach_ok: "layer_reach drv s t \<Longrightarrow> layer_ok s \<Longrightarrow> layer_ok t"
  by (induction rule: layer_reach.induct) (auto intro: layer_step_ok)

section \<open>Results\<close>

lemma layersByDigest_loop_sound:
  assumes ok: "layer_ok s" and "\<forall>k \<in> set ks. \<exists>p \<in> set (l_layers s). ly_ID (l_heap s p) = k \<and> dig (l_heap s p) = d"
  shows "\<exists>ls. layersByDigest_loop s ks = Inr ls \<and> map ly_ID ls = ks \<and> (\<forall>l \<in> set ls. dig l = d)"
  using assms(2)
proof (induction ks)
  case (Cons k ks)
  then obtain p where p: "p \<in> set (l_layers s)" "ly_ID (l_heap s p) = k" "dig (l_heap s p) = d" by auto
  have "layer_lookup s k = Some p" using layers.find_ident [OF ok p(1)] p(2) by simp
  moreover obtain ls where "layersByDigest_loop s ks = Inr ls" "map ly_ID ls = ks" "\<forall>l \<in> set ls. dig l = d"
    using Cons by auto
  ultimately show ?case using p by simp
qed simp

lemma layersByDigestMap_sound:
  assumes "layer_ok s"
    and "sums_ok (\<lambda>p. ly_ID (l_heap s p)) (\<lambda>p. dig (l_heap s p)) (set (l_layers s)) m"
  shows "\<exists>ls. layersByDigestMap s m d = Inr ls \<and> map ly_ID ls = m d \<and> (\<forall>l \<in> set ls. dig l = d)"
  unfolding layersByDigestMap_def
  by (rule layersByDigest_loop_sound [OF assms(1)]) (use assms(2) in \<open>auto simp: sums_ok_def\<close>)

definition empty_layers :: "'d \<Rightarrow> 'd layerStore" where
  "empty_layers d = \<lparr>faults = [], IsReadWrite = True, lock_disk = 0, lastWrite = 0, l_heap = (\<lambda>_. no_layer), l_next = 0,
     l_layers = [], l_idindex = NewTruncIndex [], l_byid = Map.empty, l_byname = Map.empty, l_bymount = Map.empty,
     l_bycompressedsum = (\<lambda>_. []), l_byuncompressedsum = (\<lambda>_. []), l_bytocsum = (\<lambda>_. []), l_pathsModified = (\<lambda>_. 0),
     l_mountsLastWrite = 0, l_json = (\<lambda>_. []), l_mtime = (\<lambda>_. 0), l_imagedir = False, l_mounts = [], l_mounts_disk = 0,
     l_data = Map.empty, l_tarsplit = Map.empty, l_driver = d\<rparr>"

lemma empty_layers_ok: "layer_ok (empty_layers d)"
  using trunc.mirrors_new [of "[]"] by (simp add: layer_ok_def empty_layers_def)


text \<open>A driver that does nothing, and a layer with contents, for the examples.\<close>

definition null_driver :: "unit Driver" where
  "null_driver = \<lparr>drv_Create = (\<lambda>_ _ _. op_return ()), drv_CreateFromTemplate = (\<lambda>_ _ _ _. op_return ()),
     drv_UpdateLayerIDMap = (\<lambda>_. op_return ()), drv_ApplyDiff = (\<lambda>_. op_return ()), drv_CommitStagedLayer = (\<lambda>_. op_return ()),
     drv_ApplyDiffFromStagingDirectory = (\<lambda>_ _. op_return ()), drv_Get = (\<lambda>k _. op_return (''/mnt/'' @ k)), drv_Put = (\<lambda>_. op_return ()),
     drv_DeferredRemove = (\<lambda>_. op_return ()), drv_Remove = (\<lambda>_. op_return ()), drv_ListLayers = op_return [],
     drv_SupportsShifting = (\<lambda>_ _. True), drv_HasDiffer = True, drv_SyncMode = SyncModeNone, drv_TempDirRootDirs = [],
     sys_Mounted = (\<lambda>_. op_return True)\<rparr>"

definition plain_layer :: LayerOptions where
  "plain_layer = \<lparr>lopt_TemplateLayer = '''', lopt_Volatile = False, lopt_BigData = [], lopt_Flags = Map.empty,
     lopt_HostUIDMapping = False, lopt_HostGIDMapping = False, lopt_UIDMap = [], lopt_GIDMap = []\<rparr>"

definition toc_output :: DriverWithDifferOutput where
  "toc_output = \<lparr>do_Size = 3, do_UIDs = [], do_GIDs = [], do_UncompressedDigest = ''u'', do_CompressedDigest = ''c'', do_TOCDigest = ''t'',
     do_Metadata = '''', do_BigData = [], do_TarSplit = None, do_Flags = Map.empty\<rparr>"

definition sample_layers :: "unit layerStore" where
  "sample_layers = snd (layer_create null_driver 1 [] ''a1'' None [''base''] '''' plain_layer True (StagingDirectory toc_output) (empty_layers ()))"

lemma sample_layers_reach: "layer_reach null_driver (empty_layers ()) sample_layers"
  unfolding sample_layers_def by (rule lreach_step [OF lreach_refl ly_create]) (rule surjective_pairing)

lemmas layer_run_simps = op_run layer_create_def [THEN fun_cong] create_as_def read_template_def [THEN fun_cong] layer_finish_def [THEN fun_cong]
  fill_layer_def [THEN fun_cong] driver_create_def [THEN fun_cong] copy_tarsplit_def [THEN fun_cong]
  applyDiffFromStagingDirectory_def [THEN fun_cong] layer_saveFor_def [THEN fun_cong] layer_save_def [THEN fun_cong]
  saveLayers_def [THEN fun_cong] layer_RecordWrite_def [THEN fun_cong] layer_save_location_def [THEN fun_cong] sync_files_def [THEN fun_cong]
  saveMounts_def [THEN fun_cong] loadMounts_def [THEN fun_cong] reloadMountsIfChanged_def [THEN fun_cong] RecordWrite_def [THEN fun_cong]
  writable_def [THEN fun_cong] with_layer_def [THEN fun_cong] drive_def unless_missing_def io_call_def
  internalDelete_def [THEN fun_cong] stage_deletion_def [THEN fun_cong] unmount_def [THEN fun_cong]

lemmas layer_state_simps = differ_output_def updateDigestMap_def append_sum_def write_layers_def mount_records_def clear_mounts_def
  layer_link_def new_layer_def pickStoreLocation_def checkIdOrNameConflict_def layer_lookup_def layerHasIncompleteFlag_def
  layer_unlink_def deleteInDigestMap_def unmount_lookup_def Let_def no_layer_def

lemma sample_layers_run: "l_byname sample_layers ''base'' = Some 0" "l_byid sample_layers ''a1'' = Some 0"
  by (simp_all add: sample_layers_def empty_layers_def null_driver_def plain_layer_def toc_output_def layer_run_simps layer_state_simps
      del: op_each.simps)


text \<open>A store with one layer, as it is after that layer was created from a table of contents.\<close>

definition toc_layers :: "unit layerStore" where
  "toc_layers =
     (let l = no_layer\<lparr>ly_ID := ''a1'', ly_CompressedDigest := ''c'', ly_TOCDigest := ''t'', ly_location := Some stableLayerLocation\<rparr>
      in (empty_layers ())\<lparr>l_heap := (\<lambda>_. no_layer)(0 := l), l_next := 1, l_layers := [0],
           l_idindex := fst (index_Add (NewTruncIndex []) ''a1''), l_byid := [''a1'' \<mapsto> 0],
           l_bycompressedsum := (\<lambda>_. [])(''c'' := [''a1'']), l_bytocsum := (\<lambda>_. [])(''t'' := [''a1'']),
           l_json := (\<lambda>_. [])(stableLayerLocation := [json_layer l])\<rparr>)"

lemma toc_layers_sel:
  "faults toc_layers = []" "IsReadWrite toc_layers" "l_byid toc_layers = [''a1'' \<mapsto> 0]" "l_byname toc_layers = Map.empty"
  "l_layers toc_layers = [0]" "ly_ID (l_heap toc_layers 0) = ''a1''" "ly_Names (l_heap toc_layers 0) = []"
  "ly_Flags (l_heap toc_layers 0) ''incomplete'' = None" "ly_MountPoint (l_heap toc_layers 0) = ''''"
  "l_bycompressedsum toc_layers = (\<lambda>_. [])(''c'' := [''a1''])" "l_bytocsum toc_layers = (\<lambda>_. [])(''t'' := [''a1''])"
  "ly_location (l_heap toc_layers 0) = Some stableLayerLocation" "l_imagedir toc_layers = False" "l_mounts toc_layers = []"
  by (simp_all add: toc_layers_def Let_def empty_layers_def no_layer_def)

lemma null_driver_sel: "drv_DeferredRemove null_driver k d = (Inr (), d)" "drv_SyncMode null_driver = SyncModeNone"
  by (simp_all add: null_driver_def op_return_def)

lemma toc_internalDelete:
  assumes "internalDelete null_driver ''a1'' toc_layers = (r, s)"
  shows "r = Inr ()" and "l_byid s = Map.empty" and "l_byname s = Map.empty" and "l_bycompressedsum s = (\<lambda>_. [])"
    and "l_bytocsum s = (\<lambda>_. [])(''t'' := [''a1''])"
  using assms by (auto simp: toc_layers_sel null_driver_sel layer_run_simps layer_state_simps simp del: op_each.simps)


end
