(* ===== verification/Layer_Mounts.thy ===== *)
theory Layer_Mounts
  imports Layer_Index
begin

text \<open>
  Mount counts of the layer store. \<open>saveMounts\<close> writes the counts of the mounted layers and reads
  them back, so what it leaves in memory is what it was called with, apart from counts that are not
  positive. That makes the loop that unmounts a layer before its deletion end.
\<close>

section \<open>Saving and reading back\<close>

definition mounted :: "Layer \<Rightarrow> bool" where
  "mounted l \<longleftrightarrow> ly_MountPoint l \<noteq> '''' \<and> 0 < ly_MountCount l"

abbreviation mount_state :: "'d layerStore \<Rightarrow> nat \<Rightarrow> string \<times> int" where
  "mount_state s p \<equiv> (ly_MountPoint (l_heap s p), ly_MountCount (l_heap s p))"

lemma load_mount_state:
  assumes "layer_lookup s (mp_ID m) = Some q" and "mp_MountPoint m \<noteq> ''''"
  shows "mount_state (load_mount s m) p = (if p = q then (mp_MountPoint m, mp_MountCount m) else mount_state s p)"
  using assms by (simp add: load_mount_def)

lemma load_mount_records:
  assumes "distinct qs" and "\<And>q. q \<in> set qs \<Longrightarrow> layer_lookup s (ly_ID (h q)) = Some q"
  shows "mount_state (foldl load_mount s (map (\<lambda>l. \<lparr>mp_ID = ly_ID l, mp_MountPoint = ly_MountPoint l, mp_MountCount = ly_MountCount l\<rparr>)
       (filter mounted (map h qs)))) p
     = (if p \<in> set qs \<and> mounted (h p) then (ly_MountPoint (h p), ly_MountCount (h p)) else mount_state s p)"
  using assms
proof (induction qs arbitrary: s)
  case (Cons q qs)
  let ?m = "\<lparr>mp_ID = ly_ID (h q), mp_MountPoint = ly_MountPoint (h q), mp_MountCount = ly_MountCount (h q)\<rparr>"
  let ?s = "if mounted (h q) then load_mount s ?m else s"
  have q: "layer_lookup s (ly_ID (h q)) = Some q" using Cons.prems(2) by simp
  have look: "layer_lookup ?s k = layer_lookup s k" for k by (simp add: layer_lookup_view [OF view_load_mount])
  have "mount_state ?s p = (if p = q \<and> mounted (h q) then (ly_MountPoint (h q), ly_MountCount (h q)) else mount_state s p)"
    using load_mount_state [of s ?m q p] q by (auto simp: mounted_def)
  moreover have "mount_state (foldl load_mount ?s (map (\<lambda>l. \<lparr>mp_ID = ly_ID l, mp_MountPoint = ly_MountPoint l, mp_MountCount = ly_MountCount l\<rparr>)
       (filter mounted (map h qs)))) p
     = (if p \<in> set qs \<and> mounted (h p) then (ly_MountPoint (h p), ly_MountCount (h p)) else mount_state ?s p)"
    by (rule Cons.IH) (use Cons.prems look in auto)
  ultimately show ?case using Cons.prems(1) by (auto split: if_splits)
qed simp

lemma saveMounts_state:
  assumes ok: "layer_ok s" and run: "saveMounts s = (Inr x, t)"
  shows "layer_view t = layer_view s" and "l_mountsLastWrite t = l_mounts_disk t" and "l_mounts t = mount_records s"
    and "p \<in> set (l_layers s) \<Longrightarrow> mount_state t p = (if mounted (l_heap s p) then mount_state s p else ('''', 0))"
proof -
  have records: "mount_records (s\<lparr>faults := fs\<rparr>) = mount_records s" for fs by (simp add: mount_records_def)
  obtain fs n where t: "t = foldl load_mount (clear_mounts (s\<lparr>l_mounts_disk := n, l_mountsLastWrite := n, l_mounts := mount_records s, faults := fs\<rparr>))
      (mount_records s)"
    using run records
    by (auto simp: saveMounts_def loadMounts_def writable_def op_seq_Inr op_read_def op_update_def op_fail_def split: if_splits
        dest!: io_call_Inr)
  let ?c = "clear_mounts (s\<lparr>l_mounts_disk := n, l_mountsLastWrite := n, l_mounts := mount_records s, faults := fs\<rparr>)"
  have fields: "l_mountsLastWrite (foldl load_mount u ms) = l_mountsLastWrite u \<and> l_mounts_disk (foldl load_mount u ms) = l_mounts_disk u
      \<and> l_mounts (foldl load_mount u ms) = l_mounts u" for u :: "'a layerStore" and ms
    by (induction ms arbitrary: u) (simp_all add: load_mount_def split: option.split)
  show "layer_view t = layer_view s" unfolding t view_load_mount_fold by (simp add: clear_mounts_def layer_view_eq)
  show "l_mountsLastWrite t = l_mounts_disk t" "l_mounts t = mount_records s" using fields by (simp_all add: t clear_mounts_def)
  have vc: "layer_view ?c = layer_view s" by (simp add: clear_mounts_def layer_view_eq)
  have look: "layer_lookup ?c (ly_ID (l_heap s q)) = Some q" if "q \<in> set (l_layers s)" for q
    using layers.find_ident [OF ok that] layer_lookup_view [OF vc] by simp
  assume p: "p \<in> set (l_layers s)"
  have "mount_state t p = (if p \<in> set (l_layers s) \<and> mounted (l_heap s p) then mount_state s p else mount_state ?c p)"
    using load_mount_records [OF layer_okD(1) [OF ok] look, of p]
    by (simp add: t mount_records_def [of s] mounted_def [symmetric] del: prod.inject)
  then show "mount_state t p = (if mounted (l_heap s p) then mount_state s p else ('''', 0))"
    using p by (simp add: clear_mounts_def)
qed

section \<open>Mounting and unmounting\<close>

text \<open>Every layer is mounted with a positive count, or not mounted at all.\<close>

definition mounts_ok :: "'d layerStore \<Rightarrow> bool" where
  "mounts_ok s \<longleftrightarrow> (\<forall>p \<in> set (l_layers s). mounted (l_heap s p) \<or> mount_state s p = ('''', 0))"

text \<open>Only the mount of \<open>p\<close> differs between two states, and the first state is as the file says.\<close>

definition mount_changed :: "nat \<Rightarrow> string \<times> int \<Rightarrow> 'd layerStore \<Rightarrow> 'd layerStore \<Rightarrow> bool" where
  "mount_changed p new s t \<longleftrightarrow>
     layer_view t = layer_view s \<and> l_mountsLastWrite t = l_mounts_disk t
     \<and> (\<forall>q \<in> set (l_layers s). mount_state t q =
          (let m = (if q = p then new else mount_state s q) in if fst m \<noteq> '''' \<and> 0 < snd m then m else ('''', 0)))"

lemma saveMounts_changed:
  assumes ok: "layer_ok s" and run: "saveMounts u = (Inr x, t)" and view: "layer_view u = layer_view s"
    and m: "\<And>q. mount_state u q = (if q = p then new else mount_state s q)"
  shows "mount_changed p new s t"
proof -
  have u: "layer_ok u" "l_layers u = l_layers s" using ok layer_ok_view [OF view] view by (simp_all add: layer_view_def)
  note st = saveMounts_state [OF u(1) run]
  have "mounted (l_heap u q) \<longleftrightarrow> fst (mount_state u q) \<noteq> '''' \<and> 0 < snd (mount_state u q)" for q by (simp add: mounted_def)
  then show ?thesis
    unfolding mount_changed_def using st(1,2) st(4) view u(2) by (auto simp: m Let_def)
qed

lemma unmount_locked_state:
  assumes ok: "layer_ok s" and p: "unmount_lookup s k = Some p" and run: "unmount_locked drv k force conditional s = (Inr b, t)"
  defines "c \<equiv> (if force then 1 else ly_MountCount (l_heap s p))"
  shows "mount_changed p (if 1 < c then (ly_MountPoint (l_heap s p), c - 1) else ('''', 0)) s t"
proof (cases "1 < c")
  case True
  let ?u = "upd_layer p (\<lambda>l. l\<lparr>ly_MountCount := ly_MountCount l - 1\<rparr>)
    (upd_layer p (\<lambda>l. l\<lparr>ly_MountCount := (if force then 1 else ly_MountCount l)\<rparr>) s)"
  obtain x where "saveMounts ?u = (Inr x, t)"
    using run True p by (auto simp: unmount_locked_def c_def op_read_def op_seq_Inr op_update_def op_fail_def op_return_def split: if_splits)
  then show ?thesis
    using True by (intro saveMounts_changed [OF ok]) (auto simp: layer_view_eq c_def)
next
  case False
  let ?s = "upd_layer p (\<lambda>l. l\<lparr>ly_MountCount := (if force then 1 else ly_MountCount l)\<rparr>) s"
  let ?f = "\<lambda>s. (upd_layer p (\<lambda>l. l\<lparr>ly_MountCount := ly_MountCount l - 1, ly_MountPoint := ''''\<rparr>) s)
    \<lparr>l_bymount := (if ly_MountPoint (l_heap s p) \<noteq> '''' then (l_bymount s)(ly_MountPoint (l_heap s p) := None) else l_bymount s)\<rparr>"
  obtain x d where "saveMounts (?f (?s\<lparr>l_driver := d\<rparr>)) = (Inr x, t)"
    using run False p
    by (auto simp: unmount_locked_def c_def op_read_def op_seq_Inr op_update_def op_fail_def op_return_def unless_missing_def drive_def
        split: if_splits prod.splits sum.splits)
  then have "mount_changed p ('''', ly_MountCount (l_heap ?s p) - 1) s t"
    by (intro saveMounts_changed [OF ok]) (auto simp: layer_view_eq)
  then show ?thesis using False by (simp add: mount_changed_def Let_def)
qed

section \<open>The unmounting loop ends\<close>

text \<open>The loop as it is written, without a bound.\<close>

inductive unmount_run :: "'d Driver \<Rightarrow> string \<Rightarrow> 'd layerStore \<Rightarrow> unit res \<times> 'd layerStore \<Rightarrow> bool" for drv ident where
  run_break: "unmount drv ident False True s = (Inl ErrLayerNotMounted, s1) \<Longrightarrow> unmount_run drv ident s (Inr (), s1)"
| run_error: "unmount drv ident False True s = (Inl e, s1) \<Longrightarrow> e \<noteq> ErrLayerNotMounted \<Longrightarrow> unmount_run drv ident s (Inl e, s1)"
| run_again: "unmount drv ident False True s = (Inr b, s1) \<Longrightarrow> unmount_run drv ident s1 x \<Longrightarrow> unmount_run drv ident s x"

definition turns :: "int \<Rightarrow> nat" where
  "turns c = (if c < 0 then 2 else Suc (nat c))"

lemma reload_state:
  assumes "reloadMountsIfChanged s = (Inr x, t)"
  shows "l_mountsLastWrite t = l_mounts_disk t"
    and "ly_MountCount (l_heap t p) = ly_MountCount (l_heap s p) \<or> ly_MountCount (l_heap t p) = 0
      \<or> ly_MountCount (l_heap t p) \<in> mp_MountCount ` set (l_mounts s)"
    and "l_mountsLastWrite s = l_mounts_disk s \<Longrightarrow> \<exists>fs. t = s\<lparr>faults := fs\<rparr>"
proof -
  have fold: "(ly_MountCount (l_heap (foldl load_mount u ms) p) = ly_MountCount (l_heap u p)
      \<or> ly_MountCount (l_heap (foldl load_mount u ms) p) \<in> mp_MountCount ` set ms)
      \<and> l_mounts_disk (foldl load_mount u ms) = l_mounts_disk u" for u :: "'a layerStore" and ms
  proof (induction ms arbitrary: u)
    case (Cons m ms)
    have "ly_MountCount (l_heap (load_mount u m) p) = ly_MountCount (l_heap u p) \<or> ly_MountCount (l_heap (load_mount u m) p) = mp_MountCount m"
      "l_mounts_disk (load_mount u m) = l_mounts_disk u"
      by (auto simp: load_mount_def split: option.split)
    then show ?case using Cons.IH [of "load_mount u m"] by auto
  qed simp
  have clear: "ly_MountCount (l_heap (clear_mounts u) p) = ly_MountCount (l_heap u p) \<or> ly_MountCount (l_heap (clear_mounts u) p) = 0"
    "l_mounts_disk (clear_mounts u) = l_mounts_disk u" for u :: "'a layerStore"
    by (auto simp: clear_mounts_def)
  have fresh: "\<exists>fs. t = s\<lparr>faults := fs\<rparr>" if "l_mounts_disk s = l_mountsLastWrite s"
    using assms that by (auto simp: reloadMountsIfChanged_def op_seq_Inr op_read_def op_return_def dest!: io_call_Inr)
  have stale: "\<exists>fs. t = (foldl load_mount (clear_mounts (s\<lparr>faults := fs\<rparr>)) (l_mounts s))\<lparr>l_mountsLastWrite := l_mounts_disk s\<rparr>"
    if "l_mounts_disk s \<noteq> l_mountsLastWrite s"
    using assms that
    by (auto simp: reloadMountsIfChanged_def loadMounts_def op_seq_Inr op_read_def op_update_def dest!: io_call_Inr) blast
  show "\<exists>fs. t = s\<lparr>faults := fs\<rparr>" if "l_mountsLastWrite s = l_mounts_disk s" using fresh that by simp
  show "l_mountsLastWrite t = l_mounts_disk t" using fresh stale fold clear(2) by (cases "l_mounts_disk s = l_mountsLastWrite s") auto
  show "ly_MountCount (l_heap t p) = ly_MountCount (l_heap s p) \<or> ly_MountCount (l_heap t p) = 0
      \<or> ly_MountCount (l_heap t p) \<in> mp_MountCount ` set (l_mounts s)"
  proof (cases "l_mounts_disk s = l_mountsLastWrite s")
    case False
    then obtain fs where "t = (foldl load_mount (clear_mounts (s\<lparr>faults := fs\<rparr>)) (l_mounts s))\<lparr>l_mountsLastWrite := l_mounts_disk s\<rparr>"
      using stale by blast
    then show ?thesis using fold [of "clear_mounts (s\<lparr>faults := fs\<rparr>)" "l_mounts s"] clear(1) [of "s\<lparr>faults := fs\<rparr>"] by auto
  qed (use fresh in auto)
qed

lemma unmount_step:
  assumes ok: "layer_ok s" and p: "layer_lookup s ident = Some p" and run: "unmount drv ident False True s = (Inr b, t)"
  obtains c where "layer_view t = layer_view s" and "l_mountsLastWrite t = l_mounts_disk t"
    and "c = ly_MountCount (l_heap s p) \<or> l_mountsLastWrite s \<noteq> l_mounts_disk s \<and> (c = 0 \<or> c \<in> mp_MountCount ` set (l_mounts s))"
    and "c \<noteq> 0" and "ly_MountCount (l_heap t p) = (if 1 < c \<and> ly_MountCount (l_heap t p) \<noteq> 0 then c - 1 else 0)"
proof -
  obtain x u where u: "reloadMountsIfChanged s = (Inr x, u)" "unmount_locked drv ident False True u = (Inr b, t)"
    using run by (auto simp: unmount_def writable_def op_read_def op_fail_def op_seq_Inr split: if_splits)
  have view: "layer_view u = layer_view s"
    using preservesD [OF reloadMounts_view [of "layer_view s"] refl u(1)] .
  have uok: "layer_ok u" and look: "layer_lookup u ident = Some p" and lays: "l_layers u = l_layers s"
    using ok p layer_ok_view [OF view] layer_lookup_view [OF view] view by (simp_all add: layer_view_def)
  let ?c = "ly_MountCount (l_heap u p)"
  have mem: "p \<in> set (l_layers u)" using layers.find_mem [OF uok look] by blast
  have nz: "?c \<noteq> 0" using u(2) look by (auto simp: unmount_locked_def unmount_lookup_def op_read_def op_fail_def)
  have ch: "mount_changed p (if 1 < ?c then (ly_MountPoint (l_heap u p), ?c - 1) else ('''', 0)) u t"
    using unmount_locked_state [OF uok _ u(2), of p] look by (cases "1 < ?c") (simp_all add: unmount_lookup_def)
  show thesis
  proof (rule that [of ?c])
    show "layer_view t = layer_view s" "l_mountsLastWrite t = l_mounts_disk t" using ch view by (simp_all add: mount_changed_def)
    show "?c = ly_MountCount (l_heap s p) \<or> l_mountsLastWrite s \<noteq> l_mounts_disk s \<and> (?c = 0 \<or> ?c \<in> mp_MountCount ` set (l_mounts s))"
      using reload_state(2) [OF u(1), of p] reload_state(3) [OF u(1)] by (cases "l_mountsLastWrite s = l_mounts_disk s") auto
    show "ly_MountCount (l_heap t p) = (if 1 < ?c \<and> ly_MountCount (l_heap t p) \<noteq> 0 then ?c - 1 else 0)"
      using ch mem by (auto simp: mount_changed_def Let_def split: if_splits)
  qed (rule nz)
qed

definition enough_turns :: "nat \<Rightarrow> 'd layerStore \<Rightarrow> nat \<Rightarrow> bool" where
  "enough_turns n s p \<longleftrightarrow>
     turns (ly_MountCount (l_heap s p)) \<le> n
     \<and> (l_mountsLastWrite s \<noteq> l_mounts_disk s \<longrightarrow> turns 0 \<le> n \<and> (\<forall>m \<in> set (l_mounts s). turns (mp_MountCount m) \<le> n))"

lemma unmount_loop_run:
  "layer_ok s \<Longrightarrow> layer_lookup s ident = Some p \<Longrightarrow> enough_turns n s p \<Longrightarrow> unmount_run drv ident s (unmount_loop drv n ident s)"
proof (induction n arbitrary: s)
  case 0
  then show ?case by (simp add: enough_turns_def turns_def split: if_splits)
next
  case (Suc n)
  obtain r t where r: "unmount drv ident False True s = (r, t)" by fastforce
  show ?case
  proof (cases r)
    case (Inl e)
    then show ?thesis using r by (auto intro: run_break run_error)
  next
    case (Inr b)
    with r obtain c where c: "layer_view t = layer_view s" "l_mountsLastWrite t = l_mounts_disk t"
      "c = ly_MountCount (l_heap s p) \<or> l_mountsLastWrite s \<noteq> l_mounts_disk s \<and> (c = 0 \<or> c \<in> mp_MountCount ` set (l_mounts s))"
      "c \<noteq> 0" "ly_MountCount (l_heap t p) = (if 1 < c \<and> ly_MountCount (l_heap t p) \<noteq> 0 then c - 1 else 0)"
      by (auto elim: unmount_step [OF Suc.prems(1,2)])
    have "turns c \<le> Suc n" using Suc.prems(3) c(3) unfolding enough_turns_def by blast
    then have "turns (ly_MountCount (l_heap t p)) \<le> n"
      using c(4,5) by (auto simp: turns_def split: if_splits)
    then have "unmount_run drv ident t (unmount_loop drv n ident t)"
      using Suc.prems(1,2) layer_ok_view [OF c(1)] layer_lookup_view [OF c(1)] c(2) by (intro Suc.IH) (simp_all add: enough_turns_def)
    then show ?thesis using r Inr by (auto intro: run_again)
  qed
qed

lemma fold_max_ge: "x \<in> set (y # xs) \<Longrightarrow> (x :: int) \<le> fold max xs y"
proof (induction xs arbitrary: x y)
  case (Cons a xs)
  have m: "max a y \<le> fold max xs (max a y)" by (rule Cons.IH) simp
  show ?case
  proof (cases "x \<in> set xs")
    case True
    then show ?thesis using Cons.IH [of x "max a y"] by simp
  next
    case False
    then have "x \<le> max a y" using Cons.prems by auto
    then have "x \<le> fold max xs (max a y)" using m by (rule order_trans)
    then show ?thesis by simp
  qed
qed simp

lemma mount_turns_enough: "enough_turns (mount_turns s p) s p"
proof -
  let ?xs = "ly_MountCount (l_heap s p) # map mp_MountCount (l_mounts s)"
  have "turns c \<le> mount_turns s p" if "c \<in> set (0 # ?xs)" for c
  proof -
    have "c \<le> fold max ?xs 0" using fold_max_ge [OF that] by simp
    then have "nat c \<le> nat (fold max ?xs 0)" by linarith
    then show ?thesis by (simp add: turns_def mount_turns_def)
  qed
  then show ?thesis by (auto simp: enough_turns_def)
qed

text \<open>
  C29: the loop of \<open>deferredDelete\<close> that unmounts a layer until it is not mounted always ends, for every
  driver, every content of the mount file and every pattern of I/O errors: the number of turns the
  model allows is enough, and what the bounded loop computes is what the loop without a bound
  computes.
\<close>

theorem unmount_loop_terminates:
  assumes "layer_reach drv (empty_layers d) s" and "layer_lookup s ident = Some p"
  shows "unmount_run drv ident s (unmount_loop drv (mount_turns s p) ident s)"
  by (rule unmount_loop_run [OF layer_reach_ok [OF assms(1) empty_layers_ok] assms(2) mount_turns_enough])

theorem unmount_loop_terminates_witness:
  "unmount_run null_driver ''a1'' sample_layers (unmount_loop null_driver (mount_turns sample_layers 0) ''a1'' sample_layers)"
proof (rule unmount_loop_terminates [OF sample_layers_reach])
  show "layer_lookup sample_layers ''a1'' = Some 0" by (simp add: layer_lookup_def sample_layers_run)
qed

section \<open>Reference counts\<close>

lemma clean_nonempty: "filepath_Clean m \<noteq> ''''"
  by (simp add: filepath_Clean_def Let_def)

lemma layer_Mount_state:
  assumes ok: "layer_ok s" and p: "layer_lookup s k = Some p" and fresh: "l_mountsLastWrite s = l_mounts_disk s"
    and run: "layer_Mount drv k opts label maps s = (Inr m, t)" and "m \<noteq> ''''"
  shows "\<exists>mp. (mp = ly_MountPoint (l_heap s p) \<and> 0 < ly_MountCount (l_heap s p) \<or> mp \<noteq> '''')
    \<and> mount_changed p (mp, ly_MountCount (l_heap s p) + 1) s t"
proof -
  obtain x u where u: "reloadMountsIfChanged s = (Inr x, u)" using run
    by (auto simp: layer_Mount_def op_read_def op_seq_Inr op_fail_def split: if_splits)
  then obtain fs where fs: "u = s\<lparr>faults := fs\<rparr>" using reload_state(3) [OF u fresh] by blast
  have pu: "layer_lookup u k = Some p" using p layer_lookup_view [of u s k] by (simp add: fs)
  consider (again) d y where "saveMounts (upd_layer p (\<lambda>l. l\<lparr>ly_MountCount := ly_MountCount l + 1\<rparr>) (u\<lparr>l_driver := d\<rparr>)) = (Inr y, t)"
      "0 < ly_MountCount (l_heap s p)"
    | (new) d y bm where "saveMounts ((upd_layer p (\<lambda>l. l\<lparr>ly_MountPoint := filepath_Clean m, ly_MountCount := ly_MountCount l + 1\<rparr>)
        (u\<lparr>l_driver := d\<rparr>))\<lparr>l_bymount := bm\<rparr>) = (Inr y, t)"
    using run \<open>m \<noteq> ''''\<close>
    by (auto simp: layer_Mount_def op_read_def op_seq_Inr op_then_Inr op_fail_def op_update_def op_return_def u with_layer_def pu drive_def Let_def
        split: if_splits prod.splits) (auto simp: fs)
  then show ?thesis
  proof cases
    case again
    have "mount_changed p (ly_MountPoint (l_heap s p), ly_MountCount (l_heap s p) + 1) s t"
      by (rule saveMounts_changed [OF ok again(1)]) (auto simp: layer_view_eq fs)
    then show ?thesis using again(2) by blast
  next
    case new
    have "mount_changed p (filepath_Clean m, ly_MountCount (l_heap s p) + 1) s t"
      by (rule saveMounts_changed [OF ok new]) (auto simp: layer_view_eq fs)
    then show ?thesis using clean_nonempty [of m] by blast
  qed
qed

lemma mount_changed_counts:
  assumes "mount_changed p new s t" and "mounts_ok s" and "p \<in> set (l_layers s)"
  shows "mounts_ok t" and "q \<in> set (l_layers s) \<Longrightarrow> q \<noteq> p \<Longrightarrow> mount_state t q = mount_state s q"
    and "ly_MountCount (l_heap t p) = (if fst new \<noteq> '''' \<and> 0 < snd new then snd new else 0)"
proof -
  have l: "l_layers t = l_layers s" using assms(1) by (simp add: mount_changed_def layer_view_def)
  have st: "mount_state t q = (let m = (if q = p then new else mount_state s q) in if fst m \<noteq> '''' \<and> 0 < snd m then m else ('''', 0))"
    if "q \<in> set (l_layers s)" for q using assms(1) that unfolding mount_changed_def by blast
  show "mounts_ok t" unfolding mounts_ok_def l
  proof
    fix q assume q: "q \<in> set (l_layers s)"
    show "mounted (l_heap t q) \<or> mount_state t q = ('''', 0)"
      using st [OF q] by (cases new) (auto simp: mounted_def Let_def split: if_splits)
  qed
  show "mount_state t q = mount_state s q" if "q \<in> set (l_layers s)" "q \<noteq> p"
    using st [OF that(1)] that assms(2) by (auto simp: mounts_ok_def mounted_def Let_def)
  show "ly_MountCount (l_heap t p) = (if fst new \<noteq> '''' \<and> 0 < snd new then snd new else 0)"
    using st [OF assms(3)] by (auto simp: Let_def split: if_splits)
qed

lemma unmount_state:
  assumes ok: "layer_ok s" and p: "layer_lookup s k = Some p" and fresh: "l_mountsLastWrite s = l_mounts_disk s"
    and run: "unmount drv k False conditional s = (Inr b, t)"
  shows "mount_changed p (if 1 < ly_MountCount (l_heap s p) then (ly_MountPoint (l_heap s p), ly_MountCount (l_heap s p) - 1) else ('''', 0)) s t"
proof -
  obtain x u where u: "reloadMountsIfChanged s = (Inr x, u)" "unmount_locked drv k False conditional u = (Inr b, t)"
    using run by (auto simp: unmount_def writable_def op_read_def op_fail_def op_seq_Inr split: if_splits)
  then obtain fs where fs: "u = s\<lparr>faults := fs\<rparr>" using reload_state(3) [OF u(1) fresh] by blast
  have v: "layer_view u = layer_view s" by (simp add: fs)
  have "mount_changed p (if 1 < ly_MountCount (l_heap u p) then (ly_MountPoint (l_heap u p), ly_MountCount (l_heap u p) - 1) else ('''', 0)) u t"
    using unmount_locked_state [OF _ _ u(2), of p] ok p layer_ok_view [OF v] layer_lookup_view [OF v, of k]
    by (cases "1 < ly_MountCount (l_heap u p)") (simp_all add: unmount_lookup_def)
  then show ?thesis by (simp add: fs mount_changed_def v [unfolded fs] layer_view_def)
qed

text \<open>
  C30: mounts are counted. In a store whose mount data is current, a mount that returns a path adds one
  to the count of its layer, and an unmount that succeeds takes one from it, down to zero; in
  both cases no other layer's mount point or count changes, whatever the driver does, and every layer is
  again either mounted with a positive count or not mounted at all.
\<close>

theorem layer_mount_counts:
  assumes "layer_reach drv (empty_layers d) s" and "mounts_ok s" and "l_mountsLastWrite s = l_mounts_disk s"
    and p: "layer_lookup s k = Some p"
    and run: "layer_Mount drv k opts label maps s = (Inr m, t) \<and> m \<noteq> '''' \<and> delta = 1
      \<or> unmount drv k False conditional s = (Inr b, t) \<and> delta = - 1"
  shows "ly_MountCount (l_heap t p) = max 0 (ly_MountCount (l_heap s p) + delta) \<and> mounts_ok t
    \<and> (\<forall>q \<in> set (l_layers s). q \<noteq> p \<longrightarrow>
         ly_MountPoint (l_heap t q) = ly_MountPoint (l_heap s q) \<and> ly_MountCount (l_heap t q) = ly_MountCount (l_heap s q))"
proof -
  have ok: "layer_ok s" by (rule layer_reach_ok [OF assms(1) empty_layers_ok])
  have mem: "p \<in> set (l_layers s)" using layers.find_mem [OF ok p] by blast
  let ?l = "l_heap s p"
  have m: "mounted ?l \<or> mount_state s p = ('''', 0)" using assms(2) mem by (simp add: mounts_ok_def)
  have "\<exists>new. mount_changed p new s t \<and> (if fst new \<noteq> '''' \<and> 0 < snd new then snd new else 0) = max 0 (ly_MountCount ?l + delta)"
    using run
  proof (elim disjE conjE)
    assume a: "layer_Mount drv k opts label maps s = (Inr m, t)" "m \<noteq> ''''" "delta = 1"
    from layer_Mount_state [OF ok p assms(3) a(1,2)] obtain mp where mp: "mp = ly_MountPoint ?l \<and> 0 < ly_MountCount ?l \<or> mp \<noteq> ''''"
      "mount_changed p (mp, ly_MountCount ?l + 1) s t" by blast
    have "mp \<noteq> ''''" "0 \<le> ly_MountCount ?l" using mp(1) m by (auto simp: mounted_def)
    then show ?thesis using mp(2) a(3) by (intro exI [of _ "(mp, ly_MountCount ?l + 1)"]) simp
  next
    assume a: "unmount drv k False conditional s = (Inr b, t)" "delta = - 1"
    then show ?thesis using unmount_state [OF ok p assms(3) a(1)] m
      by (intro exI [of _ "if 1 < ly_MountCount ?l then (ly_MountPoint ?l, ly_MountCount ?l - 1) else ('''', 0)"]) (auto simp: mounted_def)
  qed
  then obtain new where new: "mount_changed p new s t"
    "(if fst new \<noteq> '''' \<and> 0 < snd new then snd new else 0) = max 0 (ly_MountCount ?l + delta)" by blast
  note c = mount_changed_counts [OF new(1) assms(2) mem]
  show ?thesis using c(1,3) new(2) c(2) by auto
qed

lemma sample_layers_sel:
  "faults sample_layers = []" "IsReadWrite sample_layers" "l_mounts_disk sample_layers = 3" "l_mountsLastWrite sample_layers = 3"
  "l_layers sample_layers = [0]" "ly_MountCount (l_heap sample_layers 0) = 0" "ly_MountPoint (l_heap sample_layers 0) = ''''"
  by (simp_all add: sample_layers_def empty_layers_def null_driver_def plain_layer_def toc_output_def layer_run_simps layer_state_simps
      del: op_each.simps)

theorem layer_mount_counts_witness:
  "ly_MountCount (l_heap (snd (layer_Mount null_driver ''a1'' [] '''' None sample_layers)) 0) = 1"
proof -
  have look: "layer_lookup sample_layers ''a1'' = Some 0" by (simp add: layer_lookup_def sample_layers_run)
  have drv: "drv_Get null_driver k l d = (Inr (''/mnt/'' @ k), d)" for k l d by (simp add: null_driver_def op_return_def)
  have "fst (layer_Mount null_driver ''a1'' [] '''' None sample_layers) = Inr ''/mnt/a1''"
    by (simp add: layer_Mount_def layer_run_simps with_layer_def look sample_layers_sel drv Let_def)
  then obtain t where run: "layer_Mount null_driver ''a1'' [] '''' None sample_layers = (Inr ''/mnt/a1'', t)"
    by (metis prod.collapse)
  have "mounts_ok sample_layers" by (simp add: mounts_ok_def sample_layers_sel)
  from layer_mount_counts [OF sample_layers_reach this _ look, of "[]" "''''" None "''/mnt/a1''" t 1 False True] run
  show ?thesis by (simp add: sample_layers_sel)
qed

end
