(* ===== verification/Layer_Access.thy ===== *)
theory Layer_Access
  imports Layer_Mounts
begin

text \<open>
  Access to the layer store (\<open>storage/layers.go\<close>): the constructors and the locks. Where the other stores
  retry once with the write lock, \<open>startReading\<close> retries up to three times. The layer store also
  notices changes of its files by their modification times, and that is where it can go wrong.
\<close>

section \<open>Locks\<close>

definition read_attempt ::
  "'d Driver \<Rightarrow> ('d layerStore \<Rightarrow> 'd layerStore) \<Rightarrow> (go_error \<Rightarrow> ('d layerStore held, unit) op) \<Rightarrow> ('d layerStore held, unit) op" where
  "read_attempt drv others again =
     op_then (in_process (run_reload (layer_reloadIfChanged drv) False)) (\<lambda>(tryLockedForWriting, err).
       case err of
         None \<Rightarrow> op_return ()
       | Some e \<Rightarrow> if \<not> tryLockedForWriting then op_seq (file_unlock others) (op_fail e) else again e)"

primrec layer_read_loop ::
  "'d Driver \<Rightarrow> ('d layerStore \<Rightarrow> 'd layerStore) \<Rightarrow> nat \<Rightarrow> ('d layerStore held, unit) op" where
  "layer_read_loop drv others 0 = read_attempt drv others (\<lambda>e. op_seq (file_unlock others) (op_fail e))"
| "layer_read_loop drv others (Suc n) =
     read_attempt drv others (\<lambda>_.
       op_seq (file_unlock others)
      (op_seq (file_lock Writing)
      (op_seq (reload_step (layer_reloadIfChanged drv) others True)
      (op_seq (file_unlock others)
      (op_seq (file_lock Reading)
      (layer_read_loop drv others n))))))"

definition maxLayerStoreCleanupIterations :: nat where
  "maxLayerStoreCleanupIterations = 3"

definition layer_startReadingWithReload ::
  "'d Driver \<Rightarrow> ('d layerStore \<Rightarrow> 'd layerStore) \<Rightarrow> bool \<Rightarrow> ('d layerStore held, unit) op" where
  "layer_startReadingWithReload drv others canReload =
     op_seq (file_lock Reading)
    (op_seq (mem_lock Reading)
    (if \<not> canReload then op_return ()
     else op_then (op_cleanup (locked_call layer_modified) (stop_store others)) (\<lambda>changed.
       if \<not> changed then op_return ()
       else op_seq mem_unlock
           (op_seq (layer_read_loop drv others maxLayerStoreCleanupIterations)
           (mem_lock Reading)))))"

definition layer_startReading :: "'d Driver \<Rightarrow> ('d layerStore \<Rightarrow> 'd layerStore) \<Rightarrow> ('d layerStore held, unit) op" where
  "layer_startReading drv others = layer_startReadingWithReload drv others True"

definition layer_startWriting :: "'d Driver \<Rightarrow> ('d layerStore \<Rightarrow> 'd layerStore) \<Rightarrow> ('d layerStore held, unit) op" where
  "layer_startWriting drv others = startWritingWithReload (layer_reloadIfChanged drv) others True"

definition layer_load_op :: "'d Driver \<Rightarrow> bool \<Rightarrow> ('d, unit) lop" where
  "layer_load_op drv lockedForWriting s =
     (case layer_load drv lockedForWriting s of ((_, None), s') \<Rightarrow> (Inr (), s') | ((_, Some e), s') \<Rightarrow> (Inl e, s'))"

text \<open>
  The constructors on what is on disk, given as a store with nothing in memory. The calls are those
  for the directories and for the lock files.
\<close>

definition newLayerStore :: "'d Driver \<Rightarrow> ('d layerStore \<Rightarrow> 'd layerStore) \<Rightarrow> ('d layerStore held, unit) op" where
  "newLayerStore drv others =
     op_seq (locked_call io_call)
    (op_seq (locked_call io_call)
    (op_then (locked_call (op_read l_imagedir op_return)) (\<lambda>imagedir.
     op_seq (if imagedir then locked_call io_call else op_return ())
    (op_seq (locked_call io_call)
    (op_seq (if imagedir then locked_call io_call else op_return ())
    (op_seq (locked_call io_call)
    (op_seq (startWritingWithReload (layer_reloadIfChanged drv) others False)
    (op_seq (op_cleanup (op_then (locked_call GetLastWrite) (\<lambda>lw.
               op_seq (op_update (\<lambda>h. h\<lparr>lk_store := (lk_store h)\<lparr>lastWrite := lw\<rparr>\<rparr>))
                 (locked_call (layer_load_op drv True)))) (stop_store others))
     (stop_store others)))))))))"

definition newROLayerStore :: "'d Driver \<Rightarrow> ('d layerStore \<Rightarrow> 'd layerStore) \<Rightarrow> ('d layerStore held, unit) op" where
  "newROLayerStore drv others =
     op_seq (locked_call io_call)
    (op_seq (layer_startReadingWithReload drv others False)
    (op_seq (op_cleanup (op_then (locked_call GetLastWrite) (\<lambda>lw.
               op_seq (op_update (\<lambda>h. h\<lparr>lk_store := (lk_store h)\<lparr>lastWrite := lw\<rparr>\<rparr>))
                 (locked_call (layer_load_op drv False)))) (stop_store others))
     (stop_store others)))"

section \<open>A reload that is lost\<close>

text \<open>
  The files have changed behind the back of the lock file, and their contents need cleaning up.
\<close>

definition edited :: "'d layerStore \<Rightarrow> bool" where
  "edited s \<longleftrightarrow>
     faults s = [] \<and> IsReadWrite s \<and> lock_disk s = lastWrite s \<and> l_mounts_disk s = l_mountsLastWrite s
     \<and> l_mtime s stableLayerLocation \<noteq> 0 \<and> l_mtime s stableLayerLocation \<noteq> l_pathsModified s stableLayerLocation
     \<and> ll_error (layer_load_loop s) \<noteq> None"

text \<open>What reading the files leaves: their modification times.\<close>

definition times_seen :: "'d layerStore \<Rightarrow> 'd layerStore" where
  "times_seen s =
     s\<lparr>l_pathsModified := (\<lambda>loc. if l_mtime s loc \<noteq> 0 \<and> (loc = imageStoreLayerLocation \<longrightarrow> l_imagedir s) then l_mtime s loc
        else l_pathsModified s loc)\<rparr>"

lemma io_quiet: "faults s = [] \<Longrightarrow> io_call s = (Inr (), s)"
  by (simp add: io_call_def)

lemma each_quiet: "faults s = [] \<Longrightarrow> op_each (\<lambda>_. io_call) xs s = (Inr (), s)"
  by (induction xs) (simp_all add: op_run io_quiet)

definition see :: "layerLocation \<Rightarrow> 'd layerStore \<Rightarrow> 'd layerStore" where
  "see loc s = s\<lparr>l_pathsModified := (l_pathsModified s)(loc := if l_mtime s loc = 0 then l_pathsModified s loc else l_mtime s loc)\<rparr>"

lemma see_sel [simp]: "faults (see loc s) = faults s" "l_imagedir (see loc s) = l_imagedir s" "l_mtime (see loc s) = l_mtime s"
  by (simp_all add: see_def)

lemma stat_quiet: "faults s = [] \<Longrightarrow> stat_file loc s = (Inr (), see loc s)"
  by (simp add: stat_file_def op_run io_quiet see_def)

lemma see_all:
  "see volatileLayerLocation (if l_imagedir s then see imageStoreLayerLocation (see stableLayerLocation s) else see stableLayerLocation s) = times_seen s"
  (is "?t = _")
proof -
  have "l_pathsModified ?t loc = l_pathsModified (times_seen s) loc" for loc
    by (cases loc) (simp_all add: see_def times_seen_def)
  hence "l_pathsModified ?t = l_pathsModified (times_seen s)" by blast
  moreover have "?t = s\<lparr>l_pathsModified := l_pathsModified ?t\<rparr>" by (simp add: see_def)
  moreover have "times_seen s = s\<lparr>l_pathsModified := l_pathsModified (times_seen s)\<rparr>" by (simp add: times_seen_def)
  ultimately show ?thesis by metis
qed

lemma read_files_quiet: "faults s = [] \<Longrightarrow> read_files s = (Inr (), times_seen s)"
  unfolding see_all [symmetric] by (simp add: read_files_def op_run stat_quiet io_quiet)

lemma times_seen_sel [simp]:
  "faults (times_seen s) = faults s" "IsReadWrite (times_seen s) = IsReadWrite s" "lock_disk (times_seen s) = lock_disk s"
  "lastWrite (times_seen s) = lastWrite s" "l_mounts_disk (times_seen s) = l_mounts_disk s" "l_mtime (times_seen s) = l_mtime s"
  "l_mountsLastWrite (times_seen s) = l_mountsLastWrite s" "l_imagedir (times_seen s) = l_imagedir s"
  "l_layers (times_seen s) = l_layers s" "l_heap (times_seen s) = l_heap s" "layer_load_loop (times_seen s) = layer_load_loop s"
  by (simp_all add: times_seen_def layer_load_loop_def layer_records_def Let_def cong: if_cong)

lemma edited_load: "edited s \<Longrightarrow> layer_load drv False s = ((True, ll_error (layer_load_loop s)), times_seen s)"
  by (simp add: edited_def layer_load_def load_prepare_def op_run io_quiet each_quiet read_files_quiet Let_def)

lemma edited_modified: "edited s \<Longrightarrow> layersModified s = (Inr (lock_disk s, True), s)"
  by (simp add: edited_def layersModified_def ModifiedSince_def op_run io_quiet)

lemma seen_modified: "edited s \<Longrightarrow> layersModified (times_seen s) = (Inr (lock_disk s, False), times_seen s)"
  by (simp add: edited_def layersModified_def ModifiedSince_def op_run io_quiet) (simp add: times_seen_def)

lemma edited_reload: "edited s \<Longrightarrow> layer_reloadIfChanged drv False s = ((True, ll_error (layer_load_loop s)), times_seen s)"
  by (auto simp: layer_reloadIfChanged_def edited_modified edited_load edited_def split: option.split)

lemma seen_reload: "edited s \<Longrightarrow> layer_reloadIfChanged drv locked (times_seen s) = ((False, None), times_seen s)"
  by (simp add: layer_reloadIfChanged_def seen_modified) (simp add: edited_def reloadMountsIfChanged_def op_run io_quiet)

text \<open>
  C32: a reload of the layer store that is lost. The modification time of \<open>layers.json\<close> has changed, not
  the lock file, and loading the new contents would need the write lock, for example to remove an
  incomplete layer. Then \<open>startReading\<close> succeeds with the old contents: the attempt with the read lock
  fails but records the new modification time, and the one with the write lock sees no change.
\<close>

theorem layer_startReading_loses_reload:
  assumes "edited s"
  shows "layer_startReading drv (\<lambda>s. s) (unheld s) = (Inr (), held_as Reading (times_seen s))"
proof -
  obtain e where e: "ll_error (layer_load_loop s) = Some e" using assms by (auto simp: edited_def)
  have loop: "layer_read_loop drv (\<lambda>s. s) maxLayerStoreCleanupIterations \<lparr>lk_file = Reading, lk_mem = Unlocked, lk_store = s\<rparr>
      = (Inr (), \<lparr>lk_file = Reading, lk_mem = Unlocked, lk_store = times_seen s\<rparr>)"
    using assms e by (simp add: maxLayerStoreCleanupIterations_def numeral_3_eq_3 read_attempt_def op_run in_process_reload reload_step_run
        edited_reload seen_reload file_unlock_def file_lock_def)
  have "layer_modified s = (Inr True, s)"
    using assms by (simp add: layer_modified_def op_run edited_modified)
  then show ?thesis
    by (simp add: layer_startReading_def layer_startReadingWithReload_def op_run locked_call_def loop unheld_def held_as_def
        file_lock_def mem_lock_def mem_unlock_def op_cleanup_def)
qed

text \<open>A store that has read an empty file, which was then replaced by one with an incomplete layer.\<close>

definition edited_layers :: "unit layerStore" where
  "edited_layers = (empty_layers ())\<lparr>l_mtime := (\<lambda>_. 7),
     l_json := (\<lambda>loc. if loc = stableLayerLocation then [no_layer\<lparr>ly_ID := ''a1'', ly_Flags := [''incomplete'' \<mapsto> FlagBool True]\<rparr>] else [])\<rparr>"

theorem layer_startReading_loses_reload_witness:
  "edited edited_layers \<and> l_json edited_layers stableLayerLocation \<noteq> []
   \<and> (\<exists>t. layer_startReading null_driver (\<lambda>s. s) (unheld edited_layers) = (Inr (), held_as Reading t) \<and> layer_Layers t = [])"
proof -
  have ed: "edited edited_layers"
    by (simp add: edited_def edited_layers_def empty_layers_def layer_load_loop_def layer_records_def load_layer_def layer_state_simps)
  have "layer_Layers (times_seen edited_layers) = []"
    by (simp add: layer_Layers_def) (simp add: edited_layers_def empty_layers_def)
  then show ?thesis using layer_startReading_loses_reload [OF ed] ed by (auto simp: edited_layers_def)
qed

section \<open>An additional layer is not saved\<close>

lemma cleanup_Inr: "op_cleanup m c s = (Inr x, t) \<Longrightarrow> m s = (Inr x, t)"
  by (auto simp: op_cleanup_def split: prod.splits sum.splits)

lemma load_mounts_json: "l_json (foldl load_mount s ms) = l_json s"
  by (induction ms arbitrary: s) (simp_all add: load_mount_def split: option.split)

lemma save_nowhere: "preserves (\<lambda>s. l_json s = j) (layer_save drv {} sync)"
  unfolding layer_save_def saveLayers_def saveMounts_def loadMounts_def layer_RecordWrite_def layer_save_location_def
  by (intro preserves_intros) (auto intro!: preserves_intros preserves_update simp: load_mounts_json clear_mounts_def)

text \<open>
  The record of an additional layer never reaches the disk. Putting a layer of an additional layer
  store into the layer store succeeds with the layer known by its ID, but the files of the store are
  left as they were: the new record has no location, so the save at the end writes none of them.
\<close>

lemma PutAdditionalLayer_not_saved:
  assumes run: "PutAdditionalLayer drv now k parentLayer names info s = (Inr l, t)"
  shows "l_json t = l_json s \<and> l_byid t k = Some (l_next s) \<and> l_next s \<in> set (l_layers t) \<and> l_byid s k = None"
proof -
  let ?l = "(json_layer info)\<lparr>ly_ID := k, ly_Created := now, ly_Parent := (case parentLayer of None \<Rightarrow> '''' | Some q \<Rightarrow> ly_ID q)\<rparr>"
  define u where "u fs = add_sums (l_next s) (layer_link (l_next s) ?l names (s\<lparr>faults := fs\<rparr>))" for fs
  have free: "l_byid s k = None"
    using run by (auto simp: PutAdditionalLayer_def op_read_def op_fail_def checkIdOrNameConflict_def split: if_splits option.splits)
  obtain fs where "layer_saveFor drv (l_next s) True (u fs) = (Inr (), t)"
    using run unfolding u_def PutAdditionalLayer_def
    by (auto simp: op_read_def op_fail_def op_seq_Inr op_update_def op_return_def split: option.splits dest!: io_call_Inr cleanup_Inr)
  moreover have "ly_location (l_heap (u fs) (l_next s)) = None" for fs
    by (simp add: u_def add_sums_def layer_link_def json_layer_def)
  ultimately have save: "layer_save drv {} True (u fs) = (Inr (), t)" by (simp add: layer_saveFor_def op_read_def)
  have "l_json t = l_json (u fs)"
    using preservesD [OF save_nowhere, of "u fs" "l_json (u fs)" drv True] save by simp
  moreover have "layer_view t = layer_view (u fs)"
    using preservesD [OF saveFor_view, of "u fs" "layer_view (u fs)" drv "l_next s" True] \<open>layer_saveFor drv (l_next s) True (u fs) = (Inr (), t)\<close> by simp
  ultimately show ?thesis using free by (simp add: layer_view_eq u_def add_sums_def layer_link_def)
qed

end
