(* ===== verification/Storage_Base.thy ===== *)
theory Storage_Base
  imports Image_Access Container_Store Layer_Access User_NS
begin

text \<open>
  \<open>storage/store.go\<close>: the store that consists of a layer store, an image store and a container store,
  with additional layer and image stores that are mostly read-only. This theory has its state, its
  locks and the helpers through which every operation reaches the stores.

  The locks of the stores are ordered; a comment on the type \<open>store\<close> gives the order. In the model a lock
  that is taken out of order, or is already held, and a call of a method without the lock that the
  method requires set the flag \<open>st_misused\<close>.
\<close>

section \<open>Locks and their order\<close>

datatype part = GraphLock | UsernsLock | LayerStore | ROLayerStore nat | ImageStore | ROImageStore nat | ContainerStore

fun part_rank :: "part \<Rightarrow> nat \<times> nat" where
  "part_rank GraphLock = (0, 0)"
| "part_rank UsernsLock = (1, 0)"
| "part_rank LayerStore = (2, 0)"
| "part_rank (ROLayerStore i) = (3, i)"
| "part_rank ImageStore = (4, 0)"
| "part_rank (ROImageStore i) = (5, i)"
| "part_rank ContainerStore = (6, 0)"

lemma part_rank_inj: "part_rank p = part_rank q \<Longrightarrow> p = q"
  by (cases p; cases q) simp_all

instantiation part :: linorder
begin

definition less_eq_part :: "part \<Rightarrow> part \<Rightarrow> bool" where
  "less_eq_part p q \<longleftrightarrow> fst (part_rank p) < fst (part_rank q)
     \<or> fst (part_rank p) = fst (part_rank q) \<and> snd (part_rank p) \<le> snd (part_rank q)"

definition less_part :: "part \<Rightarrow> part \<Rightarrow> bool" where
  "less_part p q \<longleftrightarrow> p \<le> q \<and> \<not> q \<le> (p :: part)"

instance
  by intro_classes (auto simp: less_eq_part_def less_part_def prod_eq_iff intro!: part_rank_inj)

end

type_synonym lock_view = "(part \<Rightarrow> lock_mode \<times> lock_mode) \<times> bool \<times> nat \<times> nat \<times> nat list"

definition parts :: "lock_view \<Rightarrow> part list" where
  "parts v = (case v of (_, _, nl, ni, _) \<Rightarrow>
     [GraphLock, UsernsLock, LayerStore] @ map ROLayerStore [0 ..< nl] @ [ImageStore] @ map ROImageStore [0 ..< ni] @ [ContainerStore])"

definition may_take :: "lock_view \<Rightarrow> part \<Rightarrow> bool" where
  "may_take v p \<longleftrightarrow> (\<forall>q \<in> set (parts v). p \<le> q \<longrightarrow> fst v q = (Unlocked, Unlocked))"

section \<open>State\<close>

text \<open>
  \<open>type store\<close>. The fields of \<open>store_io\<close> are those of the graph lock. \<open>st_layersOpen\<close> tells whether
  \<open>layerStoreUseGetters\<close> is set; of the additional layer stores the first \<open>st_roLayersOpen\<close> are in
  \<open>roLayerStoresUseGetters\<close>. \<open>st_rwImages\<close> has the positions of the additional image
  stores that are in \<open>rwImageStores\<close>, after the image store itself.
\<close>

record 'd store = store_io +
  st_graph :: lock_mode
  st_userns :: lock_mode
  st_misused :: bool
  st_layersOpen :: bool
  st_layers :: "'d layerStore held"
  st_roLayersOpen :: nat
  st_roLayers :: "'d layerStore held list"
  st_images :: "imageStore held"
  st_roImages :: "imageStore held list"
  st_rwImages :: "nat list"
  st_containers :: "containerStore held"
  st_uidMap :: "IDMap list"
  st_gidMap :: "IDMap list"
  st_transient :: bool
  st_disableVolatile :: bool
  st_ids :: id_cache

definition modes :: "'s held \<Rightarrow> lock_mode \<times> lock_mode" where
  "modes h = (lk_file h, lk_mem h)"

fun part_modes :: "'d store \<Rightarrow> part \<Rightarrow> lock_mode \<times> lock_mode" where
  "part_modes w GraphLock = (st_graph w, st_graph w)"
| "part_modes w UsernsLock = (st_userns w, st_userns w)"
| "part_modes w LayerStore = modes (st_layers w)"
| "part_modes w (ROLayerStore i) = (if i < length (st_roLayers w) then modes (st_roLayers w ! i) else (Unlocked, Unlocked))"
| "part_modes w ImageStore = modes (st_images w)"
| "part_modes w (ROImageStore i) = (if i < length (st_roImages w) then modes (st_roImages w ! i) else (Unlocked, Unlocked))"
| "part_modes w ContainerStore = modes (st_containers w)"

definition lock_view :: "'d store \<Rightarrow> lock_view" where
  "lock_view w = (part_modes w, st_misused w, length (st_roLayers w), length (st_roImages w), st_rwImages w)"

text \<open>
  What the store depends on: the graph driver with \<open>drivers.New\<close>, which tells whether the driver has the
  same name as before, \<open>Cleanup\<close> and \<open>DiffSize\<close>; digests; what other processes do to the files of each store while
  its lock file is free; the environment of automatic user namespaces; \<open>label.InitLabels\<close>; and the user
  files in a mounted layer.
\<close>

record 'd store_env =
  se_driver :: "'d Driver"
  se_NewDriver :: "('d, bool) op"
  se_Cleanup :: "('d, unit) op"
  se_DiffSize :: "string \<Rightarrow> string \<Rightarrow> ('d, int) op"
  se_digests :: digest_env
  se_layer_others :: "'d layerStore \<Rightarrow> 'd layerStore"
  se_image_others :: "imageStore \<Rightarrow> imageStore"
  se_container_others :: "containerStore \<Rightarrow> containerStore"
  se_user :: user_env
  se_autoUsernsUser :: string
  se_autoNsMinSize :: "32 word"
  se_autoNsMaxSize :: "32 word"
  se_InitLabels :: "string list \<Rightarrow> (string \<times> string) res"
  se_etc :: "string \<Rightarrow> passwd_user list option \<times> group_entry list option"

section \<open>Access to the stores\<close>

text \<open>
  The interfaces \<open>rwLayerStore\<close>, \<open>roLayerStore\<close>, \<open>rwImageStore\<close>, \<open>roImageStore\<close> and \<open>rwContainerStore\<close>: where a
  store is, and how it is locked.
\<close>

record ('w, 's) access =
  ac_part :: part
  ac_get :: "'w \<Rightarrow> 's held"
  ac_put :: "'s held \<Rightarrow> 'w \<Rightarrow> 'w"
  ac_startReading :: "('s held, unit) op"
  ac_startWriting :: "('s held, unit) op"
  ac_others :: "'s \<Rightarrow> 's"

definition layer_access :: "'d store_env \<Rightarrow> ('d store, 'd layerStore) access" where
  "layer_access env = \<lparr>ac_part = LayerStore, ac_get = st_layers, ac_put = (\<lambda>h w. w\<lparr>st_layers := h\<rparr>),
     ac_startReading = layer_startReading (se_driver env) (se_layer_others env),
     ac_startWriting = layer_startWriting (se_driver env) (se_layer_others env), ac_others = se_layer_others env\<rparr>"

definition ro_layer_access :: "'d store_env \<Rightarrow> nat \<Rightarrow> ('d store, 'd layerStore) access" where
  "ro_layer_access env i = \<lparr>ac_part = ROLayerStore i, ac_get = (\<lambda>w. st_roLayers w ! i),
     ac_put = (\<lambda>h w. w\<lparr>st_roLayers := (st_roLayers w)[i := h]\<rparr>),
     ac_startReading = layer_startReading (se_driver env) (se_layer_others env),
     ac_startWriting = layer_startWriting (se_driver env) (se_layer_others env), ac_others = se_layer_others env\<rparr>"

definition image_access :: "'d store_env \<Rightarrow> ('d store, imageStore) access" where
  "image_access env = \<lparr>ac_part = ImageStore, ac_get = st_images, ac_put = (\<lambda>h w. w\<lparr>st_images := h\<rparr>),
     ac_startReading = image_startReading (se_digests env) (se_image_others env),
     ac_startWriting = image_startWriting (se_digests env) (se_image_others env), ac_others = se_image_others env\<rparr>"

definition ro_image_access :: "'d store_env \<Rightarrow> nat \<Rightarrow> ('d store, imageStore) access" where
  "ro_image_access env i = \<lparr>ac_part = ROImageStore i, ac_get = (\<lambda>w. st_roImages w ! i),
     ac_put = (\<lambda>h w. w\<lparr>st_roImages := (st_roImages w)[i := h]\<rparr>),
     ac_startReading = image_startReading (se_digests env) (se_image_others env),
     ac_startWriting = image_startWriting (se_digests env) (se_image_others env), ac_others = se_image_others env\<rparr>"

definition container_access :: "'d store_env \<Rightarrow> ('d store, containerStore) access" where
  "container_access env = \<lparr>ac_part = ContainerStore, ac_get = st_containers, ac_put = (\<lambda>h w. w\<lparr>st_containers := h\<rparr>),
     ac_startReading = container_startReading (se_container_others env),
     ac_startWriting = container_startWriting (se_container_others env), ac_others = se_container_others env\<rparr>"

text \<open>Running an operation of a store, guarded by a condition on the locks.\<close>

definition misuse :: "('d store, 'a) op" where
  "misuse w = (Inl (Panic ''lock misuse''), w\<lparr>st_misused := True\<rparr>)"

definition guarded :: "('d store \<Rightarrow> bool) \<Rightarrow> ('d store, 'a) op \<Rightarrow> ('d store, 'a) op" where
  "guarded ok m w = (if ok w then m w else misuse w)"

definition zoom :: "('d store, 's) access \<Rightarrow> ('s held, 'a) op \<Rightarrow> ('d store, 'a) op" where
  "zoom a m w = (case m (ac_get a w) of (r, h) \<Rightarrow> (r, ac_put a h w))"

definition startReading :: "('d store, 's) access \<Rightarrow> ('d store, unit) op" where
  "startReading a = guarded (\<lambda>w. may_take (lock_view w) (ac_part a)) (zoom a (ac_startReading a))"

definition startWriting :: "('d store, 's) access \<Rightarrow> ('d store, unit) op" where
  "startWriting a = guarded (\<lambda>w. may_take (lock_view w) (ac_part a)) (zoom a (ac_startWriting a))"

definition stop :: "('d store, 's) access \<Rightarrow> ('d store, unit) op" where
  "stop a = guarded (\<lambda>w. modes (ac_get a w) \<in> {(Reading, Reading), (Writing, Writing)}) (zoom a (stop_store (ac_others a)))"

text \<open>\<open>defer\<close>: what runs when the function returns, whatever it returns.\<close>

definition op_finally :: "('w, 'a) op \<Rightarrow> ('w, 'b) op \<Rightarrow> ('w, 'a) op" where
  "op_finally m n w = (case m w of (r, w1) \<Rightarrow> (r, snd (n w1)))"

definition reading :: "('d store, 's) access \<Rightarrow> ('d store, 'a) op \<Rightarrow> ('d store, 'a) op" where
  "reading a m = op_seq (startReading a) (op_finally m (stop a))"

definition writing :: "('d store, 's) access \<Rightarrow> ('d store, 'a) op \<Rightarrow> ('d store, 'a) op" where
  "writing a m = op_seq (startWriting a) (op_finally m (stop a))"

text \<open>Methods that require \<open>startWriting\<close>, methods that require either lock, and queries.\<close>

definition change :: "('d store, 's) access \<Rightarrow> ('s, 'a) op \<Rightarrow> ('d store, 'a) op" where
  "change a m = guarded (\<lambda>w. modes (ac_get a w) = (Writing, Writing)) (zoom a (locked_call m))"

definition ask :: "('d store, 's) access \<Rightarrow> ('s, 'a) op \<Rightarrow> ('d store, 'a) op" where
  "ask a m = guarded (\<lambda>w. modes (ac_get a w) \<in> {(Reading, Reading), (Writing, Writing)}) (zoom a (locked_call m))"

definition query :: "('s \<Rightarrow> 'a) \<Rightarrow> ('s, 'a) op" where
  "query f = op_read f op_return"

text \<open>A function of a store that may return an error, and its result as a value.\<close>

definition query_res :: "('s \<Rightarrow> 'a res) \<Rightarrow> ('s, 'a) op" where
  "query_res f s = (f s, s)"

section \<open>The graph driver and the layer stores\<close>

text \<open>\<open>startUsingGraphDriver\<close>: a driver that another process has shut down is created again.\<close>

definition reload_driver :: "'d store_env \<Rightarrow> ('d store, unit) op" where
  "reload_driver env =
     op_read lastWrite (\<lambda>previous. op_then (ModifiedSince previous) (\<lambda>(lw, modified).
       if \<not> modified then op_return ()
       else op_then (zoom (layer_access env) (locked_call (drive (se_NewDriver env)))) (\<lambda>same_name.
         if \<not> same_name then op_fail (ErrFmt ''graph driver name changed during reload'')
         else op_update (\<lambda>w. w\<lparr>st_layersOpen := False, lastWrite := lw\<rparr>))))"

definition startUsingGraphDriver :: "'d store_env \<Rightarrow> ('d store, unit) op" where
  "startUsingGraphDriver env =
     guarded (\<lambda>w. may_take (lock_view w) GraphLock)
    (op_seq (op_update (\<lambda>w. w\<lparr>st_graph := Writing\<rparr>))
    (op_cleanup (reload_driver env) (op_update (\<lambda>w. w\<lparr>st_graph := Unlocked\<rparr>))))"

definition stopUsingGraphDriver :: "('d store, unit) op" where
  "stopUsingGraphDriver = guarded (\<lambda>w. st_graph w = Writing) (op_update (\<lambda>w. w\<lparr>st_graph := Unlocked\<rparr>))"

definition usingGraphDriver :: "'d store_env \<Rightarrow> ('d store, 'a) op \<Rightarrow> ('d store, 'a) op" where
  "usingGraphDriver env m = op_seq (startUsingGraphDriver env) (op_finally m stopUsingGraphDriver)"

text \<open>A layer store that is created has nothing in memory.\<close>

definition layer_forget :: "'d layerStore \<Rightarrow> 'd layerStore" where
  "layer_forget s = s\<lparr>lastWrite := 0, l_layers := [], l_idindex := NewTruncIndex [], l_byid := Map.empty, l_byname := Map.empty,
     l_bymount := Map.empty, l_bycompressedsum := (\<lambda>_. []), l_byuncompressedsum := (\<lambda>_. []), l_bytocsum := (\<lambda>_. []),
     l_pathsModified := (\<lambda>_. 0), l_mountsLastWrite := 0\<rparr>"

definition getLayerStoreLocked :: "'d store_env \<Rightarrow> ('d store, unit) op" where
  "getLayerStoreLocked env =
     guarded (\<lambda>w. st_graph w = Writing)
    (op_read st_layersOpen (\<lambda>open.
       if open then op_return ()
       else op_seq io_call
           (op_seq io_call
           (op_seq (guarded (\<lambda>w. may_take (lock_view w) LayerStore)
              (zoom (layer_access env) (op_seq (op_update (\<lambda>h. h\<lparr>lk_store := layer_forget (lk_store h)\<rparr>))
                 (newLayerStore (se_driver env) (se_layer_others env)))))
           (op_update (\<lambda>w. w\<lparr>st_layersOpen := True\<rparr>))))))"

definition getLayerStore :: "'d store_env \<Rightarrow> ('d store, unit) op" where
  "getLayerStore env = usingGraphDriver env (getLayerStoreLocked env)"

text \<open>
  \<open>getROLayerStoresLocked\<close> appends every store to the field as soon as it is open, so after an error
  the field has the stores before it.
\<close>

fun open_ro_layers :: "'d store_env \<Rightarrow> nat list \<Rightarrow> ('d store, unit) op" where
  "open_ro_layers env [] = op_return ()"
| "open_ro_layers env (i # is) =
     op_seq (guarded (\<lambda>w. may_take (lock_view w) (ROLayerStore i))
       (zoom (ro_layer_access env i) (op_seq (op_update (\<lambda>h. h\<lparr>lk_store := layer_forget (lk_store h)\<rparr>))
          (newROLayerStore (se_driver env) (se_layer_others env)))))
    (op_seq (op_update (\<lambda>w. w\<lparr>st_roLayersOpen := Suc i\<rparr>))
    (open_ro_layers env is))"

definition getROLayerStoresLocked :: "'d store_env \<Rightarrow> ('d store, unit) op" where
  "getROLayerStoresLocked env =
     guarded (\<lambda>w. st_graph w = Writing)
    (op_read (\<lambda>w. (st_roLayersOpen w, length (st_roLayers w))) (\<lambda>(open, n).
       if open \<noteq> 0 then op_return () else op_seq io_call (open_ro_layers env [0 ..< n])))"

definition bothLayerStoreKindsLocked :: "'d store_env \<Rightarrow> ('d store, unit) op" where
  "bothLayerStoreKindsLocked env = op_seq (getLayerStoreLocked env) (getROLayerStoresLocked env)"

definition bothLayerStoreKinds :: "'d store_env \<Rightarrow> ('d store, unit) op" where
  "bothLayerStoreKinds env = usingGraphDriver env (bothLayerStoreKindsLocked env)"

definition ro_layers :: "'d store \<Rightarrow> nat list" where
  "ro_layers w = [0 ..< min (st_roLayersOpen w) (length (st_roLayers w))]"

definition ro_images :: "'d store \<Rightarrow> nat list" where
  "ro_images w = [0 ..< length (st_roImages w)]"

section \<open>Helpers of the operations\<close>

text \<open>
  The callbacks of \<open>readAllLayerStores\<close> and its relatives share variables with their callers, the
  argument \<open>v\<close>; \<open>Inl\<close> is the new value of the variables when the callback is not done, \<open>Inr\<close> the result
  when it is.
\<close>

fun read_each :: "(nat \<Rightarrow> ('d store, 's) access) \<Rightarrow> ('v \<Rightarrow> ('s, 'v + 'a) op) \<Rightarrow> nat list \<Rightarrow> 'v \<Rightarrow> ('d store, 'v + 'a) op" where
  "read_each acc fn [] v = op_return (Inl v)"
| "read_each acc fn (i # is) v =
     reading (acc i) (op_then (ask (acc i) (fn v)) (\<lambda>r.
       case r of Inr x \<Rightarrow> op_return (Inr x) | Inl v' \<Rightarrow> read_each acc fn is v'))"

definition readAllLayerStores :: "'d store_env \<Rightarrow> ('v \<Rightarrow> ('d layerStore, 'v + 'a) op) \<Rightarrow> 'v \<Rightarrow> ('d store, 'v + 'a) op" where
  "readAllLayerStores env fn v =
     op_seq (bothLayerStoreKinds env)
       (reading (layer_access env) (op_then (ask (layer_access env) (fn v)) (\<lambda>r.
          case r of
            Inr x \<Rightarrow> op_return (Inr x)
          | Inl v' \<Rightarrow> op_read ro_layers (\<lambda>is. read_each (ro_layer_access env) fn is v'))))"

definition readPrimaryLayerStore :: "'d store_env \<Rightarrow> ('d store, 'a) op \<Rightarrow> ('d store, 'a) op" where
  "readPrimaryLayerStore env m = op_seq (getLayerStore env) (reading (layer_access env) m)"

definition writeToLayerStore :: "'d store_env \<Rightarrow> ('d store, 'a) op \<Rightarrow> ('d store, 'a) op" where
  "writeToLayerStore env m = op_seq (getLayerStore env) (writing (layer_access env) m)"

definition readOrWriteAllLayerStores ::
  "'d store_env \<Rightarrow> ('v \<Rightarrow> ('d layerStore, 'v + 'a) op) \<Rightarrow> 'v \<Rightarrow> ('d store, 'v + 'a) op" where
  "readOrWriteAllLayerStores env fn v =
     op_seq (bothLayerStoreKinds env)
       (writing (layer_access env) (op_then (ask (layer_access env) (fn v)) (\<lambda>r.
          case r of
            Inr x \<Rightarrow> op_return (Inr x)
          | Inl v' \<Rightarrow> op_read ro_layers (\<lambda>is. read_each (ro_layer_access env) fn is v'))))"

definition readAllImageStores :: "'d store_env \<Rightarrow> ('v \<Rightarrow> (imageStore, 'v + 'a) op) \<Rightarrow> 'v \<Rightarrow> ('d store, 'v + 'a) op" where
  "readAllImageStores env fn v =
     reading (image_access env) (op_then (ask (image_access env) (fn v)) (\<lambda>r.
       case r of
         Inr x \<Rightarrow> op_return (Inr x)
       | Inl v' \<Rightarrow> op_read ro_images (\<lambda>is. read_each (ro_image_access env) fn is v')))"

definition writeToImageStore :: "'d store_env \<Rightarrow> ('d store, 'a) op \<Rightarrow> ('d store, 'a) op" where
  "writeToImageStore env m = writing (image_access env) m"

definition readContainerStore :: "'d store_env \<Rightarrow> (containerStore, 'a) op \<Rightarrow> ('d store, 'a) op" where
  "readContainerStore env m = reading (container_access env) (ask (container_access env) m)"

definition writeToContainerStore :: "'d store_env \<Rightarrow> ('d store, 'a) op \<Rightarrow> ('d store, 'a) op" where
  "writeToContainerStore env m = writing (container_access env) m"

definition writeToAllStores :: "'d store_env \<Rightarrow> ('d store, 'a) op \<Rightarrow> ('d store, 'a) op" where
  "writeToAllStores env m =
     op_seq (getLayerStore env)
       (writing (layer_access env) (writing (image_access env) (writing (container_access env) m)))"

text \<open>
  Looking for a layer in the stores in order, keeping those that were read locked until the rest of the
  caller, \<open>use\<close>, is done.
\<close>

fun locate_layer :: "'d store_env \<Rightarrow> string \<Rightarrow> nat list \<Rightarrow> (Layer \<Rightarrow> ('d store, 'a) op) \<Rightarrow> ('d store, 'a) op" where
  "locate_layer env k [] use = op_fail ErrLayerUnknown"
| "locate_layer env k (i # is) use =
     reading (ro_layer_access env i)
       (op_then (ask (ro_layer_access env i) (query (\<lambda>s. layer_Get s k))) (\<lambda>r.
          case r of Inr l \<Rightarrow> use l | Inl _ \<Rightarrow> locate_layer env k is use))"

text \<open>\<open>getParentLayer\<close>, for a layer store that is locked by the caller.\<close>

definition getParentLayer :: "'d store_env \<Rightarrow> string \<Rightarrow> (Layer \<Rightarrow> ('d store, 'a) op) \<Rightarrow> ('d store, 'a) op" where
  "getParentLayer env parent use =
     op_then (ask (layer_access env) (query (\<lambda>s. layer_Get s parent))) (\<lambda>r.
       case r of Inr l \<Rightarrow> use l | Inl _ \<Rightarrow> op_read ro_layers (\<lambda>is. locate_layer env parent is use))"

text \<open>The same for additional image stores, with the position of the store.\<close>

fun locate_image ::
  "'d store_env \<Rightarrow> string \<Rightarrow> nat list \<Rightarrow> (nat \<Rightarrow> Image \<Rightarrow> ('d store, 'a) op) \<Rightarrow> ('d store, 'a) op \<Rightarrow> ('d store, 'a) op" where
  "locate_image env k [] use otherwise = otherwise"
| "locate_image env k (i # is) use otherwise =
     reading (ro_image_access env i)
       (op_then (ask (ro_image_access env i) (query (\<lambda>s. image_Get s k))) (\<lambda>r.
          case r of Inr img \<Rightarrow> use i img | Inl _ \<Rightarrow> locate_image env k is use otherwise))"

text \<open>Reading all additional layer stores, as \<open>CreateContainer\<close> and \<open>MountImage\<close> do.\<close>

fun reading_all :: "(nat \<Rightarrow> ('d store, 's) access) \<Rightarrow> nat list \<Rightarrow> ('d store, 'a) op \<Rightarrow> ('d store, 'a) op" where
  "reading_all acc [] m = m"
| "reading_all acc (i # is) m = reading (acc i) (reading_all acc is m)"

text \<open>A deferred call whose error counts when there is no other.\<close>

definition op_defer :: "('w, 'a) op \<Rightarrow> ('w, 'b) op \<Rightarrow> ('w, 'a) op" where
  "op_defer m n w =
     (case m w of
        (Inl e, w1) \<Rightarrow> (Inl e, snd (n w1))
      | (Inr x, w1) \<Rightarrow> (case n w1 of (Inl e, w2) \<Rightarrow> (Inl e, w2) | (Inr _, w2) \<Rightarrow> (Inr x, w2)))"

text \<open>The temporary directories of a deletion are cleaned up when the locks are free again.\<close>

definition and_cleanup :: "('d store, 'a) op \<Rightarrow> ('d store, 'a) op" where
  "and_cleanup m = op_defer m io_call"

definition with_userns :: "bool \<Rightarrow> ('d store, 'a) op \<Rightarrow> ('d store, 'a) op" where
  "with_userns needed m =
     (if \<not> needed then m
      else op_seq (guarded (\<lambda>w. may_take (lock_view w) UsernsLock) (op_update (\<lambda>w. w\<lparr>st_userns := Writing\<rparr>)))
             (op_finally m (op_update (\<lambda>w. w\<lparr>st_userns := Unlocked\<rparr>))))"

end
