(* ===== verification/Storage_Create.thy ===== *)
theory Storage_Create
  imports Storage_Base
begin

text \<open>
  \<open>storage/store.go\<close>: creating layers, images and containers, with the mapped copies of top layers and
  the temporary layer that automatic user namespaces are measured on (\<open>storage/userns.go\<close>).
\<close>

section \<open>Layers\<close>

text \<open>
  The ID mappings of a new layer: those of the request, or else those of its parent or of the store,
  unless the driver can shift IDs when it mounts.
\<close>

definition layer_id_options :: "'d Driver \<Rightarrow> LayerOptions \<Rightarrow> IDMap list \<Rightarrow> IDMap list \<Rightarrow> LayerOptions" where
  "layer_id_options drv lOptions base_uids base_gids =
     (let uids0 = (if lopt_HostUIDMapping lOptions then [] else lopt_UIDMap lOptions);
          gids0 = (if lopt_HostGIDMapping lOptions then [] else lopt_GIDMap lOptions);
          uidMap = (if \<not> lopt_HostUIDMapping lOptions \<and> uids0 = [] then base_uids else uids0);
          gidMap = (if \<not> lopt_HostGIDMapping lOptions \<and> gids0 = [] then base_gids else gids0)
      in if drv_SupportsShifting drv uidMap gidMap
         then lOptions\<lparr>lopt_HostUIDMapping := True, lopt_HostGIDMapping := True, lopt_UIDMap := [], lopt_GIDMap := []\<rparr>
         else lOptions\<lparr>lopt_UIDMap := uidMap, lopt_GIDMap := gidMap\<rparr>)"

text \<open>\<open>populateLayerOptions\<close>, with what the caller does while the additional layer stores are locked.\<close>

definition populateLayerOptions ::
  "'d store_env \<Rightarrow> string \<Rightarrow> LayerOptions \<Rightarrow> (LayerOptions \<Rightarrow> Layer option \<Rightarrow> ('d store, 'a) op) \<Rightarrow> ('d store, 'a) op" where
  "populateLayerOptions env parent lOptions use =
     (if parent = ''''
      then op_read (\<lambda>w. layer_id_options (se_driver env) lOptions (st_uidMap w) (st_gidMap w)) (\<lambda>options. use options None)
      else getParentLayer env parent (\<lambda>parentLayer.
        op_seq (writing (container_access env)
          (op_then (ask (container_access env) (query container_Containers)) (\<lambda>containers.
             if \<exists>c \<in> set containers. ctr_LayerID c = parent then op_fail ErrParentIsContainer else op_return ())))
        (use (layer_id_options (se_driver env) lOptions (ly_UIDMap parentLayer) (ly_GIDMap parentLayer)) (Some parentLayer))))"

text \<open>
  The critical section of \<open>PutLayer\<close> that creates the layer, when nothing has been staged.
\<close>

definition PutLayer_locked ::
  "'d store_env \<Rightarrow> int \<Rightarrow> string list \<Rightarrow> string \<Rightarrow> string \<Rightarrow> string list \<Rightarrow> string \<Rightarrow> bool \<Rightarrow> LayerOptions \<Rightarrow> layerContents \<Rightarrow>
     ('d store, Layer \<times> int) op" where
  "PutLayer_locked env now draws k parent names mountLabel writeable lOptions contents =
     populateLayerOptions env parent lOptions (\<lambda>options parentLayer.
       change (layer_access env) (layer_create (se_driver env) now draws k parentLayer names mountLabel options writeable contents))"

text \<open>
  When the contents have been staged without the lock, the parent is looked up again and must have
  kept its mappings.
\<close>

definition PutLayer_staged ::
  "'d store_env \<Rightarrow> int \<Rightarrow> string list \<Rightarrow> string \<Rightarrow> string \<Rightarrow> string list \<Rightarrow> bool \<Rightarrow> LayerOptions \<Rightarrow> Layer option \<Rightarrow> layerContents \<Rightarrow>
     ('d store, Layer \<times> int) op" where
  "PutLayer_staged env now draws k parent names writeable options parentLayer contents =
     (let create = change (layer_access env)
            (layer_create (se_driver env) now draws k parentLayer names '''' options writeable contents)
      in case parentLayer of
           None \<Rightarrow> create
         | Some old \<Rightarrow>
             getParentLayer env (ly_ID old) (\<lambda>freshLayer.
               if ly_UIDMap freshLayer \<noteq> ly_UIDMap old \<or> ly_GIDMap freshLayer \<noteq> ly_GIDMap old
               then op_fail (ErrFmt ''parent layer changed id mappings'')
               else create))"

text \<open>
  \<open>PutLayer\<close>. \<open>diff\<close> is what extracting the contents produces, if there are contents, and \<open>staging\<close> tells
  whether the driver can extract them without the lock.
\<close>

definition PutLayer ::
  "'d store_env \<Rightarrow> int \<Rightarrow> string list \<Rightarrow> string \<Rightarrow> string \<Rightarrow> string list \<Rightarrow> string \<Rightarrow> bool \<Rightarrow> LayerOptions \<Rightarrow>
     (applyDiffResult \<times> string) option \<Rightarrow> bool \<Rightarrow> ('d store, Layer \<times> int) op" where
  "PutLayer env now draws k parent names mountLabel writeable lOptions diff staging =
     op_seq (bothLayerStoreKinds env)
      (case diff of
         None \<Rightarrow>
           writing (layer_access env) (PutLayer_locked env now draws k parent names mountLabel writeable lOptions NoContents)
       | Some (result, tarSplit) \<Rightarrow>
           if \<not> staging \<or> mountLabel \<noteq> ''''
           then writing (layer_access env)
                  (PutLayer_locked env now draws k parent names mountLabel writeable lOptions (Diff result tarSplit))
           else op_then (writing (layer_access env)
                  (op_then (ask (layer_access env) (query (\<lambda>s. checkIdOrNameConflict s k names))) (\<lambda>conflict.
                     case conflict of
                       Some e \<Rightarrow> op_fail e
                     | None \<Rightarrow> populateLayerOptions env parent lOptions (\<lambda>options parentLayer. op_return (options, parentLayer)))))
                  (\<lambda>(options, parentLayer).
                     op_seq io_call
                       (writing (layer_access env)
                          (PutLayer_staged env now draws k parent names writeable options parentLayer (StagedExtraction result tarSplit)))))"

definition CreateLayer ::
  "'d store_env \<Rightarrow> int \<Rightarrow> string list \<Rightarrow> string \<Rightarrow> string \<Rightarrow> string list \<Rightarrow> string \<Rightarrow> bool \<Rightarrow> LayerOptions \<Rightarrow> ('d store, Layer) op" where
  "CreateLayer env now draws k parent names mountLabel writeable options =
     op_then (PutLayer env now draws k parent names mountLabel writeable options None False) (\<lambda>(l, _). op_return l)"

text \<open>\<open>ApplyStagedLayer\<close>: into a layer that exists, or into a new one.\<close>

definition ApplyStagedLayer ::
  "'d store_env \<Rightarrow> int \<Rightarrow> string list \<Rightarrow> string \<Rightarrow> string \<Rightarrow> string list \<Rightarrow> string \<Rightarrow> bool \<Rightarrow> LayerOptions \<Rightarrow> DriverWithDifferOutput \<Rightarrow>
     ('d store, Layer) op" where
  "ApplyStagedLayer env now draws k parent names mountLabel writeable lOptions out =
     op_seq (bothLayerStoreKinds env)
       (writing (layer_access env)
         (op_then (ask (layer_access env) (query (\<lambda>s. layer_Get s k))) (\<lambda>r.
            case r of
              Inr l \<Rightarrow> op_seq (change (layer_access env) (applyDiffFromStagingDirectory (se_driver env) k out)) (op_return l)
            | Inl _ \<Rightarrow>
                op_then (PutLayer_locked env now draws k parent names mountLabel writeable lOptions (StagingDirectory out))
                  (\<lambda>(l, _). op_return l))))"

text \<open>\<open>additionalLayer.PutAs\<close>\<close>

definition PutAs ::
  "'d store_env \<Rightarrow> int \<Rightarrow> string \<Rightarrow> string \<Rightarrow> string list \<Rightarrow> Layer \<Rightarrow> ('d store, Layer) op" where
  "PutAs env now k parent names info =
     op_seq (bothLayerStoreKinds env)
       (writing (layer_access env)
         (let put = (\<lambda>parentLayer. change (layer_access env) (PutAdditionalLayer (se_driver env) now k parentLayer names info))
          in if parent = '''' then put None else getParentLayer env parent (\<lambda>l. put (Some l))))"

section \<open>Images\<close>

definition empty_options :: ImageOptions where
  "empty_options = \<lparr>opt_Digest = '''', opt_Digests = [], opt_Metadata = '''', opt_CreationDate = 0, opt_NamesHistory = [],
     opt_Flags = Map.empty, opt_BigData = []\<rparr>"

text \<open>The data items of an image in another store, with their digests.\<close>

fun copy_big_data :: "('d store, imageStore) access \<Rightarrow> string \<Rightarrow> string list \<Rightarrow> ('d store, (string \<times> string \<times> string) list) op" where
  "copy_big_data a k [] = op_return []"
| "copy_big_data a k (key # keys) =
     op_then (ask a (image_BigData k key)) (\<lambda>data.
     op_then (ask a (query_res (\<lambda>s. image_BigDataDigest s k key))) (\<lambda>dataDigest.
     op_then (copy_big_data a k keys) (\<lambda>items.
     op_return ((key, data, dataDigest) # items))))"

text \<open>What \<open>CreateImage\<close> makes of its options.\<close>

definition merge_options :: "int \<Rightarrow> string \<Rightarrow> ImageOptions \<Rightarrow> ImageOptions option \<Rightarrow> ImageOptions" where
  "merge_options now metadata options iOptions =
     (let o1 = (case iOptions of
                  None \<Rightarrow> options
                | Some i \<Rightarrow>
                    options\<lparr>opt_CreationDate := (if opt_CreationDate i \<noteq> 0 then opt_CreationDate i else opt_CreationDate options),
                      opt_Digest := (if opt_Digest i \<noteq> '''' then opt_Digest i else opt_Digest options),
                      opt_Digests := opt_Digests options @ opt_Digests i,
                      opt_Metadata := (if opt_Metadata i \<noteq> '''' then opt_Metadata i else opt_Metadata options),
                      opt_BigData := opt_BigData options @ opt_BigData i,
                      opt_NamesHistory := opt_NamesHistory options @ opt_NamesHistory i,
                      opt_Flags := opt_Flags options ++ opt_Flags i\<rparr>);
          o2 = (if opt_CreationDate o1 = 0 then o1\<lparr>opt_CreationDate := now\<rparr> else o1)
      in if metadata \<noteq> '''' then o2\<lparr>opt_Metadata := metadata\<rparr> else o2)"

text \<open>
  The critical section of \<open>CreateImage\<close> on the image stores: an image with the same ID in an additional
  store passes on its contents and its names.
\<close>

definition create_image ::
  "'d store_env \<Rightarrow> int \<Rightarrow> string list \<Rightarrow> string \<Rightarrow> string list \<Rightarrow> string \<Rightarrow> ImageOptions \<Rightarrow> string list \<Rightarrow> ('d store, Image) op" where
  "create_image env now draws k names layer options namesToAdd =
     op_then (change (image_access env) (image_create (se_digests env) now draws k names layer options)) (\<lambda>res.
       if namesToAdd = [] then op_return res
       else op_seq (change (image_access env) (image_updateNames (img_ID res) namesToAdd addNames)) (op_return res))"

definition CreateImage_locked ::
  "'d store_env \<Rightarrow> int \<Rightarrow> string list \<Rightarrow> string \<Rightarrow> string list \<Rightarrow> string \<Rightarrow> string \<Rightarrow> ImageOptions option \<Rightarrow> ('d store, Image) op" where
  "CreateImage_locked env now draws k names layer metadata iOptions =
     (let plain = create_image env now draws k names layer (merge_options now metadata empty_options iOptions) []
      in if k = '''' then plain
         else op_read ro_images (\<lambda>is. locate_image env k is (\<lambda>i img.
                op_then (copy_big_data (ro_image_access env i) k (img_BigDataNames img)) (\<lambda>items.
                  create_image env now draws k names layer
                    (merge_options now metadata
                       (empty_options\<lparr>opt_Metadata := img_Metadata img, opt_CreationDate := img_Created img,
                          opt_Digest := img_Digest img, opt_Digests := img_Digests img,
                          opt_NamesHistory := img_NamesHistory img, opt_BigData := items\<rparr>) iOptions)
                    (dedupeStrings (img_Names img @ names)))) plain))"

definition CreateImage ::
  "'d store_env \<Rightarrow> int \<Rightarrow> string list \<Rightarrow> string \<Rightarrow> string list \<Rightarrow> string \<Rightarrow> string \<Rightarrow> ImageOptions option \<Rightarrow> ('d store, Image) op" where
  "CreateImage env now draws k names layer metadata iOptions =
     (let create = (\<lambda>topLayer. writeToImageStore env (CreateImage_locked env now draws k names topLayer metadata iOptions))
      in if layer = '''' then create ''''
         else op_seq (bothLayerStoreKinds env)
                (reading (layer_access env) (getParentLayer env layer (\<lambda>l. create (ly_ID l)))))"

section \<open>Mapped top layers\<close>

text \<open>The mapping options of a container, as \<open>types.IDMappingOptions\<close>.\<close>

record IDMappingOptions =
  im_HostUIDMapping :: bool
  im_HostGIDMapping :: bool
  im_UIDMap :: "IDMap list"
  im_GIDMap :: "IDMap list"

definition layerMatchesMappingOptions :: "'d Driver \<Rightarrow> IDMappingOptions \<Rightarrow> Layer \<Rightarrow> bool" where
  "layerMatchesMappingOptions drv options layer =
     (if drv_SupportsShifting drv (im_UIDMap options) (im_GIDMap options) \<and> ly_UIDMap layer = [] \<and> ly_GIDMap layer = [] then True
      else if im_HostUIDMapping options \<and> ly_UIDMap layer \<noteq> [] then False
      else if im_HostGIDMapping options \<and> ly_GIDMap layer \<noteq> [] then False
      else ly_UIDMap layer = im_UIDMap options \<and> ly_GIDMap layer = im_GIDMap options)"

text \<open>The locks that \<open>getMaxSizeFromImage\<close> and \<open>imageTopLayerForMapping\<close> require.\<close>

definition layers_locked :: "'d store \<Rightarrow> bool" where
  "layers_locked w \<longleftrightarrow> modes (st_layers w) = (Writing, Writing) \<and> (\<forall>i \<in> set (ro_layers w). modes (st_roLayers w ! i) = (Reading, Reading))"

definition all_layers :: "'d store \<Rightarrow> 'd layerStore list" where
  "all_layers w = lk_store (st_layers w) # map (\<lambda>i. lk_store (st_roLayers w ! i)) (ro_layers w)"

fun first_layer :: "'d layerStore list \<Rightarrow> string \<Rightarrow> Layer option" where
  "first_layer [] k = None"
| "first_layer (s # ss) k = (case layer_Get s k of Inr l \<Rightarrow> Some l | Inl _ \<Rightarrow> first_layer ss k)"

text \<open>
  The loops of \<open>imageTopLayerForMapping\<close> over the stores and, in each, over the top layers of the image:
  a layer that matches, or else the first one found with its parent and whether it is in the first store.
\<close>

fun scan_candidates ::
  "'d Driver \<Rightarrow> IDMappingOptions \<Rightarrow> 'd layerStore list \<Rightarrow> ('d layerStore \<times> bool) \<Rightarrow> string list \<Rightarrow>
     (Layer \<times> Layer option \<times> bool) option \<Rightarrow> Layer + (Layer \<times> Layer option \<times> bool) option" where
  "scan_candidates drv options all (s, primary) [] found = Inr found"
| "scan_candidates drv options all (s, primary) (c # cs) found =
     (case layer_Get s c of
        Inl _ \<Rightarrow> scan_candidates drv options all (s, primary) cs found
      | Inr l \<Rightarrow>
          let parent = (if ly_Parent l = '''' then None else first_layer all (ly_Parent l))
          in if ly_Parent l \<noteq> '''' \<and> parent = None then scan_candidates drv options all (s, primary) cs found
             else if layerMatchesMappingOptions drv options l then Inl l
             else scan_candidates drv options all (s, primary) cs (if found = None then Some (l, parent, primary) else found))"

fun scan_stores ::
  "'d Driver \<Rightarrow> IDMappingOptions \<Rightarrow> 'd layerStore list \<Rightarrow> ('d layerStore \<times> bool) list \<Rightarrow> string list \<Rightarrow>
     (Layer \<times> Layer option \<times> bool) option \<Rightarrow> Layer + (Layer \<times> Layer option \<times> bool) option" where
  "scan_stores drv options all [] cs found = Inr found"
| "scan_stores drv options all (s # ss) cs found =
     (case scan_candidates drv options all s cs found of
        Inl l \<Rightarrow> Inl l
      | Inr found' \<Rightarrow> scan_stores drv options all ss cs found')"

definition mapped_options :: "'d Driver \<Rightarrow> IDMappingOptions \<Rightarrow> Layer \<Rightarrow> LayerOptions" where
  "mapped_options drv options layer =
     (if drv_SupportsShifting drv (im_UIDMap options) (im_GIDMap options)
      then \<lparr>lopt_TemplateLayer = ly_ID layer, lopt_Volatile = False, lopt_BigData = [], lopt_Flags = Map.empty,
            lopt_HostUIDMapping = True, lopt_HostGIDMapping = True, lopt_UIDMap = [], lopt_GIDMap = []\<rparr>
      else \<lparr>lopt_TemplateLayer = ly_ID layer, lopt_Volatile = False, lopt_BigData = [], lopt_Flags = Map.empty,
            lopt_HostUIDMapping = im_HostUIDMapping options, lopt_HostGIDMapping = im_HostGIDMapping options,
            lopt_UIDMap = im_UIDMap options, lopt_GIDMap = im_GIDMap options\<rparr>)"

text \<open>\<open>imageTopLayerForMapping\<close>; \<open>local\<close> tells whether the image is in the image store itself.\<close>

definition imageTopLayerForMapping ::
  "'d store_env \<Rightarrow> int \<Rightarrow> string list \<Rightarrow> Image \<Rightarrow> bool \<Rightarrow> IDMappingOptions \<Rightarrow> ('d store, Layer) op" where
  "imageTopLayerForMapping env now draws img local options =
     guarded layers_locked
    (op_read (\<lambda>w. scan_stores (se_driver env) options (all_layers w) (zip (all_layers w) (True # map (\<lambda>_. False) (ro_layers w)))
                       (img_TopLayer img # img_MappedTopLayers img) None) (\<lambda>r.
       case r of
         Inl l \<Rightarrow> op_return l
       | Inr None \<Rightarrow> op_fail ErrLayerUnknown
       | Inr (Some (layer, parentLayer, primary)) \<Rightarrow>
           if \<not> local \<or> \<not> primary then op_return layer
           else op_then (change (layer_access env)
                  (layer_create (se_driver env) now draws '''' parentLayer [] (ly_MountLabel layer)
                     (mapped_options (se_driver env) options layer) False NoContents)) (\<lambda>(mappedLayer, _).
                op_seq (op_cleanup (change (image_access env) (image_addMappedTopLayer (img_ID img) (ly_ID mappedLayer)))
                          (change (layer_access env) (deleteWhileHoldingLock (se_driver env) (ly_ID mappedLayer))))
                  (op_return mappedLayer))))"

section \<open>Containers\<close>

definition owned :: "'d layerStore \<Rightarrow> string \<Rightarrow> owned_layer option" where
  "owned s k = (case layer_Get s k of
     Inl _ \<Rightarrow> None
   | Inr l \<Rightarrow> Some \<lparr>ol_UIDs = map word_of_nat (ly_UIDs l), ol_GIDs = map word_of_nat (ly_GIDs l), ol_Parent = ly_Parent l\<rparr>)"

definition host_options :: LayerOptions where
  "host_options = \<lparr>lopt_TemplateLayer = '''', lopt_Volatile = False, lopt_BigData = [], lopt_Flags = Map.empty,
     lopt_HostUIDMapping = True, lopt_HostGIDMapping = True, lopt_UIDMap = [], lopt_GIDMap = []\<rparr>"

text \<open>
  \<open>getMaxSizeFromImage\<close>: the owners recorded in the layers, then the user files in a temporary layer on top
  of the image. A chain of parents that does not end is an error of its own.
\<close>

definition getMaxSizeFromImage :: "'d store_env \<Rightarrow> int \<Rightarrow> string list \<Rightarrow> Image \<Rightarrow> ('d store, 32 word) op" where
  "getMaxSizeFromImage env now draws img =
     guarded layers_locked
    (op_read (\<lambda>w. (image_size_walk (map owned (all_layers w)) (img_TopLayer img) 0, first_layer (all_layers w) (img_TopLayer img)))
      (\<lambda>(walk, topLayer).
         case walk of
           None \<Rightarrow> op_fail (Panic ''endless chain of layers'')
         | Some (Inl e) \<Rightarrow> op_fail e
         | Some (Inr recorded) \<Rightarrow>
             op_then (change (layer_access env)
                        (layer_create (se_driver env) now draws '''' topLayer [] '''' host_options False NoContents)) (\<lambda>(clayer, _).
             op_defer
               (op_then (change (layer_access env) (layer_Mount (se_driver env) (ly_ID clayer) [] '''' None)) (\<lambda>mountpoint.
                  op_defer (op_return (max recorded (parseMountedFiles (fst (se_etc env mountpoint)) (snd (se_etc env mountpoint)))))
                    (change (layer_access env) (unmount (se_driver env) (ly_ID clayer) True False))))
               (change (layer_access env) (deleteWhileHoldingLock (se_driver env) (ly_ID clayer))))))"

definition auto_userns ::
  "'d store_env \<Rightarrow> int \<Rightarrow> string list \<Rightarrow> auto_options \<Rightarrow> Image option \<Rightarrow> ('d store, IDMap list \<times> IDMap list) op" where
  "auto_userns env now draws options cimage =
     op_then (\<lambda>w. case getAvailableIDs (se_user env) (se_autoUsernsUser env) (st_ids w) of
                     Inl e \<Rightarrow> (Inl e, w) | Inr (ids, us, gs) \<Rightarrow> (Inr (us, gs), w\<lparr>st_ids := ids\<rparr>)) (\<lambda>available.
     op_then (readContainerStore env (query container_Containers)) (\<lambda>containers.
     op_then (case cimage of
                Some img \<Rightarrow> if opt_Size options = 0
                             then op_then (getMaxSizeFromImage env now draws img) (\<lambda>n. op_return (Some (Inr n)))
                             else op_return None
              | None \<Rightarrow> op_return None) (\<lambda>sizeFromImage.
     query_res (\<lambda>_. getAutoUserNS (se_autoNsMinSize env) (se_autoNsMaxSize env) options (Inr available)
                       (Inr (map (\<lambda>c. (ctr_UIDMap c, ctr_GIDMap c)) containers)) sizeFromImage))))"

record container_request =
  rq_options :: ContainerOptions
  rq_HostUIDMapping :: bool
  rq_HostGIDMapping :: bool
  rq_AutoUserNs :: bool
  rq_AutoUserNsOpts :: auto_options
  rq_LabelOpts :: "string list"

definition flag_text :: "(string \<rightharpoonup> flag_value) \<Rightarrow> string \<Rightarrow> string" where
  "flag_text flags key = (case flags key of Some (FlagString s) \<Rightarrow> s | _ \<Rightarrow> '''')"

text \<open>The labels of a container: those given among the flags, or new ones.\<close>

definition container_labels :: "'d store_env \<Rightarrow> string list \<Rightarrow> (string \<rightharpoonup> flag_value) \<Rightarrow> (string \<times> (string \<rightharpoonup> flag_value)) res" where
  "container_labels env labelOpts flags =
     (let plabel = flag_text flags ''ProcessLabel''; mlabel = flag_text flags ''MountLabel''
      in if plabel = '''' \<and> mlabel \<noteq> '''' \<or> plabel \<noteq> '''' \<and> mlabel = ''''
         then Inl (ErrFmt ''ProcessLabel and Mountlabel must either not be specified or both specified'')
         else if plabel \<noteq> '''' then Inr (mlabel, flags)
         else and_then (se_InitLabels env labelOpts) (\<lambda>(processLabel, mountLabel).
                Inr (mountLabel, flags(''ProcessLabel'' \<mapsto> FlagString processLabel, ''MountLabel'' \<mapsto> FlagString mountLabel))))"

text \<open>The mappings of a container: those of the request, or automatic ones.\<close>

definition requested_maps :: "container_request \<Rightarrow> IDMap list \<times> IDMap list" where
  "requested_maps rq =
     (if rq_HostUIDMapping rq then [] else copt_UIDMap (rq_options rq), if rq_HostGIDMapping rq then [] else copt_GIDMap (rq_options rq))"

definition container_maps ::
  "'d store_env \<Rightarrow> int \<Rightarrow> string list \<Rightarrow> container_request \<Rightarrow> Image option \<Rightarrow> ('d store, IDMap list \<times> IDMap list) op" where
  "container_maps env now draws rq cimage =
     (if rq_AutoUserNs rq then auto_userns env now draws (rq_AutoUserNsOpts rq) cimage else op_return (requested_maps rq))"

text \<open>
  The part of \<open>CreateContainer\<close> up to the layer of the container, with all layer stores locked when there is
  an image. \<open>draws\<close> has the random values of each creation. The result is the ID of the layer and the options
  for the record.
\<close>

definition container_layer ::
  "'d store_env \<Rightarrow> int \<Rightarrow> (nat \<Rightarrow> string list) \<Rightarrow> string \<Rightarrow> container_request \<Rightarrow> (Image \<times> bool) option \<Rightarrow> IDMap list \<times> IDMap list \<Rightarrow>
     ('d store, string \<times> ContainerOptions) op" where
  "container_layer env now draws layer rq cimage maps =
     (let us = fst maps; gs = snd maps
      in op_then (case cimage of
                    Some (img, local) \<Rightarrow>
                      if img_TopLayer img = '''' then op_return None
                      else op_then (imageTopLayerForMapping env now (draws 1) img local
                             \<lparr>im_HostUIDMapping = rq_HostUIDMapping rq, im_HostGIDMapping = rq_HostGIDMapping rq,
                              im_UIDMap = us, im_GIDMap = gs\<rparr>) (\<lambda>l. op_return (Some l))
                  | None \<Rightarrow> op_return None) (\<lambda>top.
         op_read (\<lambda>w. (st_uidMap w, st_gidMap w, st_transient w)) (\<lambda>(store_uids, store_gids, transient).
         let base_uids = (case cimage of None \<Rightarrow> store_uids | Some _ \<Rightarrow> (case top of Some l \<Rightarrow> ly_UIDMap l | None \<Rightarrow> us));
             base_gids = (case cimage of None \<Rightarrow> store_gids | Some _ \<Rightarrow> (case top of Some l \<Rightarrow> ly_GIDMap l | None \<Rightarrow> gs));
             uidMap = (if \<not> rq_HostUIDMapping rq \<and> us = [] then base_uids else us);
             gidMap = (if \<not> rq_HostGIDMapping rq \<and> gs = [] then base_gids else gs);
             host = rq_HostUIDMapping rq \<or> drv_SupportsShifting (se_driver env) uidMap gidMap;
             volatile = copt_Volatile (rq_options rq) \<or> transient;
             lopts = host_options\<lparr>lopt_Volatile := volatile, lopt_HostUIDMapping := host, lopt_HostGIDMapping := host,
                                  lopt_UIDMap := uidMap, lopt_GIDMap := gidMap\<rparr>
         in op_then (query_res (\<lambda>_. container_labels env (rq_LabelOpts rq) (copt_Flags (rq_options rq)))) (\<lambda>(mlabel, flags).
            op_then (change (layer_access env) (layer_create (se_driver env) now (draws 2) layer top [] mlabel lopts True NoContents)) (\<lambda>(clayer, _).
            op_return (ly_ID clayer,
              (rq_options rq)\<lparr>copt_UIDMap := us, copt_GIDMap := gs, copt_Flags := flags, copt_Volatile := volatile\<rparr>))))))"

text \<open>The record of the container; the layer is deleted again when it cannot be created.\<close>

definition container_record ::
  "'d store_env \<Rightarrow> int \<Rightarrow> string list \<Rightarrow> string \<Rightarrow> string list \<Rightarrow> string \<Rightarrow> string \<Rightarrow> ContainerOptions \<Rightarrow> ('d store, Container) op" where
  "container_record env now draws k names imageID layer options =
     op_cleanup (change (container_access env) (container_create (FromBytes (se_digests env)) now draws k names imageID layer options))
       (change (layer_access env) (deleteWhileHoldingLock (se_driver env) layer))"

definition container_sections ::
  "'d store_env \<Rightarrow> int \<Rightarrow> (nat \<Rightarrow> string list) \<Rightarrow> string \<Rightarrow> string list \<Rightarrow> string \<Rightarrow> container_request \<Rightarrow> (Image \<times> bool) option \<Rightarrow>
     IDMap list \<times> IDMap list \<Rightarrow> ('d store, Container) op" where
  "container_sections env now draws k names layer rq cimage maps =
     op_then (container_layer env now draws layer rq cimage maps) (\<lambda>(layerID, options).
       writeToContainerStore env (container_record env now (draws 3) k names
         (case cimage of None \<Rightarrow> '''' | Some (img, _) \<Rightarrow> img_ID img) layerID options))"

definition CreateContainer ::
  "'d store_env \<Rightarrow> int \<Rightarrow> (nat \<Rightarrow> string list) \<Rightarrow> string \<Rightarrow> string list \<Rightarrow> string \<Rightarrow> string \<Rightarrow> string \<Rightarrow> container_request \<Rightarrow>
     ('d store, Container) op" where
  "CreateContainer env now draws k names image_id layer metadata rq0 =
     (let rq = rq0\<lparr>rq_options := (rq_options rq0)\<lparr>copt_Metadata := metadata\<rparr>\<rparr>;
          found = (\<lambda>local img. op_then (container_maps env now (draws 0) rq (Some img))
                     (container_sections env now draws k names layer rq (Some (img, local))))
      in op_seq (bothLayerStoreKinds env)
        (with_userns (rq_AutoUserNs rq \<or> requested_maps rq \<noteq> ([], []))
          (if image_id = ''''
           then op_then (container_maps env now (draws 0) rq None) (\<lambda>maps.
                  writing (layer_access env) (container_sections env now draws k names layer rq None maps))
           else writing (layer_access env) (op_read ro_layers (\<lambda>is. reading_all (ro_layer_access env) is
                  (writing (image_access env)
                    (op_then (ask (image_access env) (query (\<lambda>s. image_Get s image_id))) (\<lambda>r.
                       case r of
                         Inr img \<Rightarrow> found True img
                       | Inl _ \<Rightarrow> op_read ro_images (\<lambda>is. locate_image env image_id is (\<lambda>_. found False)
                           (op_fail ErrImageUnknown))))))))))"

end
