(* ===== verification/Storage_Delete.thy ===== *)
theory Storage_Delete
  imports Storage_Create
begin

text \<open>
  \<open>storage/store.go\<close>: names, metadata, and the deletion of layers, images and containers. Each operation
  is a critical section, named \<open>_locked\<close>, under the locks it takes.
\<close>

section \<open>Names and metadata\<close>

definition SetMetadata_locked :: "'d store_env \<Rightarrow> string \<Rightarrow> string \<Rightarrow> ('d store, unit) op" where
  "SetMetadata_locked env k metadata =
     op_then (ask (layer_access env) (query (\<lambda>s. layer_Exists s k))) (\<lambda>isLayer.
     if isLayer then change (layer_access env) (layer_SetMetadata (se_driver env) k metadata)
     else op_then (ask (image_access env) (query (\<lambda>s. image_Exists s k))) (\<lambda>isImage.
     if isImage then change (image_access env) (image_SetMetadata k metadata)
     else op_then (ask (container_access env) (query (\<lambda>s. container_Exists s k))) (\<lambda>isContainer.
     if isContainer then change (container_access env) (container_SetMetadata k metadata)
     else op_fail ErrNotAnID)))"

definition SetMetadata :: "'d store_env \<Rightarrow> string \<Rightarrow> string \<Rightarrow> ('d store, unit) op" where
  "SetMetadata env k metadata = writeToAllStores env (SetMetadata_locked env k metadata)"

text \<open>
  \<open>updateNames\<close>: the first store that has the ID decides. An image in an additional store is copied into
  the image store first, under the ID the caller gave.
\<close>

definition layer_names :: "'d store_env \<Rightarrow> string \<Rightarrow> string list \<Rightarrow> updateNameOperation \<Rightarrow> ('d store, bool) op" where
  "layer_names env k deduped op =
     op_then (ask (layer_access env) (query (\<lambda>s. layer_Exists s k))) (\<lambda>isLayer.
       if \<not> isLayer then op_return False
       else op_seq (change (layer_access env) (layer_updateNames (se_driver env) k deduped op)) (op_return True))"

definition pull_up :: "'d store_env \<Rightarrow> int \<Rightarrow> string \<Rightarrow> string list \<Rightarrow> updateNameOperation \<Rightarrow> nat \<Rightarrow> Image \<Rightarrow> ('d store, unit) op" where
  "pull_up env now k deduped op i img =
     op_then (copy_big_data (ro_image_access env i) k (img_BigDataNames img)) (\<lambda>items.
     op_seq (change (image_access env) (image_create (se_digests env) now [] k (img_Names img) (img_TopLayer img)
        \<lparr>opt_Digest = img_Digest img, opt_Digests = img_Digests img, opt_Metadata = img_Metadata img,
         opt_CreationDate = img_Created img, opt_NamesHistory = img_NamesHistory img, opt_Flags = img_Flags img, opt_BigData = items\<rparr>))
     (change (image_access env) (image_updateNames k deduped op)))"

definition container_names :: "'d store_env \<Rightarrow> string \<Rightarrow> string list \<Rightarrow> updateNameOperation \<Rightarrow> ('d store, unit) op" where
  "container_names env k deduped op =
     op_then (ask (container_access env) (query (\<lambda>s. container_Exists s k))) (\<lambda>isContainer.
       if isContainer then change (container_access env) (container_updateNames k deduped op) else op_fail ErrLayerUnknown)"

definition image_names :: "'d store_env \<Rightarrow> int \<Rightarrow> string \<Rightarrow> string list \<Rightarrow> updateNameOperation \<Rightarrow> ('d store, unit) op" where
  "image_names env now k deduped op =
     op_then (ask (image_access env) (query (\<lambda>s. image_Exists s k))) (\<lambda>isImage.
       if isImage then change (image_access env) (image_updateNames k deduped op)
       else op_read ro_images (\<lambda>is. locate_image env k is (pull_up env now k deduped op)
              (writeToContainerStore env (container_names env k deduped op))))"

definition store_updateNames :: "'d store_env \<Rightarrow> int \<Rightarrow> string \<Rightarrow> string list \<Rightarrow> updateNameOperation \<Rightarrow> ('d store, unit) op" where
  "store_updateNames env now k names op =
     (let deduped = dedupeStrings names
      in op_then (writeToLayerStore env (layer_names env k deduped op)) (\<lambda>found.
           if found then op_return () else writing (image_access env) (image_names env now k deduped op)))"

section \<open>Layers\<close>

definition DeleteLayer_locked :: "'d store_env \<Rightarrow> string \<Rightarrow> ('d store, unit) op" where
  "DeleteLayer_locked env k =
     op_then (ask (layer_access env) (query (\<lambda>s. layer_Get s k))) (\<lambda>r.
     case r of
       Inl _ \<Rightarrow> op_fail ErrNotALayer
     | Inr l \<Rightarrow>
         let ident = ly_ID l
         in op_then (ask (layer_access env) (query layer_Layers)) (\<lambda>layers.
            if \<exists>c \<in> set layers. ly_Parent c = ident then op_fail ErrLayerHasChildren
            else op_then (ask (image_access env) (query image_Images)) (\<lambda>images.
            if \<exists>i \<in> set images. img_TopLayer i = ident then op_fail ErrLayerUsedByImage
            else op_then (ask (container_access env) (query container_Containers)) (\<lambda>containers.
            if \<exists>c \<in> set containers. ctr_LayerID c = ident then op_fail ErrLayerUsedByContainer
            else op_seq (change (layer_access env) (deferredDelete (se_driver env) ident))
                   (op_each (\<lambda>i. if ident \<in> set (img_MappedTopLayers i)
                                  then change (image_access env) (image_removeMappedTopLayer (img_ID i) ident)
                                  else op_return ()) images)))))"

definition DeleteLayer :: "'d store_env \<Rightarrow> string \<Rightarrow> ('d store, unit) op" where
  "DeleteLayer env k = and_cleanup (writeToAllStores env (DeleteLayer_locked env k))"

section \<open>Images\<close>

text \<open>
  The layers that go with an image: starting with its top layer, upwards as long as a layer is not used by a
  container, not a top layer of another image, and has no children other than those that go as well. The
  loop of the code need not end when the parents form a cycle.
\<close>

definition children :: "Layer list \<Rightarrow> string \<Rightarrow> string list" where
  "children layers k = map ly_ID (filter (\<lambda>l. ly_Parent l = k) layers)"

definition hasChildrenNotBeingRemoved :: "Layer list \<Rightarrow> Image \<Rightarrow> string list \<Rightarrow> string \<Rightarrow> bool" where
  "hasChildrenNotBeingRemoved layers img slated layer \<longleftrightarrow>
     (\<exists>k \<in> set (if layer = img_TopLayer img then layer # img_MappedTopLayers img else [layer]).
        \<exists>c \<in> set (children layers k). c \<notin> set slated)"

partial_function (option) removal_chain ::
  "(string \<Rightarrow> bool) \<Rightarrow> (string \<Rightarrow> string) \<Rightarrow> Layer list \<Rightarrow> Image \<Rightarrow> string list \<Rightarrow> string \<Rightarrow> string list option" where
  "removal_chain used parent_of layers img slated layer =
     (if layer = '''' \<or> used layer \<or> hasChildrenNotBeingRemoved layers img slated layer then Some slated
      else removal_chain used parent_of layers img (slated @ [layer]) (parent_of layer))"

definition other_top_layers :: "Image list \<Rightarrow> string \<Rightarrow> string list" where
  "other_top_layers images ident =
     concat (map (\<lambda>i. img_TopLayer i # img_MappedTopLayers i) (filter (\<lambda>i. img_ID i \<noteq> ident) images))"

definition parent_in :: "'d layerStore \<Rightarrow> string \<Rightarrow> string" where
  "parent_in s layer = (case layer_Get s layer of Inr l \<Rightarrow> ly_Parent l | Inl _ \<Rightarrow> '''')"

text \<open>One image store of the loop of \<open>deleteImage\<close>: what it returns are the layers that go.\<close>

definition delete_from ::
  "'d store_env \<Rightarrow> ('d store, imageStore) access \<Rightarrow> bool \<Rightarrow> Image \<Rightarrow> ('d store, string list) op" where
  "delete_from env a commit img =
     (let ident = img_ID img
      in op_then (ask (container_access env) (query container_Containers)) (\<lambda>containers.
         if \<exists>c \<in> set containers. ctr_ImageID c = ident then op_fail ErrImageUsedByContainer
         else op_then (ask a (query image_Images)) (\<lambda>images.
              op_then (ask (layer_access env) (query (\<lambda>s. s))) (\<lambda>ls.
              op_then (ask (container_access env) (query (\<lambda>s. s))) (\<lambda>cs.
              op_seq (if commit then change a (image_Delete ident) else op_return ())
                (case removal_chain (\<lambda>l. container_Exists cs l \<or> l \<in> set (other_top_layers images ident)) (parent_in ls)
                        (layer_Layers ls) img (img_MappedTopLayers img) (img_TopLayer img) of
                   None \<Rightarrow> op_fail (Panic ''endless chain of layers'')
                 | Some slated \<Rightarrow> op_return slated))))))"

definition delete_step ::
  "'d store_env \<Rightarrow> bool \<Rightarrow> ('d store, imageStore) access \<Rightarrow> string \<Rightarrow> bool \<times> string list \<times> int \<Rightarrow>
     (string \<Rightarrow> bool \<times> string list \<times> int \<Rightarrow> ('d store, 'a) op) \<Rightarrow> ('d store, 'a) op" where
  "delete_step env commit a k acc use =
     op_then (ask a (query (\<lambda>s. image_Get s k))) (\<lambda>r.
       case r of
         Inl _ \<Rightarrow> use k acc
       | Inr img \<Rightarrow>
           op_then (delete_from env a commit img) (\<lambda>slated.
             case acc of (_, layersToRemove, removedSize) \<Rightarrow>
               use (img_ID img) (True, layersToRemove @ slated,
                                 removedSize + (\<Sum>key \<in> dom (img_BigDataSizes img). the (img_BigDataSizes img key)))))"

text \<open>The additional stores are locked one after the other and stay locked.\<close>

fun delete_additional ::
  "'d store_env \<Rightarrow> bool \<Rightarrow> nat list \<Rightarrow> string \<Rightarrow> bool \<times> string list \<times> int \<Rightarrow>
     (bool \<times> string list \<times> int \<Rightarrow> ('d store, 'a) op) \<Rightarrow> ('d store, 'a) op" where
  "delete_additional env commit [] k acc use = use acc"
| "delete_additional env commit (i # is) k acc use =
     writing (ro_image_access env i)
       (delete_step env commit (ro_image_access env i) k acc (\<lambda>k' acc'. delete_additional env commit is k' acc' use))"

text \<open>\<open>DiffSize\<close> of the layer store, with the work left to the driver, and the size of a layer that goes.\<close>

definition layer_DiffSize :: "'d store_env \<Rightarrow> string \<Rightarrow> string \<Rightarrow> ('d layerStore, int) op" where
  "layer_DiffSize env from to =
     op_then (query_res (\<lambda>s. findParentAndLayer s from to)) (\<lambda>(fromID, toID, _, _). drive (se_DiffSize env toID fromID))"

definition layer_size :: "'d store_env \<Rightarrow> string \<Rightarrow> ('d layerStore, int) op" where
  "layer_size env layer =
     op_then (query_res (\<lambda>s. layer_Size s layer)) (\<lambda>n. if n = - 1 then layer_DiffSize env '''' layer else op_return n)"

fun layer_sizes :: "'d store_env \<Rightarrow> string list \<Rightarrow> ('d store, int) op" where
  "layer_sizes env [] = op_return 0"
| "layer_sizes env (l # ls) =
     op_then (ask (layer_access env) (layer_size env l)) (\<lambda>n. op_then (layer_sizes env ls) (\<lambda>m. op_return (n + m)))"

definition finish_deletion ::
  "'d store_env \<Rightarrow> bool \<Rightarrow> bool \<Rightarrow> bool \<times> string list \<times> int \<Rightarrow> ('d store, string list \<times> int) op" where
  "finish_deletion env commit withSize acc =
     (case acc of (imageFound, layersToRemove, removedSize) \<Rightarrow>
        if \<not> imageFound then op_fail ErrNotAnImage
        else op_then (if withSize then op_then (layer_sizes env layersToRemove) (\<lambda>n. op_return (removedSize + n)) else op_return 0) (\<lambda>total.
             op_seq (if commit then op_each (\<lambda>l. change (layer_access env) (deferredDelete (se_driver env) l)) layersToRemove else op_return ())
               (op_return (layersToRemove, total))))"

definition deleteImage_locked :: "'d store_env \<Rightarrow> string \<Rightarrow> bool \<Rightarrow> bool \<Rightarrow> ('d store, string list \<times> int) op" where
  "deleteImage_locked env k commit withSize =
     delete_step env commit (image_access env) k (False, [], 0) (\<lambda>k' acc.
       op_read st_rwImages (\<lambda>is. delete_additional env commit is k' acc (finish_deletion env commit withSize)))"

definition deleteImage :: "'d store_env \<Rightarrow> string \<Rightarrow> bool \<Rightarrow> bool \<Rightarrow> ('d store, string list \<times> int) op" where
  "deleteImage env k commit withSize = and_cleanup (writeToAllStores env (deleteImage_locked env k commit withSize))"

definition DeleteImage :: "'d store_env \<Rightarrow> string \<Rightarrow> bool \<Rightarrow> ('d store, string list) op" where
  "DeleteImage env k commit = op_then (deleteImage env k commit False) (\<lambda>(layers, _). op_return layers)"

section \<open>Containers\<close>

text \<open>The two directories of a container are removed at the same time; either may fail.\<close>

definition remove_directories :: "('d store, unit) op" where
  "remove_directories w =
     (case io_call w of (r1, w1) \<Rightarrow> (case io_call w1 of (r2, w2) \<Rightarrow> (case r1 of Inl e \<Rightarrow> (Inl e, w2) | Inr _ \<Rightarrow> (r2, w2))))"

definition DeleteContainer_locked :: "'d store_env \<Rightarrow> string \<Rightarrow> ('d store, unit) op" where
  "DeleteContainer_locked env k =
     op_then (ask (container_access env) (query (\<lambda>s. container_Get s k))) (\<lambda>r.
       case r of
         Inl _ \<Rightarrow> op_fail ErrNotAContainer
       | Inr c \<Rightarrow>
           op_then (ask (layer_access env) (query (\<lambda>s. layer_Exists s (ctr_LayerID c)))) (\<lambda>hasLayer.
           op_seq (if hasLayer then change (layer_access env) (deferredDelete (se_driver env) (ctr_LayerID c)) else op_return ())
          (op_seq remove_directories
          (change (container_access env) (container_Delete k)))))"

definition DeleteContainer :: "'d store_env \<Rightarrow> string \<Rightarrow> ('d store, unit) op" where
  "DeleteContainer env k = and_cleanup (writeToAllStores env (DeleteContainer_locked env k))"

text \<open>\<open>Delete\<close> performs no safety checks.\<close>

definition Delete_locked :: "'d store_env \<Rightarrow> string \<Rightarrow> ('d store, unit) op" where
  "Delete_locked env k =
     op_then (ask (container_access env) (query (\<lambda>s. container_Get s k))) (\<lambda>r.
       case r of
         Inr c \<Rightarrow>
           op_then (ask (layer_access env) (query (\<lambda>s. layer_Exists s (ctr_LayerID c)))) (\<lambda>hasLayer.
             if \<not> hasLayer then op_fail ErrNotALayer
             else op_seq (change (layer_access env) (deferredDelete (se_driver env) (ctr_LayerID c)))
                 (op_seq (change (container_access env) (container_Delete k))
                 (op_seq io_call io_call)))
       | Inl _ \<Rightarrow>
           op_then (ask (image_access env) (query (\<lambda>s. image_Exists s k))) (\<lambda>isImage.
           if isImage then change (image_access env) (image_Delete k)
           else op_then (ask (layer_access env) (query (\<lambda>s. layer_Exists s k))) (\<lambda>isLayer.
             if isLayer then change (layer_access env) (deferredDelete (se_driver env) k) else op_fail ErrLayerUnknown)))"

definition Delete :: "'d store_env \<Rightarrow> string \<Rightarrow> ('d store, unit) op" where
  "Delete env k = and_cleanup (writeToAllStores env (Delete_locked env k))"

text \<open>\<open>Wipe\<close>, with the IDs in the order the maps are iterated over.\<close>

definition store_Wipe :: "'d store_env \<Rightarrow> string list \<Rightarrow> string list \<Rightarrow> string list \<Rightarrow> ('d store, unit) op" where
  "store_Wipe env containers images layers =
     writeToAllStores env
       (op_seq (change (container_access env) (container_Wipe containers))
       (op_seq (change (image_access env) (image_Wipe images))
       (change (layer_access env) (layer_Wipe (se_driver env) layers))))"

text \<open>\<open>GarbageCollect\<close> goes on after an error and returns the first one. The arguments are what the directories have.\<close>

definition gc_op :: "('s \<Rightarrow> go_error option \<times> 's) \<Rightarrow> ('s, unit) op" where
  "gc_op f s = (case f s of (None, s1) \<Rightarrow> (Inr (), s1) | (Some e, s1) \<Rightarrow> (Inl e, s1))"

definition store_GarbageCollect ::
  "'d store_env \<Rightarrow> (string \<times> bool) list \<Rightarrow> (string \<times> bool) list \<Rightarrow> string list \<Rightarrow> ('d store, unit) op" where
  "store_GarbageCollect env centries ientries lentries =
     op_defer (op_defer
       (writeToContainerStore env (change (container_access env) (gc_op (container_GarbageCollect centries))))
       (writeToImageStore env (change (image_access env) (gc_op (image_GarbageCollect ientries)))))
       (writeToLayerStore env (change (layer_access env) (layer_GarbageCollect (se_driver env) lentries)))"

end
