(* ===== verification/Storage_Read.thy ===== *)
theory Storage_Read
  imports Storage_Delete
begin

text \<open>
  \<open>storage/store.go\<close>: queries, data items, mounting and \<open>Shutdown\<close>. A callback that finds nothing in one store
  goes on with the next; the first store that has an item decides.
\<close>

section \<open>Looking up across stores\<close>

text \<open>A callback that is done when the store knows the item.\<close>

definition if_known :: "('s \<Rightarrow> 'a res) \<Rightarrow> unit \<Rightarrow> ('s, unit + 'a) op" where
  "if_known f _ s = (case f s of Inr x \<Rightarrow> (Inr (Inr x), s) | Inl _ \<Rightarrow> (Inr (Inl ()), s))"

text \<open>A callback that is done, with a result or an error, when the item exists.\<close>

definition if_exists :: "('s \<Rightarrow> bool) \<Rightarrow> ('s, 'a) op \<Rightarrow> unit \<Rightarrow> ('s, unit + 'a) op" where
  "if_exists known m _ =
     op_read known (\<lambda>b. if b then op_then m (\<lambda>x. op_return (Inr x)) else op_return (Inl ()))"

text \<open>The next stores are asked when the first ones have no result.\<close>

definition or_else :: "('w, unit + 'a) op \<Rightarrow> ('w, 'a) op \<Rightarrow> ('w, 'a) op" where
  "or_else m n = op_then m (\<lambda>r. case r of Inr x \<Rightarrow> op_return x | Inl _ \<Rightarrow> n)"

definition in_containers :: "'d store_env \<Rightarrow> (unit \<Rightarrow> (containerStore, unit + 'a) op) \<Rightarrow> ('d store, unit + 'a) op" where
  "in_containers env fn = readContainerStore env (fn ())"

definition Lookup :: "'d store_env \<Rightarrow> string \<Rightarrow> ('d store, string) op" where
  "Lookup env name =
     or_else (readAllLayerStores env (if_known (\<lambda>s. and_then (layer_Get s name) (\<lambda>l. Inr (ly_ID l)))) ())
    (or_else (readAllImageStores env (if_known (\<lambda>s. and_then (image_Get s name) (\<lambda>i. Inr (img_ID i)))) ())
    (or_else (in_containers env (if_known (\<lambda>s. and_then (container_Get s name) (\<lambda>c. Inr (ctr_ID c)))))
    (op_fail ErrLayerUnknown)))"

definition Names :: "'d store_env \<Rightarrow> string \<Rightarrow> ('d store, string list) op" where
  "Names env k =
     or_else (readAllLayerStores env (if_known (\<lambda>s. and_then (layer_Get s k) (\<lambda>l. Inr (ly_Names l)))) ())
    (or_else (readAllImageStores env (if_known (\<lambda>s. and_then (image_Get s k) (\<lambda>i. Inr (img_Names i)))) ())
    (or_else (in_containers env (if_known (\<lambda>s. and_then (container_Get s k) (\<lambda>c. Inr (ctr_Names c)))))
    (op_fail ErrLayerUnknown)))"

definition Metadata :: "'d store_env \<Rightarrow> string \<Rightarrow> ('d store, string) op" where
  "Metadata env k =
     or_else (readAllLayerStores env (if_exists (\<lambda>s. layer_Exists s k) (query_res (\<lambda>s. layer_GetMetadata s k))) ())
    (or_else (readAllImageStores env (if_exists (\<lambda>s. image_Exists s k) (query_res (\<lambda>s. image_GetMetadata s k))) ())
    (or_else (in_containers env (if_exists (\<lambda>s. container_Exists s k) (query_res (\<lambda>s. container_GetMetadata s k))))
    (op_fail ErrNotAnID)))"

text \<open>\<open>Exists\<close>: an error of any store counts as no.\<close>

definition store_Exists :: "'d store_env \<Rightarrow> string \<Rightarrow> ('d store, bool) op" where
  "store_Exists env k w =
     (case or_else (readAllLayerStores env (if_exists (\<lambda>s. layer_Exists s k) (op_return True)) ())
          (or_else (readAllImageStores env (if_exists (\<lambda>s. image_Exists s k) (op_return True)) ())
          (readContainerStore env (query (\<lambda>s. container_Exists s k)))) w of
        (Inr b, w1) \<Rightarrow> (Inr b, w1)
      | (Inl _, w1) \<Rightarrow> (Inr False, w1))"

definition store_Layer :: "'d store_env \<Rightarrow> string \<Rightarrow> ('d store, Layer) op" where
  "store_Layer env k = or_else (readAllLayerStores env (if_known (\<lambda>s. layer_Get s k)) ()) (op_fail ErrLayerUnknown)"

definition LayerSize :: "'d store_env \<Rightarrow> string \<Rightarrow> ('d store, int) op" where
  "LayerSize env k =
     or_else (readAllLayerStores env (if_exists (\<lambda>s. layer_Exists s k) (query_res (\<lambda>s. layer_Size s k))) ()) (op_fail ErrLayerUnknown)"

definition store_DiffSize :: "'d store_env \<Rightarrow> string \<Rightarrow> string \<Rightarrow> ('d store, int) op" where
  "store_DiffSize env from to =
     or_else (readAllLayerStores env (if_exists (\<lambda>s. layer_Exists s to) (layer_DiffSize env from to)) ()) (op_fail ErrLayerUnknown)"

text \<open>
  \<open>Image\<close>: an image of an additional store is hidden by a record with its ID in the image store, which
  may have lost the name.
\<close>

fun read_images :: "'d store_env \<Rightarrow> string \<Rightarrow> nat list \<Rightarrow> ('d store, Image) op" where
  "read_images env k [] = op_fail ErrImageUnknown"
| "read_images env k (i # is) =
     reading (ro_image_access env i)
       (op_then (ask (ro_image_access env i) (query (\<lambda>s. image_Get s k))) (\<lambda>r.
          case r of
            Inl _ \<Rightarrow> read_images env k is
          | Inr img \<Rightarrow>
              op_then (ask (image_access env) (query (\<lambda>s. image_Exists s (img_ID img)))) (\<lambda>hidden.
                if hidden then read_images env k is else op_return img)))"

definition store_Image :: "'d store_env \<Rightarrow> string \<Rightarrow> ('d store, Image) op" where
  "store_Image env k =
     reading (image_access env)
       (op_then (ask (image_access env) (query (\<lambda>s. image_Get s k))) (\<lambda>r.
          case r of Inr img \<Rightarrow> op_return img | Inl _ \<Rightarrow> op_read ro_images (read_images env k)))"

definition store_Container :: "'d store_env \<Rightarrow> string \<Rightarrow> ('d store, Container) op" where
  "store_Container env k = readContainerStore env (query_res (\<lambda>s. container_Get s k))"

definition ContainerLayerID :: "'d store_env \<Rightarrow> string \<Rightarrow> ('d store, string) op" where
  "ContainerLayerID env k = op_then (store_Container env k) (\<lambda>c. op_return (ctr_LayerID c))"

section \<open>Lists\<close>

definition collect :: "('s \<Rightarrow> 'a list res) \<Rightarrow> 'a list \<Rightarrow> ('s, 'a list + unit) op" where
  "collect f found s = (case f s of Inr xs \<Rightarrow> (Inr (Inl (found @ xs)), s) | Inl e \<Rightarrow> (Inl e, s))"

definition collected :: "('w, 'a list + unit) op \<Rightarrow> ('w, 'a list) op" where
  "collected m = op_then m (\<lambda>r. case r of Inl xs \<Rightarrow> op_return xs | Inr _ \<Rightarrow> op_return [])"

definition store_Layers :: "'d store_env \<Rightarrow> ('d store, Layer list) op" where
  "store_Layers env = collected (readAllLayerStores env (collect (\<lambda>s. Inr (layer_Layers s))) [])"

definition store_Images :: "'d store_env \<Rightarrow> ('d store, Image list) op" where
  "store_Images env = collected (readAllImageStores env (collect (\<lambda>s. Inr (image_Images s))) [])"

definition store_Containers :: "'d store_env \<Rightarrow> ('d store, Container list) op" where
  "store_Containers env = readContainerStore env (query container_Containers)"

definition layersByMappedDigest :: "'d store_env \<Rightarrow> ('d layerStore \<Rightarrow> string \<Rightarrow> Layer list res) \<Rightarrow> string \<Rightarrow> ('d store, Layer list) op" where
  "layersByMappedDigest env m d =
     op_then (collected (readAllLayerStores env
                (collect (\<lambda>s. case m s d of Inr ls \<Rightarrow> Inr ls | Inl e \<Rightarrow> if e = ErrLayerUnknown then Inr [] else Inl e)) [])) (\<lambda>layers.
       if layers = [] then op_fail ErrLayerUnknown else op_return layers)"

definition valid_digest :: "'d store_env \<Rightarrow> string \<Rightarrow> ('d store, 'a) op \<Rightarrow> ('d store, 'a) op" where
  "valid_digest env d m = (if Validate (se_digests env) d then m else op_fail (ErrFmt ''invalid digest''))"

definition store_LayersByCompressedDigest :: "'d store_env \<Rightarrow> string \<Rightarrow> ('d store, Layer list) op" where
  "store_LayersByCompressedDigest env d = valid_digest env d (layersByMappedDigest env LayersByCompressedDigest d)"

definition store_LayersByUncompressedDigest :: "'d store_env \<Rightarrow> string \<Rightarrow> ('d store, Layer list) op" where
  "store_LayersByUncompressedDigest env d = valid_digest env d (layersByMappedDigest env LayersByUncompressedDigest d)"

definition store_LayersByTOCDigest :: "'d store_env \<Rightarrow> string \<Rightarrow> ('d store, Layer list) op" where
  "store_LayersByTOCDigest env d = valid_digest env d (layersByMappedDigest env LayersByTOCDigest d)"

definition ImagesByTopLayer :: "'d store_env \<Rightarrow> string \<Rightarrow> ('d store, Image list) op" where
  "ImagesByTopLayer env k =
     op_then (store_Layer env k) (\<lambda>l.
       collected (readAllImageStores env (collect (\<lambda>s.
         Inr (filter (\<lambda>i. img_TopLayer i = ly_ID l \<or> ly_ID l \<in> set (img_MappedTopLayers i)) (image_Images s)))) []))"

definition ImagesByDigest :: "'d store_env \<Rightarrow> string \<Rightarrow> ('d store, Image list) op" where
  "ImagesByDigest env d =
     collected (readAllImageStores env (collect (\<lambda>s.
       case image_ByDigest s d of Inr is \<Rightarrow> Inr is | Inl e \<Rightarrow> if e = ErrImageUnknown then Inr [] else Inl e)) [])"

definition ContainerByLayer :: "'d store_env \<Rightarrow> string \<Rightarrow> ('d store, Container) op" where
  "ContainerByLayer env k =
     op_then (store_Layer env k) (\<lambda>l. op_then (store_Containers env) (\<lambda>cs.
       case find (\<lambda>c. ctr_LayerID c = ly_ID l) cs of Some c \<Rightarrow> op_return c | None \<Rightarrow> op_fail ErrContainerUnknown))"

section \<open>Data items\<close>

definition ListImageBigData :: "'d store_env \<Rightarrow> string \<Rightarrow> ('d store, string list) op" where
  "ListImageBigData env k = or_else (readAllImageStores env (if_known (\<lambda>s. image_GetBigDataNames s k)) ()) (op_fail ErrImageUnknown)"

text \<open>A callback that runs an operation and is done when it succeeds.\<close>

definition if_succeeds :: "('s, 'a) op \<Rightarrow> unit \<Rightarrow> ('s, unit + 'a) op" where
  "if_succeeds m _ s = (case m s of (Inr x, s1) \<Rightarrow> (Inr (Inr x), s1) | (Inl _, s1) \<Rightarrow> (Inr (Inl ()), s1))"

definition ImageBigDataSize :: "'d store_env \<Rightarrow> string \<Rightarrow> string \<Rightarrow> ('d store, int) op" where
  "ImageBigDataSize env k key = or_else (readAllImageStores env (if_succeeds (image_BigDataSize k key)) ()) (op_fail ErrSizeUnknown)"

definition ImageBigDataDigest :: "'d store_env \<Rightarrow> string \<Rightarrow> string \<Rightarrow> ('d store, string) op" where
  "ImageBigDataDigest env k key =
     or_else (readAllImageStores env (if_known (\<lambda>s. and_then (image_BigDataDigest s k key) (\<lambda>d.
                if Validate (se_digests env) d then Inr d else Inl ErrDigestUnknown))) ()) (op_fail ErrDigestUnknown)"

text \<open>\<open>ImageBigData\<close> and \<open>LayerBigData\<close> remember whether a store has the image or layer at all.\<close>

definition item_or_owner :: "('s, 'a) op \<Rightarrow> ('s \<Rightarrow> bool) \<Rightarrow> bool \<Rightarrow> ('s, bool + 'a) op" where
  "item_or_owner m known found s =
     (case m s of (Inr x, s1) \<Rightarrow> (Inr (Inr x), s1) | (Inl _, s1) \<Rightarrow> (Inr (Inl (found \<or> known s1)), s1))"

definition or_missing :: "go_error \<Rightarrow> ('w, bool + 'a) op \<Rightarrow> ('w, 'a) op" where
  "or_missing unknown m =
     op_then m (\<lambda>r. case r of Inr x \<Rightarrow> op_return x | Inl found \<Rightarrow> op_fail (if found then ErrNotExist else unknown))"

definition ImageBigData :: "'d store_env \<Rightarrow> string \<Rightarrow> string \<Rightarrow> ('d store, string) op" where
  "ImageBigData env k key =
     or_missing ErrImageUnknown (readAllImageStores env (item_or_owner (image_BigData k key) (\<lambda>s. image_Exists s k)) False)"

definition ListLayerBigData :: "'d store_env \<Rightarrow> string \<Rightarrow> ('d store, string list) op" where
  "ListLayerBigData env k =
     or_missing ErrLayerUnknown
       (readAllLayerStores env (item_or_owner (query_res (\<lambda>s. layer_GetBigDataNames s k)) (\<lambda>s. layer_Exists s k)) False)"

definition LayerBigData :: "'d store_env \<Rightarrow> string \<Rightarrow> string \<Rightarrow> ('d store, string) op" where
  "LayerBigData env k key =
     or_missing ErrLayerUnknown (readAllLayerStores env (item_or_owner (layer_BigData k key) (\<lambda>s. layer_Exists s k)) False)"

definition SetLayerBigData :: "'d store_env \<Rightarrow> string \<Rightarrow> string \<Rightarrow> string \<Rightarrow> ('d store, unit) op" where
  "SetLayerBigData env k key data = writeToLayerStore env (change (layer_access env) (layer_SetBigData (se_driver env) k key data))"

definition SetImageBigData ::
  "'d store_env \<Rightarrow> string \<Rightarrow> string \<Rightarrow> string \<Rightarrow> (string \<Rightarrow> string res) option \<Rightarrow> ('d store, unit) op" where
  "SetImageBigData env k key data digestManifest =
     writeToImageStore env (change (image_access env) (image_SetBigData (se_digests env) k key data digestManifest))"

definition ListContainerBigData :: "'d store_env \<Rightarrow> string \<Rightarrow> ('d store, string list) op" where
  "ListContainerBigData env k = readContainerStore env (query_res (\<lambda>s. container_GetBigDataNames s k))"

definition ContainerBigDataSize :: "'d store_env \<Rightarrow> string \<Rightarrow> string \<Rightarrow> ('d store, int) op" where
  "ContainerBigDataSize env k key =
     writeToContainerStore env (change (container_access env) (container_BigDataSize (FromBytes (se_digests env)) k key))"

definition ContainerBigDataDigest :: "'d store_env \<Rightarrow> string \<Rightarrow> string \<Rightarrow> ('d store, string) op" where
  "ContainerBigDataDigest env k key =
     writeToContainerStore env (change (container_access env) (container_BigDataDigest (FromBytes (se_digests env)) k key))"

definition ContainerBigData :: "'d store_env \<Rightarrow> string \<Rightarrow> string \<Rightarrow> ('d store, string) op" where
  "ContainerBigData env k key = readContainerStore env (container_BigData k key)"

definition SetContainerBigData :: "'d store_env \<Rightarrow> string \<Rightarrow> string \<Rightarrow> string \<Rightarrow> ('d store, unit) op" where
  "SetContainerBigData env k key data =
     writeToContainerStore env (change (container_access env) (container_SetBigData (FromBytes (se_digests env)) k key data))"

section \<open>Directories\<close>

text \<open>
  \<open>ImageDirectory\<close>: the callback creates the directory and is done, in the first store, whether that store
  has the image or not; the errors after the loop are never returned. \<open>ImageRunDirectory\<close> is the same.
\<close>

definition ImageDirectory :: "'d store_env \<Rightarrow> string \<Rightarrow> string \<Rightarrow> ('d store, string) op" where
  "ImageDirectory env root k =
     or_missing ErrImageUnknown (readAllImageStores env (\<lambda>found.
       op_seq io_call (op_return (Inr (root @ ''/'' @ k @ ''/userdata'')))) False)"

definition ContainerDirectory :: "'d store_env \<Rightarrow> string \<Rightarrow> string \<Rightarrow> ('d store, string) op" where
  "ContainerDirectory env root k =
     readContainerStore env (op_then (query_res (\<lambda>s. container_Lookup s k)) (\<lambda>ident.
       op_seq io_call (op_return (root @ ''/'' @ ident @ ''/userdata''))))"

section \<open>Mounting\<close>

definition Mount_locked :: "'d store_env \<Rightarrow> string \<Rightarrow> string list \<Rightarrow> string \<Rightarrow> (IDMap list \<times> IDMap list) option \<Rightarrow> ('d store, string) op" where
  "Mount_locked env k options mountLabel maps =
     op_then (ask (layer_access env) (query (\<lambda>s. layer_Exists s k))) (\<lambda>known.
       if known then change (layer_access env) (layer_Mount (se_driver env) k options mountLabel maps)
       else op_then (op_read ro_layers (\<lambda>is. op_each (\<lambda>i.
              op_then (reading (ro_layer_access env i) (ask (ro_layer_access env i) (query (\<lambda>s. layer_Exists s k)))) (\<lambda>b.
                if b then op_fail ErrStoreIsReadOnly else op_return ())) is)) (\<lambda>_. op_fail ErrLayerUnknown))"

definition store_Mount :: "'d store_env \<Rightarrow> string \<Rightarrow> string \<Rightarrow> ('d store, string) op" where
  "store_Mount env k mountLabel w =
     (let (r, w1) = store_Container env k w;
          (layer, options, maps) = (case r of
             Inr c \<Rightarrow> (ctr_LayerID c, ctr_MountOpts c, if ctr_UIDMap c = [] \<and> ctr_GIDMap c = [] then None else Some (ctr_UIDMap c, ctr_GIDMap c))
           | Inl _ \<Rightarrow> (k, [], None))
      in usingGraphDriver env (op_seq (bothLayerStoreKindsLocked env)
           (writing (layer_access env) (Mount_locked env layer options mountLabel maps))) w1)"

definition validateMountOptions :: "string list \<Rightarrow> bool" where
  "validateMountOptions options \<longleftrightarrow> ''rw'' \<notin> set options"

definition MountImage_locked ::
  "'d store_env \<Rightarrow> int \<Rightarrow> string list \<Rightarrow> string list \<Rightarrow> string \<Rightarrow> bool \<Rightarrow> Image \<Rightarrow> ('d store, string) op" where
  "MountImage_locked env now draws mountOpts mountLabel local img =
     op_then (imageTopLayerForMapping env now draws img local
                \<lparr>im_HostUIDMapping = True, im_HostGIDMapping = True, im_UIDMap = [], im_GIDMap = []\<rparr>) (\<lambda>l.
       if ly_UIDMap l \<noteq> [] \<or> ly_GIDMap l \<noteq> [] then op_fail (ErrFmt ''cannot create an image with canonical UID/GID mappings in a read-only store'')
       else change (layer_access env) (layer_Mount (se_driver env) (ly_ID l) (mountOpts @ [''ro'']) mountLabel None))"

definition MountImage ::
  "'d store_env \<Rightarrow> int \<Rightarrow> string list \<Rightarrow> string \<Rightarrow> string list \<Rightarrow> string \<Rightarrow> ('d store, string) op" where
  "MountImage env now draws k mountOpts mountLabel =
     (if \<not> validateMountOptions mountOpts then op_fail (ErrFmt ''option not supported'')
      else usingGraphDriver env (op_seq (bothLayerStoreKindsLocked env)
        (writing (layer_access env) (op_read ro_layers (\<lambda>is. reading_all (ro_layer_access env) is
          (writing (image_access env)
            (op_then (ask (image_access env) (query (\<lambda>s. image_Get s k))) (\<lambda>r.
               case r of
                 Inr img \<Rightarrow> MountImage_locked env now draws mountOpts mountLabel True img
               | Inl _ \<Rightarrow> op_read ro_images (\<lambda>is. locate_image env k is
                   (\<lambda>_. MountImage_locked env now draws mountOpts mountLabel False) (op_fail ErrImageUnknown))))))))))"

text \<open>\<open>if layerID, err := s.ContainerLayerID(id); err == nil\<close>\<close>

definition layer_of :: "'d store_env \<Rightarrow> string \<Rightarrow> ('d store, string) op" where
  "layer_of env k w = (case ContainerLayerID env k w of (Inr l, w1) \<Rightarrow> (Inr l, w1) | (Inl _, w1) \<Rightarrow> (Inr k, w1))"

definition store_Mounted :: "'d store_env \<Rightarrow> string \<Rightarrow> ('d store, int) op" where
  "store_Mounted env k =
     op_then (layer_of env k) (\<lambda>l. readPrimaryLayerStore env (ask (layer_access env) (query_res (\<lambda>s. layer_Mounted s l))))"

definition Unmount :: "'d store_env \<Rightarrow> string \<Rightarrow> bool \<Rightarrow> ('d store, bool) op" where
  "Unmount env k force =
     op_then (layer_of env k) (\<lambda>l. writeToLayerStore env
       (op_then (ask (layer_access env) (query (\<lambda>s. layer_Exists s l))) (\<lambda>known.
          if known then change (layer_access env) (unmount (se_driver env) l force False) else op_fail ErrLayerUnknown)))"

text \<open>\<open>UnmountImage\<close>: the mapped top layer without mappings, or else the top layer.\<close>

definition unmount_target :: "'d layerStore \<Rightarrow> Image \<Rightarrow> string" where
  "unmount_target s img =
     (case find (\<lambda>l. ly_UIDMap l = [] \<and> ly_GIDMap l = [])
             (concat (map (\<lambda>k. case layer_Get s k of Inr l \<Rightarrow> [l] | Inl _ \<Rightarrow> []) (img_MappedTopLayers img))) of
        Some l \<Rightarrow> ly_ID l
      | None \<Rightarrow> img_TopLayer img)"

definition UnmountImage :: "'d store_env \<Rightarrow> string \<Rightarrow> bool \<Rightarrow> ('d store, bool) op" where
  "UnmountImage env k force =
     op_then (store_Image env k) (\<lambda>img. writeToLayerStore env
       (op_then (ask (layer_access env) (query (\<lambda>s. unmount_target s img))) (\<lambda>l.
          change (layer_access env) (unmount (se_driver env) l force False))))"

section \<open>Shutting down\<close>

text \<open>
  \<open>Shutdown\<close>: the layers that are mounted, and with \<open>force\<close> every one of them is unmounted. The loop has the
  bound of the one of \<open>deferredDelete\<close>.
\<close>

fun force_unmount :: "'d Driver \<Rightarrow> nat \<Rightarrow> string \<Rightarrow> ('d layerStore, unit) op" where
  "force_unmount drv 0 ident = op_fail (Panic ''out of turns'')"
| "force_unmount drv (Suc n) ident =
     (\<lambda>s. case unmount drv ident True True s of
            (Inl e, s1) \<Rightarrow> if e = ErrLayerNotMounted then (Inr (), s1) else (Inl e, s1)
          | (Inr _, s1) \<Rightarrow> force_unmount drv n ident s1)"

fun shutdown_layers :: "'d Driver \<Rightarrow> bool \<Rightarrow> Layer list \<Rightarrow> go_error option \<Rightarrow> 'd layerStore \<Rightarrow> (string list \<times> go_error option) \<times> 'd layerStore" where
  "shutdown_layers drv force [] err s = (([], err), s)"
| "shutdown_layers drv force (l # ls) err s =
     (if ly_MountCount l = 0 then shutdown_layers drv force ls err s
      else let (err1, s1) = (if \<not> force then (err, s)
                             else case force_unmount drv 3 (ly_ID l) s of
                                    (Inl e, s1) \<Rightarrow> (if err = None then Some e else err, s1)
                                  | (Inr _, s1) \<Rightarrow> (err, s1))
           in case shutdown_layers drv force ls err1 s1 of ((ms, err2), s2) \<Rightarrow> ((ly_ID l # ms, err2), s2))"

definition Shutdown :: "'d store_env \<Rightarrow> bool \<Rightarrow> ('d store, string list \<times> go_error option) op" where
  "Shutdown env force =
     usingGraphDriver env (op_seq (getLayerStoreLocked env) (writing (layer_access env)
       (op_then (change (layer_access env) (\<lambda>s. case shutdown_layers (se_driver env) force (layer_Layers s) None s of (x, s1) \<Rightarrow> (Inr x, s1)))
         (\<lambda>(ms, err).
            if err \<noteq> None then op_return (ms, err)
            else if ms \<noteq> [] then op_return (ms, Some ErrLayerUsedByContainer)
            else (\<lambda>w. case op_seq RecordWrite (zoom (layer_access env) (locked_call (drive (se_Cleanup env)))) w of
                         (Inl e, w1) \<Rightarrow> (Inr (ms, Some e), w1) | (Inr _, w1) \<Rightarrow> (Inr (ms, None), w1))))))"

end
