(* ===== verification/Storage_Locking.thy ===== *)
theory Storage_Locking
  imports Storage_Read
begin

text \<open>
  Every operation of \<open>storage/store.go\<close> takes its locks in the documented order, calls the methods of a store
  only with the lock they require, and releases what it took on every path. The proof follows the
  operations: \<open>keeps_locks\<close> has a rule for each way of composing them, collected in \<open>lock_intros\<close>.
\<close>

named_theorems lock_intros

section \<open>Views of the locks\<close>

definition set_mode :: "part \<Rightarrow> lock_mode \<times> lock_mode \<Rightarrow> lock_view \<Rightarrow> lock_view" where
  "set_mode p m v = (case v of (f, b, nl, ni) \<Rightarrow> (f(p := m), b, nl, ni))"

text \<open>An operation that starts with these locks ends with them; \<open>P\<close> restricts the number of open additional layer stores.\<close>

definition keeps_locks :: "(nat \<Rightarrow> bool) \<Rightarrow> lock_view \<Rightarrow> ('d store, 'a) op \<Rightarrow> bool" where
  "keeps_locks P v m \<longleftrightarrow> preserves (\<lambda>w. lock_view w = v \<and> P (st_roLayersOpen w)) m"

lemma set_mode_simps [simp]:
  "fst (set_mode p m v) q = (if q = p then m else fst v q)"
  "parts (set_mode p m v) = parts v"
  "fst v p = m \<Longrightarrow> set_mode p m v = v"
  "set_mode p m (set_mode p m' v) = set_mode p m v"
  by (cases v; auto simp: set_mode_def parts_def)+

lemma set_mode_swap: "p \<noteq> q \<Longrightarrow> set_mode p m (set_mode q m' v) = set_mode q m' (set_mode p m v)"
  by (cases v) (simp add: set_mode_def fun_upd_twist)

lemma may_take_unlocked: "may_take v p \<Longrightarrow> p \<in> set (parts v) \<Longrightarrow> fst v p = (Unlocked, Unlocked)"
  by (simp add: may_take_def)

lemma may_take_later: "may_take v p \<Longrightarrow> p \<le> q \<Longrightarrow> may_take v q"
  unfolding may_take_def using order_trans by blast

lemma may_take_above: "may_take v p \<Longrightarrow> p < q \<Longrightarrow> may_take (set_mode p m v) q"
  unfolding may_take_def by auto

lemma part_less [simp]:
  "GraphLock < UsernsLock" "GraphLock < LayerStore" "UsernsLock < LayerStore" "LayerStore < ROLayerStore i" "LayerStore < ImageStore"
  "LayerStore < ContainerStore" "ROLayerStore i < ImageStore" "ROLayerStore i < ContainerStore" "ImageStore < ROImageStore i"
  "ImageStore < ContainerStore" "ROImageStore i < ContainerStore" "GraphLock < ROLayerStore i" "LayerStore < ROImageStore i"
  "ROLayerStore i < ROLayerStore j \<longleftrightarrow> i < j" "ROImageStore i < ROImageStore j \<longleftrightarrow> i < j" "UsernsLock < ContainerStore" "ROLayerStore i < ROImageStore j" "UsernsLock < ROLayerStore i" "UsernsLock < ImageStore"
  "UsernsLock < ROImageStore i" "GraphLock < ImageStore" "GraphLock < ROImageStore i" "GraphLock < ContainerStore"
  by (auto simp: less_part_def less_eq_part_def)

section \<open>Rules\<close>

lemma preserves_finally: "preserves I m \<Longrightarrow> preserves I n \<Longrightarrow> preserves I (op_finally m n)"
  by (simp add: preserves_def op_finally_def split: prod.split) (metis snd_conv)

lemma preserves_defer: "preserves I m \<Longrightarrow> preserves I n \<Longrightarrow> preserves I (op_defer m n)"
  unfolding preserves_def
proof (intro allI impI)
  fix s
  assume m: "\<forall>s. I s \<longrightarrow> I (snd (m s))" and n: "\<forall>s. I s \<longrightarrow> I (snd (n s))" and "I s"
  obtain r s1 r2 s2 where run: "m s = (r, s1)" "n s1 = (r2, s2)" by (metis prod.exhaust)
  then have "I s2" using m n \<open>I s\<close> by (metis snd_conv)
  then show "I (snd (op_defer m n s))" using run by (cases r; cases r2) (simp_all add: op_defer_def)
qed

lemma preserves_guarded: "(\<And>w. I w \<Longrightarrow> ok w) \<Longrightarrow> preserves I m \<Longrightarrow> preserves I (guarded ok m)"
  by (simp add: preserves_def guarded_def)

lemma keeps_return [lock_intros]: "keeps_locks P v (op_return x)"
  and keeps_fail [lock_intros]: "keeps_locks P v (op_fail e)"
  and keeps_query_res [lock_intros]: "keeps_locks P v (query_res f)"
  by (simp_all add: keeps_locks_def preserves_def op_return_def op_fail_def query_res_def)

lemma keeps_then [lock_intros]: "keeps_locks P v m \<Longrightarrow> (\<And>x. keeps_locks P v (f x)) \<Longrightarrow> keeps_locks P v (op_then m f)"
  unfolding keeps_locks_def by (rule preserves_then)

lemma keeps_seq [lock_intros]: "keeps_locks P v m \<Longrightarrow> keeps_locks P v n \<Longrightarrow> keeps_locks P v (op_seq m n)"
  unfolding keeps_locks_def by (rule preserves_seq)

lemma keeps_read [lock_intros]: "(\<And>x. keeps_locks P v (f x)) \<Longrightarrow> keeps_locks P v (op_read g f)"
  unfolding keeps_locks_def by (rule preserves_read)

lemma keeps_update: "(\<And>w. lock_view (f w) = lock_view w) \<Longrightarrow> (\<And>w. st_roLayersOpen (f w) = st_roLayersOpen w) \<Longrightarrow> keeps_locks P v (op_update f)"
  unfolding keeps_locks_def by (simp add: preserves_def op_update_def)

lemma keeps_cleanup [lock_intros]: "keeps_locks P v m \<Longrightarrow> keeps_locks P v n \<Longrightarrow> keeps_locks P v (op_cleanup m n)"
  unfolding keeps_locks_def by (rule preserves_cleanup)

lemma keeps_each [lock_intros]: "(\<And>x. keeps_locks P v (f x)) \<Longrightarrow> keeps_locks P v (op_each f xs)"
  unfolding keeps_locks_def by (rule preserves_each)

lemma keeps_if [lock_intros]: "keeps_locks P v m \<Longrightarrow> keeps_locks P v n \<Longrightarrow> keeps_locks P v (if b then m else n)"
  by simp

lemma keeps_defer [lock_intros]: "keeps_locks P v m \<Longrightarrow> keeps_locks P v n \<Longrightarrow> keeps_locks P v (op_defer m n)"
  unfolding keeps_locks_def by (rule preserves_defer)

lemma keeps_finally [lock_intros]: "keeps_locks P v m \<Longrightarrow> keeps_locks P v n \<Longrightarrow> keeps_locks P v (op_finally m n)"
  unfolding keeps_locks_def by (rule preserves_finally)

lemma lock_view_io [simp]:
  "lock_view (w\<lparr>faults := fs\<rparr>) = lock_view w" "lock_view (w\<lparr>lastWrite := n\<rparr>) = lock_view w" "lock_view (w\<lparr>lock_disk := n\<rparr>) = lock_view w"
  "lock_view (w\<lparr>st_layersOpen := b\<rparr>) = lock_view w" "lock_view (w\<lparr>st_roLayersOpen := n\<rparr>) = lock_view w" "lock_view (w\<lparr>st_ids := i\<rparr>) = lock_view w"
proof -
  have eq: "part_modes w' = part_modes w" if "\<And>p. part_modes w' p = part_modes w p" for w' using that by blast
  have "part_modes (w\<lparr>faults := fs\<rparr>) p = part_modes w p" "part_modes (w\<lparr>lastWrite := n\<rparr>) p = part_modes w p"
    "part_modes (w\<lparr>lock_disk := n\<rparr>) p = part_modes w p" "part_modes (w\<lparr>st_layersOpen := b\<rparr>) p = part_modes w p"
    "part_modes (w\<lparr>st_roLayersOpen := n\<rparr>) p = part_modes w p" "part_modes (w\<lparr>st_ids := i\<rparr>) p = part_modes w p" for p
    by (cases p; simp)+
  note * = this [THEN eq]
  show "lock_view (w\<lparr>faults := fs\<rparr>) = lock_view w" "lock_view (w\<lparr>lastWrite := n\<rparr>) = lock_view w" "lock_view (w\<lparr>lock_disk := n\<rparr>) = lock_view w"
    "lock_view (w\<lparr>st_layersOpen := b\<rparr>) = lock_view w" "lock_view (w\<lparr>st_roLayersOpen := n\<rparr>) = lock_view w" "lock_view (w\<lparr>st_ids := i\<rparr>) = lock_view w"
    by (simp_all add: lock_view_def *)
qed

lemma keeps_io [lock_intros]: "keeps_locks P v io_call"
  unfolding keeps_locks_def by (rule io_call_preserves) simp

lemma keeps_and_cleanup [lock_intros]: "keeps_locks P v m \<Longrightarrow> keeps_locks P v (and_cleanup m)"
  unfolding and_cleanup_def by (intro lock_intros)

section \<open>Locking a store\<close>

text \<open>
  What the store relies on when it locks one of its stores: the store has a place of its own, and
  \<open>startReading\<close> and \<open>startWriting\<close> leave it locked when they succeed and unlocked when they fail. \<open>fits\<close> tells
  for which numbers of additional stores the store exists.
\<close>

definition starts :: "('s held, unit) op \<Rightarrow> lock_mode \<Rightarrow> bool" where
  "starts m mode \<longleftrightarrow> (\<forall>h. modes h = (Unlocked, Unlocked) \<longrightarrow>
     (case m h of (Inr _, h') \<Rightarrow> modes h' = (mode, mode) | (Inl _, h') \<Rightarrow> modes h' = (Unlocked, Unlocked)))"

locale lockable =
  fixes a :: "('d store, 's) access" and fits :: "lock_view \<Rightarrow> bool"
  assumes fits_part: "fits v \<Longrightarrow> ac_part a \<in> set (parts v)"
    and fits_set: "fits (set_mode p m v) = fits v"
    and modes_get: "fits (lock_view w) \<Longrightarrow> modes (ac_get a w) = fst (lock_view w) (ac_part a)"
    and view_put: "fits (lock_view w) \<Longrightarrow> lock_view (ac_put a h w) = set_mode (ac_part a) (modes h) (lock_view w)"
    and open_put: "st_roLayersOpen (ac_put a h w) = st_roLayersOpen w"
    and starts_reading: "starts (ac_startReading a) Reading"
    and starts_writing: "starts (ac_startWriting a) Writing"
begin

lemma zoom_keeps:
  assumes "fits v" and "\<And>h. modes h = fst v (ac_part a) \<Longrightarrow> modes (snd (m h)) = modes h"
  shows "keeps_locks P v (zoom a m)"
  unfolding keeps_locks_def preserves_def
proof (intro allI impI)
  fix w :: "'d store"
  assume v: "lock_view w = v \<and> P (st_roLayersOpen w)"
  then have "modes (snd (m (ac_get a w))) = fst v (ac_part a)" using assms modes_get [of w] by simp
  then show "lock_view (snd (zoom a m w)) = v \<and> P (st_roLayersOpen (snd (zoom a m w)))"
    using v assms(1) view_put [of w] by (auto simp: zoom_def open_put split: prod.split)
qed

lemma locked_call_modes: "modes (snd (locked_call m h)) = modes h"
  by (simp add: locked_call_def modes_def split: prod.split)

lemma guarded_keeps: "(\<And>w. lock_view w = v \<Longrightarrow> ok w) \<Longrightarrow> keeps_locks P v m \<Longrightarrow> keeps_locks P v (guarded ok m)"
  unfolding keeps_locks_def by (rule preserves_guarded) simp_all

lemma change_keeps: "fits v \<Longrightarrow> fst v (ac_part a) = (Writing, Writing) \<Longrightarrow> keeps_locks P v (change a m)"
  unfolding change_def by (rule guarded_keeps) (auto simp: modes_get locked_call_modes intro: zoom_keeps)

lemma ask_keeps: "fits v \<Longrightarrow> fst v (ac_part a) \<in> {(Reading, Reading), (Writing, Writing)} \<Longrightarrow> keeps_locks P v (ask a m)"
  unfolding ask_def by (rule guarded_keeps) (auto simp: modes_get locked_call_modes intro: zoom_keeps)

lemma stop_unlocks:
  assumes "fits v" and "may_take v (ac_part a)" and "mode \<noteq> Unlocked" and "lock_view w = set_mode (ac_part a) (mode, mode) v"
  shows "lock_view (snd (stop a w)) = v" "st_roLayersOpen (snd (stop a w)) = st_roLayersOpen w"
proof -
  have fits: "fits (lock_view w)" using assms by (simp add: fits_set)
  have m: "modes (ac_get a w) = (mode, mode)" using modes_get [OF fits] assms(4) by simp
  obtain r h where r: "stop_store (ac_others a) (ac_get a w) = (r, h)" by fastforce
  then have "modes h = (Unlocked, Unlocked)"
    using m assms(3) by (auto simp: stop_store_def mem_unlock_def file_unlock_def op_run modes_def)
  moreover have "fst v (ac_part a) = (Unlocked, Unlocked)" by (rule may_take_unlocked [OF assms(2) fits_part [OF assms(1)]])
  moreover have "mode = Reading \<or> mode = Writing" using assms(3) by (cases mode) simp_all
  ultimately show "lock_view (snd (stop a w)) = v" "st_roLayersOpen (snd (stop a w)) = st_roLayersOpen w"
    using m r view_put [OF fits, of h] assms(4) by (auto simp: stop_def guarded_def zoom_def open_put)
qed

lemma start_then_stop:
  assumes "fits v" and take: "may_take v (ac_part a)" and start: "starts m mode" and mode: "mode \<noteq> Unlocked"
    and keeps: "keeps_locks P (set_mode (ac_part a) (mode, mode) v) body"
  shows "keeps_locks P v (op_seq (guarded (\<lambda>w. may_take (lock_view w) (ac_part a)) (zoom a m)) (op_finally body (stop a)))"
  unfolding keeps_locks_def preserves_def
proof (intro allI impI)
  fix w :: "'d store"
  assume v: "lock_view w = v \<and> P (st_roLayersOpen w)"
  have free: "fst v (ac_part a) = (Unlocked, Unlocked)" by (rule may_take_unlocked [OF take fits_part [OF assms(1)]])
  obtain r h where r: "m (ac_get a w) = (r, h)" by fastforce
  have h: "modes h = (case r of Inr _ \<Rightarrow> (mode, mode) | Inl _ \<Rightarrow> (Unlocked, Unlocked))"
    using start r modes_get [of w] v assms(1) free unfolding starts_def by (force split: sum.splits)
  have put: "lock_view (ac_put a h w) = set_mode (ac_part a) (modes h) v" using view_put [of w] v assms(1) by simp
  let ?w = "snd (op_seq (guarded (\<lambda>w. may_take (lock_view w) (ac_part a)) (zoom a m)) (op_finally body (stop a)) w)"
  show "lock_view ?w = v \<and> P (st_roLayersOpen ?w)"
  proof (cases r)
    case (Inl e)
    then show ?thesis using v take r put h free by (simp add: op_seq_run guarded_def zoom_def open_put)
  next
    case (Inr x)
    then have "lock_view (snd (body (ac_put a h w))) = set_mode (ac_part a) (mode, mode) v \<and> P (st_roLayersOpen (snd (body (ac_put a h w))))"
      using keeps put h v by (simp add: keeps_locks_def preserves_def open_put)
    with stop_unlocks [OF assms(1) take mode, of "snd (body (ac_put a h w))"] show ?thesis
      using v take r Inr by (auto simp: op_seq_run guarded_def zoom_def op_finally_def split: prod.split)
  qed
qed

lemma reading_keeps:
  "fits v \<Longrightarrow> may_take v (ac_part a) \<Longrightarrow> keeps_locks P (set_mode (ac_part a) (Reading, Reading) v) m \<Longrightarrow> keeps_locks P v (reading a m)"
  unfolding reading_def startReading_def by (rule start_then_stop [OF _ _ starts_reading]) simp_all

lemma writing_keeps:
  "fits v \<Longrightarrow> may_take v (ac_part a) \<Longrightarrow> keeps_locks P (set_mode (ac_part a) (Writing, Writing) v) m \<Longrightarrow> keeps_locks P v (writing a m)"
  unfolding writing_def startWriting_def by (rule start_then_stop [OF _ _ starts_writing]) simp_all

end

section \<open>The stores can be locked\<close>

lemma unlocked_unheld: "modes h = (Unlocked, Unlocked) \<Longrightarrow> h = unheld (lk_store h)"
  by (cases h) (auto simp: modes_def unheld_def)

lemma modes_held [simp]: "modes (held_as m s) = (m, m)" "modes (unheld s) = (Unlocked, Unlocked)"
  by (simp_all add: modes_def held_as_def unheld_def)

lemma startsI:
  fixes m :: "('s held, unit) op"
  assumes "\<And>s. case m (unheld s) of (Inr _, h') \<Rightarrow> modes h' = (mode, mode) | (Inl _, h') \<Rightarrow> modes h' = (Unlocked, Unlocked)"
  shows "starts m mode"
  unfolding starts_def
proof (intro allI impI)
  fix h :: "'s held"
  assume "modes h = (Unlocked, Unlocked)"
  then have "h = unheld (lk_store h)" by (rule unlocked_unheld)
  then show "case m h of (Inr _, h') \<Rightarrow> modes h' = (mode, mode) | (Inl _, h') \<Rightarrow> modes h' = (Unlocked, Unlocked)"
    using assms [of "lk_store h"] by (rule ssubst)
qed

lemma startReading_starts: "starts (startReadingWithReload modified reload others True) Reading"
proof (rule startsI)
  fix s
  obtain r t where "fresh_read modified reload others s = (r, t)" by fastforce
  then show "case startReadingWithReload modified reload others True (unheld s) of
      (Inr _, h') \<Rightarrow> modes h' = (Reading, Reading) | (Inl _, h') \<Rightarrow> modes h' = (Unlocked, Unlocked)"
    by (simp add: startReading_run split: option.split)
qed

lemma startWriting_starts: "starts (startWritingWithReload reload others True) Writing"
proof (rule startsI)
  fix s
  obtain b r t where "reload True s = ((b, r), t)" by (metis prod.exhaust)
  then show "case startWritingWithReload reload others True (unheld s) of
      (Inr _, h') \<Rightarrow> modes h' = (Writing, Writing) | (Inl _, h') \<Rightarrow> modes h' = (Unlocked, Unlocked)"
    by (simp add: startWriting_refines split: option.split)
qed

text \<open>The layer store retries in a loop.\<close>

lemma read_attempt_run:
  assumes "modes h = (Reading, Unlocked)"
  shows "read_attempt drv others again h =
    (case layer_reloadIfChanged drv False (lk_store h) of
       ((_, None), t) \<Rightarrow> (Inr (), h\<lparr>lk_store := t\<rparr>)
     | ((b, Some e), t) \<Rightarrow>
         if \<not> b then (Inl e, h\<lparr>lk_file := Unlocked, lk_store := others t\<rparr>) else again e (h\<lparr>lk_store := t\<rparr>))"
proof -
  obtain s where h: "h = \<lparr>lk_file = Reading, lk_mem = Unlocked, lk_store = s\<rparr>" using assms by (cases h) (auto simp: modes_def)
  obtain b r t where "layer_reloadIfChanged drv False s = ((b, r), t)" by (metis prod.exhaust)
  then show ?thesis
    by (cases r) (simp_all add: h read_attempt_def op_then_def op_return_def op_fail_def op_seq_run in_process_reload file_unlock_def)
qed

lemma read_retry_run:
  assumes "modes h = (Reading, Unlocked)"
  shows "op_seq (file_unlock others)
      (op_seq (file_lock Writing)
      (op_seq (reload_step (layer_reloadIfChanged drv) others True)
      (op_seq (file_unlock others)
      (op_seq (file_lock Reading) rest)))) h =
    (case layer_reloadIfChanged drv True (others (lk_store h)) of
       ((_, None), t) \<Rightarrow> rest (h\<lparr>lk_store := others t\<rparr>)
     | ((_, Some e), t) \<Rightarrow> (Inl e, h\<lparr>lk_file := Unlocked, lk_store := others t\<rparr>))"
proof -
  obtain s where h: "h = \<lparr>lk_file = Reading, lk_mem = Unlocked, lk_store = s\<rparr>" using assms by (cases h) (auto simp: modes_def)
  obtain b r t where "layer_reloadIfChanged drv True (others s) = ((b, r), t)" by (metis prod.exhaust)
  then show ?thesis
    by (cases r) (simp_all add: h op_seq_run file_unlock_def file_lock_def reload_step_run)
qed

lemma layer_read_loop_modes:
  "modes h = (Reading, Unlocked) \<Longrightarrow>
     (case layer_read_loop drv others n h of (Inr _, h') \<Rightarrow> modes h' = (Reading, Unlocked) | (Inl _, h') \<Rightarrow> modes h' = (Unlocked, Unlocked))"
proof (induction n arbitrary: h)
  case 0
  then show ?case
    by (auto simp: read_attempt_run op_run file_unlock_def modes_def split: prod.split option.split)
next
  case (Suc n)
  have m: "modes (h\<lparr>lk_store := s\<rparr>) = (Reading, Unlocked)" "modes (h\<lparr>lk_file := Unlocked, lk_store := s\<rparr>) = (Unlocked, Unlocked)" for s
    using Suc.prems by (simp_all add: modes_def)
  obtain b r t where rl: "layer_reloadIfChanged drv False (lk_store h) = ((b, r), t)" by (metis prod.exhaust)
  obtain b' r' t' where rl': "layer_reloadIfChanged drv True (others t) = ((b', r'), t')" by (metis prod.exhaust)
  have "layer_read_loop drv others (Suc n) h =
      (case r of
         None \<Rightarrow> (Inr (), h\<lparr>lk_store := t\<rparr>)
       | Some e \<Rightarrow>
           if \<not> b then (Inl e, h\<lparr>lk_file := Unlocked, lk_store := others t\<rparr>)
           else (case r' of None \<Rightarrow> layer_read_loop drv others n (h\<lparr>lk_store := others t'\<rparr>)
                 | Some e \<Rightarrow> (Inl e, h\<lparr>lk_file := Unlocked, lk_store := others t'\<rparr>)))"
    by (simp only: layer_read_loop.simps read_attempt_run [OF Suc.prems] read_retry_run [OF m(1)])
      (simp add: rl rl' split: option.split)
  then show ?case using m Suc.IH [OF m(1), of "others t'"] by (simp split: option.split)
qed

lemma layer_startReading_starts: "starts (layer_startReading drv others) Reading"
  for drv :: "'d Driver"
proof (rule startsI)
  fix s :: "'d layerStore"
  obtain r t where m: "layer_modified s = (r, t)" by fastforce
  let ?h = "\<lparr>lk_file = Reading, lk_mem = Unlocked, lk_store = t\<rparr>"
  obtain r' h' where l: "layer_read_loop drv others maxLayerStoreCleanupIterations ?h = (r', h')" by fastforce
  have "case r' of Inr _ \<Rightarrow> modes h' = (Reading, Unlocked) | Inl _ \<Rightarrow> modes h' = (Unlocked, Unlocked)"
    using layer_read_loop_modes [of ?h drv others maxLayerStoreCleanupIterations] l by (simp add: modes_def split: sum.splits)
  then show "case layer_startReading drv others (unheld s) of
      (Inr _, h') \<Rightarrow> modes h' = (Reading, Reading) | (Inl _, h') \<Rightarrow> modes h' = (Unlocked, Unlocked)"
    using m l
    by (cases r; cases r')
      (auto simp: layer_startReading_def layer_startReadingWithReload_def op_run locked_call_def unheld_def file_lock_def mem_lock_def
        mem_unlock_def file_unlock_def stop_store_def modes_def)
qed

lemma layer_startWriting_starts: "starts (layer_startWriting drv others) Writing"
  unfolding layer_startWriting_def by (rule startWriting_starts)

lemma view_upd:
  "lock_view (w\<lparr>st_layers := h\<rparr>) = set_mode LayerStore (modes h) (lock_view w)"
  "lock_view (w\<lparr>st_images := h'\<rparr>) = set_mode ImageStore (modes h') (lock_view w)"
  "lock_view (w\<lparr>st_containers := h''\<rparr>) = set_mode ContainerStore (modes h'') (lock_view w)"
  "lock_view (w\<lparr>st_graph := m\<rparr>) = set_mode GraphLock (m, m) (lock_view w)"
  "lock_view (w\<lparr>st_userns := m\<rparr>) = set_mode UsernsLock (m, m) (lock_view w)"
  "i < length (st_roLayers w) \<Longrightarrow> lock_view (w\<lparr>st_roLayers := (st_roLayers w)[i := h]\<rparr>) = set_mode (ROLayerStore i) (modes h) (lock_view w)"
  "i < length (st_roImages w) \<Longrightarrow> lock_view (w\<lparr>st_roImages := (st_roImages w)[i := h']\<rparr>) = set_mode (ROImageStore i) (modes h') (lock_view w)"
proof -
  have eq: "part_modes w' = (part_modes w)(p := m)" if "\<And>q. part_modes w' q = ((part_modes w)(p := m)) q" for w' p m
    using that by blast
  have "part_modes (w\<lparr>st_layers := h\<rparr>) q = ((part_modes w)(LayerStore := modes h)) q"
    "part_modes (w\<lparr>st_images := h'\<rparr>) q = ((part_modes w)(ImageStore := modes h')) q"
    "part_modes (w\<lparr>st_containers := h''\<rparr>) q = ((part_modes w)(ContainerStore := modes h'')) q"
    "part_modes (w\<lparr>st_graph := m\<rparr>) q = ((part_modes w)(GraphLock := (m, m))) q"
    "part_modes (w\<lparr>st_userns := m\<rparr>) q = ((part_modes w)(UsernsLock := (m, m))) q" for q
    by (cases q; simp)+
  note * = this [THEN eq]
  show "lock_view (w\<lparr>st_layers := h\<rparr>) = set_mode LayerStore (modes h) (lock_view w)"
    "lock_view (w\<lparr>st_images := h'\<rparr>) = set_mode ImageStore (modes h') (lock_view w)"
    "lock_view (w\<lparr>st_containers := h''\<rparr>) = set_mode ContainerStore (modes h'') (lock_view w)"
    "lock_view (w\<lparr>st_graph := m\<rparr>) = set_mode GraphLock (m, m) (lock_view w)"
    "lock_view (w\<lparr>st_userns := m\<rparr>) = set_mode UsernsLock (m, m) (lock_view w)"
    by (simp_all add: lock_view_def set_mode_def *)
  have "part_modes (w\<lparr>st_roLayers := (st_roLayers w)[i := h]\<rparr>) q = ((part_modes w)(ROLayerStore i := modes h)) q"
    if "i < length (st_roLayers w)" for q using that by (cases q) (auto simp: nth_list_update)
  from eq [OF this] show "i < length (st_roLayers w) \<Longrightarrow>
      lock_view (w\<lparr>st_roLayers := (st_roLayers w)[i := h]\<rparr>) = set_mode (ROLayerStore i) (modes h) (lock_view w)"
    by (simp add: lock_view_def set_mode_def)
  have "part_modes (w\<lparr>st_roImages := (st_roImages w)[i := h']\<rparr>) q = ((part_modes w)(ROImageStore i := modes h')) q"
    if "i < length (st_roImages w)" for q using that by (cases q) (auto simp: nth_list_update)
  from eq [OF this] show "i < length (st_roImages w) \<Longrightarrow>
      lock_view (w\<lparr>st_roImages := (st_roImages w)[i := h']\<rparr>) = set_mode (ROImageStore i) (modes h') (lock_view w)"
    by (simp add: lock_view_def set_mode_def)
qed

text \<open>How many additional stores a view has.\<close>

definition ro_layer_count :: "lock_view \<Rightarrow> nat" where
  "ro_layer_count v = fst (snd (snd v))"

definition ro_image_count :: "lock_view \<Rightarrow> nat" where
  "ro_image_count v = fst (snd (snd (snd v)))"

lemma counts [simp]:
  "ro_layer_count (set_mode p m v) = ro_layer_count v" "ro_image_count (set_mode p m v) = ro_image_count v"
  "ro_layer_count (lock_view w) = length (st_roLayers w)" "ro_image_count (lock_view w) = length (st_roImages w)"
  by (cases v; simp add: ro_layer_count_def ro_image_count_def set_mode_def lock_view_def)+

lemma fst_view [simp]: "fst (lock_view w) = part_modes w" "fst (snd (lock_view w)) = st_misused w"
  by (simp_all add: lock_view_def)

lemma set_parts: "set (parts v) = {GraphLock, UsernsLock, LayerStore, ImageStore, ContainerStore}
    \<union> ROLayerStore ` {..<ro_layer_count v} \<union> ROImageStore ` {..<ro_image_count v}"
  by (cases v) (auto simp: parts_def ro_layer_count_def ro_image_count_def)

interpretation lay: lockable "layer_access env" "\<lambda>_. True" for env
  by unfold_locales (auto simp: layer_access_def set_parts view_upd layer_startReading_starts layer_startWriting_starts)

interpretation imgs: lockable "image_access env" "\<lambda>_. True" for env
  by unfold_locales (auto simp: image_access_def set_parts view_upd image_startReading_def image_startWriting_def
      startReading_starts startWriting_starts)

interpretation cons: lockable "container_access env" "\<lambda>_. True" for env
  by unfold_locales (auto simp: container_access_def set_parts view_upd container_startReading_def container_startWriting_def
      startReading_starts startWriting_starts)

interpretation rolay: lockable "ro_layer_access env i" "\<lambda>v. i < ro_layer_count v" for env i
  by unfold_locales (auto simp: ro_layer_access_def set_parts view_upd layer_startReading_starts layer_startWriting_starts)

interpretation roimgs: lockable "ro_image_access env i" "\<lambda>v. i < ro_image_count v" for env i
  by unfold_locales (auto simp: ro_image_access_def set_parts view_upd image_startReading_def image_startWriting_def
      startReading_starts startWriting_starts)

section \<open>Rules for the stores\<close>

lemma ac_parts [simp]:
  "ac_part (layer_access env) = LayerStore" "ac_part (ro_layer_access env i) = ROLayerStore i" "ac_part (image_access env) = ImageStore"
  "ac_part (ro_image_access env i) = ROImageStore i" "ac_part (container_access env) = ContainerStore"
  by (simp_all add: layer_access_def ro_layer_access_def image_access_def ro_image_access_def container_access_def)

lemmas keeps_layers [lock_intros] = lay.change_keeps [OF TrueI, unfolded ac_parts] lay.ask_keeps [OF TrueI, unfolded ac_parts]
  lay.reading_keeps [OF TrueI, unfolded ac_parts] lay.writing_keeps [OF TrueI, unfolded ac_parts]

lemmas keeps_ro_layers [lock_intros] = rolay.change_keeps [unfolded ac_parts] rolay.ask_keeps [unfolded ac_parts]
  rolay.reading_keeps [unfolded ac_parts] rolay.writing_keeps [unfolded ac_parts]

lemmas keeps_images [lock_intros] = imgs.change_keeps [OF TrueI, unfolded ac_parts] imgs.ask_keeps [OF TrueI, unfolded ac_parts]
  imgs.reading_keeps [OF TrueI, unfolded ac_parts] imgs.writing_keeps [OF TrueI, unfolded ac_parts]

lemmas keeps_ro_images [lock_intros] = roimgs.change_keeps [unfolded ac_parts] roimgs.ask_keeps [unfolded ac_parts]
  roimgs.reading_keeps [unfolded ac_parts] roimgs.writing_keeps [unfolded ac_parts]

lemmas keeps_containers [lock_intros] = cons.change_keeps [OF TrueI, unfolded ac_parts] cons.ask_keeps [OF TrueI, unfolded ac_parts]
  cons.reading_keeps [OF TrueI, unfolded ac_parts] cons.writing_keeps [OF TrueI, unfolded ac_parts]

lemma may_take_cong:
  assumes "parts v' = parts v" and "\<And>q. p \<le> q \<Longrightarrow> fst v' q = fst v q"
  shows "may_take v' p = may_take v p"
  using assms by (simp add: may_take_def)

lemma may_take_below [simp]: "q < p \<Longrightarrow> may_take (set_mode q m v) p = may_take v p"
  by (rule may_take_cong) (auto dest: leD)

text \<open>Nothing is locked.\<close>

definition all_free :: "lock_view \<Rightarrow> bool" where
  "all_free v \<longleftrightarrow> (\<forall>p \<in> set (parts v). fst v p = (Unlocked, Unlocked))"

lemma free_may_take [simp]: "all_free v \<Longrightarrow> may_take v p"
  by (simp add: all_free_def may_take_def)

text \<open>Additional stores that are locked for reading one after the other.\<close>

definition add_readers :: "(nat \<Rightarrow> part) \<Rightarrow> nat set \<Rightarrow> lock_view \<Rightarrow> lock_view" where
  "add_readers f S v = (case v of (g, b, n) \<Rightarrow> (\<lambda>p. if p \<in> f ` S then (Reading, Reading) else g p, b, n))"

lemma add_readers_simps [simp]:
  "fst (add_readers f S v) p = (if p \<in> f ` S then (Reading, Reading) else fst v p)"
  "ro_layer_count (add_readers f S v) = ro_layer_count v" "ro_image_count (add_readers f S v) = ro_image_count v"
  "(\<And>i. i \<in> S \<Longrightarrow> f i < p) \<Longrightarrow> may_take (add_readers f S v) p = may_take v p"
  "add_readers f {} v = v"
proof -
  show f: "fst (add_readers f S v) p = (if p \<in> f ` S then (Reading, Reading) else fst v p)" for p
    by (cases v) (simp add: add_readers_def)
  show "may_take (add_readers f S v) p = may_take v p" if S: "\<And>i. i \<in> S \<Longrightarrow> f i < p"
  proof (rule may_take_cong)
    show "parts (add_readers f S v) = parts v" by (cases v) (simp add: add_readers_def parts_def)
    show "fst (add_readers f S v) q = fst v q" if "p \<le> q" for q
    proof -
      have "q \<notin> f ` S" using S that leD by blast
      then show ?thesis by (simp add: f)
    qed
  qed
qed (cases v; simp add: add_readers_def ro_layer_count_def ro_image_count_def)+

lemma add_reader: "set_mode (f i) (Reading, Reading) v = add_readers f {i} v"
  "add_readers f S (add_readers f T v) = add_readers f (S \<union> T) v"
  by (cases v; auto simp: set_mode_def add_readers_def fun_eq_iff)+

text \<open>Case distinctions.\<close>

lemma keeps_sum [lock_intros]:
  "(\<And>x. keeps_locks P v (f x)) \<Longrightarrow> (\<And>y. keeps_locks P v (g y)) \<Longrightarrow> keeps_locks P v (case r of Inl x \<Rightarrow> f x | Inr y \<Rightarrow> g y)"
  and keeps_option [lock_intros]:
  "keeps_locks P v m \<Longrightarrow> (\<And>y. keeps_locks P v (h y)) \<Longrightarrow> keeps_locks P v (case z of None \<Rightarrow> m | Some y \<Rightarrow> h y)"
  and keeps_prod [lock_intros]:
  "(\<And>x y. keeps_locks P v (k x y)) \<Longrightarrow> keeps_locks P v (case p of (x, y) \<Rightarrow> k x y)"
  subgoal by (cases r) simp_all
  subgoal by (cases z) simp_all
  subgoal by (cases p) simp
  done

text \<open>The lists of additional stores. The number of open layer stores is known from then on.\<close>

lemma keeps_read_ro_layers:
  fixes f :: "nat list \<Rightarrow> ('d store, 'a) op"
  assumes "\<And>n. keeps_locks (\<lambda>k. k = n) v (f [0 ..< min n (ro_layer_count v)])"
  shows "keeps_locks P v (op_read ro_layers f)"
  unfolding keeps_locks_def preserves_def
proof (intro allI impI)
  fix w :: "'d store"
  assume v: "lock_view w = v \<and> P (st_roLayersOpen w)"
  then have "ro_layers w = [0 ..< min (st_roLayersOpen w) (ro_layer_count v)]" by (auto simp: ro_layers_def)
  with assms [of "st_roLayersOpen w"] v
  show "lock_view (snd (op_read ro_layers f w)) = v \<and> P (st_roLayersOpen (snd (op_read ro_layers f w)))"
    by (auto simp: keeps_locks_def preserves_def op_read_def)
qed

lemma keeps_read_ro_images:
  fixes f :: "nat list \<Rightarrow> ('d store, 'a) op"
  assumes "keeps_locks P v (f [0 ..< ro_image_count v])"
  shows "keeps_locks P v (op_read ro_images f)"
  unfolding keeps_locks_def preserves_def
proof (intro allI impI)
  fix w :: "'d store"
  assume v: "lock_view w = v \<and> P (st_roLayersOpen w)"
  then have "ro_images w = [0 ..< ro_image_count v]" by (auto simp: ro_images_def)
  with assms v show "lock_view (snd (op_read ro_images f w)) = v \<and> P (st_roLayersOpen (snd (op_read ro_images f w)))"
    by (simp add: keeps_locks_def preserves_def op_read_def)
qed

lemma keeps_layers_locked:
  fixes m :: "('d store, 'a) op"
  assumes "fst v LayerStore = (Writing, Writing)" and "\<And>i. i < n \<Longrightarrow> i < ro_layer_count v \<Longrightarrow> fst v (ROLayerStore i) = (Reading, Reading)"
    and "keeps_locks (\<lambda>k. k = n) v m"
  shows "keeps_locks (\<lambda>k. k = n) v (guarded layers_locked m)"
  using assms(3) unfolding keeps_locks_def
proof (rule preserves_guarded [rotated])
  fix w :: "'d store"
  assume w: "lock_view w = v \<and> st_roLayersOpen w = n"
  then have "modes (st_layers w) = fst v LayerStore" "i < ro_layer_count v \<Longrightarrow> modes (st_roLayers w ! i) = fst v (ROLayerStore i)" for i
    by (auto simp: lock_view_def ro_layer_count_def)
  then show "layers_locked w" using w assms(1,2) by (auto simp: layers_locked_def ro_layers_def)
qed

end
