(* ===== verification/Storage_Discipline.thy ===== *)
theory Storage_Discipline
  imports Storage_Locking
begin

text \<open>
  The operations of \<open>storage/store.go\<close>, one by one: each keeps the locks, so it takes them in order, has
  those that its calls require and releases what it took.
\<close>

section \<open>Helpers\<close>

lemma keeps_query_lift: "keeps_locks P v (\<lambda>w. case f w of Inl e \<Rightarrow> (Inl e, w) | Inr x \<Rightarrow> (Inr x, w))"
  by (auto simp: keeps_locks_def preserves_def split: sum.split)

text \<open>An error that is turned into a value.\<close>

lemma keeps_recover:
  fixes m :: "('d store, 'a) op"
  assumes "keeps_locks P v m"
  shows "keeps_locks P v (\<lambda>w. case m w of (Inr x, w1) \<Rightarrow> (Inr (f x), w1) | (Inl e, w1) \<Rightarrow> (Inr (g e), w1))"
  unfolding keeps_locks_def preserves_def
proof (intro allI impI)
  fix w :: "'d store"
  assume "lock_view w = v \<and> P (st_roLayersOpen w)"
  moreover obtain r w1 where "m w = (r, w1)" by fastforce
  ultimately show "lock_view (snd (case m w of (Inr x, w1) \<Rightarrow> (Inr (f x), w1) | (Inl e, w1) \<Rightarrow> (Inr (g e), w1))) = v
      \<and> P (st_roLayersOpen (snd (case m w of (Inr x, w1) \<Rightarrow> (Inr (f x), w1) | (Inl e, w1) \<Rightarrow> (Inr (g e), w1))))"
    using assms by (cases r) (simp_all add: keeps_locks_def preserves_def, (metis snd_conv)+)
qed

lemma may_take_Suc:
  "may_take v (ROLayerStore a) \<Longrightarrow> may_take v (ROLayerStore (Suc a))" "may_take v (ROImageStore a) \<Longrightarrow> may_take v (ROImageStore (Suc a))"
  by (rule may_take_later, assumption, rule less_imp_le, simp)+

lemma upt_cons: "a < b \<Longrightarrow> [a ..< b] = a # [Suc a ..< b]"
  by (rule upt_conv_Cons)

lemma keeps_read_layers [lock_intros]:
  "b \<le> ro_layer_count v \<Longrightarrow> may_take v (ROLayerStore a) \<Longrightarrow> keeps_locks P v (read_each (ro_layer_access env) fn [a ..< b] x)"
proof (induction "b - a" arbitrary: a v x)
  case (Suc n)
  then have "a < b" by simp
  have "may_take v (ROLayerStore (Suc a))" using may_take_Suc Suc.prems(2) by blast
  then have "keeps_locks P (set_mode (ROLayerStore a) (Reading, Reading) v) (read_each (ro_layer_access env) fn [Suc a ..< b] y)" for y
    using Suc.hyps Suc.prems(1) by (intro Suc.hyps(1)) simp_all
  then show ?case
    unfolding upt_cons [OF \<open>a < b\<close>] read_each.simps using Suc.prems \<open>a < b\<close> by (intro lock_intros) simp_all
qed (simp add: lock_intros)

lemma keeps_read_images [lock_intros]:
  "b \<le> ro_image_count v \<Longrightarrow> may_take v (ROImageStore a) \<Longrightarrow> keeps_locks P v (read_each (ro_image_access env) fn [a ..< b] x)"
proof (induction "b - a" arbitrary: a v x)
  case (Suc n)
  then have "a < b" by simp
  have "may_take v (ROImageStore (Suc a))" using may_take_Suc Suc.prems(2) by blast
  then have "keeps_locks P (set_mode (ROImageStore a) (Reading, Reading) v) (read_each (ro_image_access env) fn [Suc a ..< b] y)" for y
    using Suc.hyps Suc.prems(1) by (intro Suc.hyps(1)) simp_all
  then show ?case
    unfolding upt_cons [OF \<open>a < b\<close>] read_each.simps using Suc.prems \<open>a < b\<close> by (intro lock_intros) simp_all
qed (simp add: lock_intros)

text \<open>Looking for a layer or an image; the rest runs with some additional stores locked.\<close>

lemma keeps_locate_layer:
  assumes "b \<le> ro_layer_count v" and "may_take v (ROLayerStore a)"
    and "\<And>S l. S \<subseteq> {a ..< b} \<Longrightarrow> keeps_locks P (add_readers ROLayerStore S v) (use l)"
  shows "keeps_locks P v (locate_layer env k [a ..< b] use)"
  using assms
proof (induction "b - a" arbitrary: a v)
  case (Suc n)
  then have "a < b" by simp
  let ?v = "set_mode (ROLayerStore a) (Reading, Reading) v"
  have next': "may_take v (ROLayerStore (Suc a))" using may_take_Suc Suc.prems(2) by blast
  have use: "keeps_locks P (add_readers ROLayerStore S ?v) (use l)" if "S \<subseteq> {Suc a ..< b}" for S l
  proof -
    have "S \<union> {a} \<subseteq> {a ..< b}" using that \<open>a < b\<close> by auto
    from Suc.prems(3) [OF this] show ?thesis unfolding add_reader .
  qed
  have "keeps_locks P ?v (use l)" for l using use [of "{}"] by simp
  moreover have "keeps_locks P ?v (locate_layer env k [Suc a ..< b] use)"
    using Suc.hyps(2) Suc.prems(1) next' by (intro Suc.hyps(1) use) simp_all
  ultimately show ?case
    unfolding upt_cons [OF \<open>a < b\<close>] locate_layer.simps using Suc.prems(1,2) \<open>a < b\<close> by (intro lock_intros) simp_all
qed (simp add: lock_intros)

lemma keeps_getParentLayer:
  assumes "fst v LayerStore \<in> {(Reading, Reading), (Writing, Writing)}" and "may_take v (ROLayerStore 0)"
    and "\<And>Q S l. keeps_locks Q (add_readers ROLayerStore S v) (use l)"
  shows "keeps_locks P v (getParentLayer env k use)"
proof -
  have "keeps_locks Q v (use l)" for Q l using assms(3) [of Q "{}"] by simp
  then show ?thesis
    unfolding getParentLayer_def using assms by (intro lock_intros keeps_read_ro_layers keeps_locate_layer) simp_all
qed

lemma keeps_locate_image:
  assumes "b \<le> ro_image_count v" and "may_take v (ROImageStore a)"
    and "\<And>S i img. i \<in> S \<Longrightarrow> S \<subseteq> {a ..< b} \<Longrightarrow> keeps_locks P (add_readers ROImageStore S v) (use i img)"
    and "\<And>S. S \<subseteq> {a ..< b} \<Longrightarrow> keeps_locks P (add_readers ROImageStore S v) otherwise"
  shows "keeps_locks P v (locate_image env k [a ..< b] use otherwise)"
  using assms
proof (induction "b - a" arbitrary: a v)
  case 0
  then show ?case using 0 0(5) [of "{}"] by simp
next
  case (Suc n)
  then have "a < b" by simp
  let ?v = "set_mode (ROImageStore a) (Reading, Reading) v"
  have next': "may_take v (ROImageStore (Suc a))" using may_take_Suc Suc.prems(2) by blast
  have use: "keeps_locks P (add_readers ROImageStore S ?v) (use i img)" if "S \<subseteq> {Suc a ..< b}" "i \<in> S \<union> {a}" for S i img
  proof -
    have "S \<union> {a} \<subseteq> {a ..< b}" using that \<open>a < b\<close> by auto
    from Suc.prems(3) [OF that(2) this] show ?thesis unfolding add_reader .
  qed
  have other: "keeps_locks P (add_readers ROImageStore S ?v) otherwise" if "S \<subseteq> {Suc a ..< b}" for S
  proof -
    have "S \<union> {a} \<subseteq> {a ..< b}" using that \<open>a < b\<close> by auto
    from Suc.prems(4) [OF this] show ?thesis unfolding add_reader .
  qed
  have "keeps_locks P ?v (use a img)" for img using use [of "{}"] by simp
  moreover have "keeps_locks P ?v (locate_image env k [Suc a ..< b] use otherwise)"
    using Suc.hyps(2) Suc.prems(1) next' by (intro Suc.hyps(1) use other) simp_all
  ultimately show ?case
    unfolding upt_cons [OF \<open>a < b\<close>] locate_image.simps using Suc.prems(1,2) \<open>a < b\<close> by (intro lock_intros) simp_all
qed

lemma keeps_reading_all:
  assumes "b \<le> ro_layer_count v" and "may_take v (ROLayerStore a)" and "keeps_locks P (add_readers ROLayerStore {a ..< b} v) m"
  shows "keeps_locks P v (reading_all (ro_layer_access env) [a ..< b] m)"
  using assms
proof (induction "b - a" arbitrary: a v)
  case (Suc n)
  then have "a < b" by simp
  let ?v = "set_mode (ROLayerStore a) (Reading, Reading) v"
  have next': "may_take v (ROLayerStore (Suc a))" using may_take_Suc Suc.prems(2) by blast
  have "{Suc a ..< b} \<union> {a} = {a ..< b}" using \<open>a < b\<close> by auto
  then have "keeps_locks P (add_readers ROLayerStore {Suc a ..< b} ?v) m" using Suc.prems(3) unfolding add_reader by simp
  then have "keeps_locks P ?v (reading_all (ro_layer_access env) [Suc a ..< b] m)"
    using Suc.hyps Suc.prems(1) next' by (intro Suc.hyps(1)) auto
  then show ?case
    unfolding upt_cons [OF \<open>a < b\<close>] reading_all.simps using Suc.prems(1,2) \<open>a < b\<close> by (intro lock_intros) simp_all
qed simp

section \<open>The graph driver and the layer stores\<close>

lemma lay_drive: "keeps_locks P v (zoom (layer_access env) (locked_call m))"
  by (rule lay.zoom_keeps) (simp_all add: lay.locked_call_modes)

lemma keeps_ModifiedSince [lock_intros]: "keeps_locks P v (ModifiedSince n)"
  and keeps_RecordWrite [lock_intros]: "keeps_locks P v RecordWrite"
  unfolding ModifiedSince_def RecordWrite_def by (intro lock_intros keeps_update; simp)+

lemma reload_driver_keeps: "keeps_locks P v (reload_driver env)"
  unfolding reload_driver_def by (intro lock_intros lay_drive keeps_update) simp_all

lemma keeps_usingGraphDriver [lock_intros]:
  fixes m :: "('d store, 'a) op"
  assumes "may_take v GraphLock" and "keeps_locks P (set_mode GraphLock (Writing, Writing) v) m"
  shows "keeps_locks P v (usingGraphDriver env m)"
  unfolding keeps_locks_def preserves_def
proof (intro allI impI)
  fix w :: "'d store"
  assume v: "lock_view w = v \<and> P (st_roLayersOpen w)"
  let ?inv = "\<lambda>w. lock_view w = set_mode GraphLock (Writing, Writing) v \<and> P (st_roLayersOpen w)"
  have free: "fst v GraphLock = (Unlocked, Unlocked)" using assms(1) by (rule may_take_unlocked) (simp add: set_parts)
  have out: "lock_view (w'\<lparr>st_graph := Unlocked\<rparr>) = v" if "?inv w'" for w' using that free by (simp add: view_upd)
  have in': "?inv (w\<lparr>st_graph := Writing\<rparr>)" using v by (simp add: view_upd)
  obtain r w1 where b: "reload_driver env (w\<lparr>st_graph := Writing\<rparr>) = (r, w1)" by fastforce
  have w1: "?inv w1" using reload_driver_keeps [of P "set_mode GraphLock (Writing, Writing) v" env] in' b
    unfolding keeps_locks_def preserves_def by (metis snd_conv)
  obtain r2 w2 where m: "m w1 = (r2, w2)" by fastforce
  have w2: "?inv w2" using assms(2) w1 m unfolding keeps_locks_def preserves_def by (metis snd_conv)
  then have g: "st_graph w2 = Writing" using lock_view_def [of w2] by (metis fst_view(1) part_modes.simps(1) prod.inject set_mode_simps(1))
  have st: "startUsingGraphDriver env w = (case r of Inl e \<Rightarrow> (Inl e, w1\<lparr>st_graph := Unlocked\<rparr>) | Inr _ \<Rightarrow> (Inr (), w1))"
    using v assms(1) b by (simp add: startUsingGraphDriver_def guarded_def op_seq_run op_update_def op_cleanup_def split: sum.split)
  show "lock_view (snd (usingGraphDriver env m w)) = v \<and> P (st_roLayersOpen (snd (usingGraphDriver env m w)))"
    using out [OF w1] out [OF w2] w1 w2 g m
    by (cases r) (simp_all add: usingGraphDriver_def op_seq_run st op_finally_def stopUsingGraphDriver_def guarded_def op_update_def)
qed

text \<open>A store that is being opened ends unlocked.\<close>

lemma locked_call_keeps_modes: "preserves (\<lambda>h. modes h = m) (locked_call f)"
  by (simp add: preserves_def lay.locked_call_modes)

lemma stop_frees:
  assumes "modes h = (m, m)" and "m \<noteq> Unlocked"
  shows "modes (snd (stop_store others h)) = (Unlocked, Unlocked)"
  using assms by (simp add: stop_store_def mem_unlock_def file_unlock_def op_run modes_def)

lemma bracket_frees:
  assumes start: "starts m mode" and "mode \<noteq> Unlocked" and body: "preserves (\<lambda>h. modes h = (mode, mode)) body"
  shows "preserves (\<lambda>h. modes h = (Unlocked, Unlocked)) (op_seq m (op_seq (op_cleanup body (stop_store others)) (stop_store others)))"
  unfolding preserves_def
proof (intro allI impI)
  fix h :: "'a held"
  assume h: "modes h = (Unlocked, Unlocked)"
  obtain r h1 r2 h2 where run: "m h = (r, h1)" "body h1 = (r2, h2)" by (metis prod.exhaust)
  have s: "case r of Inr _ \<Rightarrow> modes h1 = (mode, mode) | Inl _ \<Rightarrow> modes h1 = (Unlocked, Unlocked)"
    using start h run(1) unfolding starts_def by (force split: sum.splits)
  show "modes (snd (op_seq m (op_seq (op_cleanup body (stop_store others)) (stop_store others)) h)) = (Unlocked, Unlocked)"
  proof (cases r)
    case (Inr x)
    then have "modes h2 = (mode, mode)" using s body run unfolding preserves_def by (metis snd_conv sum.simps(6))
    then show ?thesis
      using run Inr stop_frees [OF _ assms(2), of h2 others] by (cases r2) (simp_all add: op_seq_run op_cleanup_def)
  qed (use s run in \<open>simp add: op_seq_run\<close>)
qed

lemma start_no_reload: "starts (startWritingWithReload reload others False) Writing"
  "starts (layer_startReadingWithReload drv others' False) Reading"
  by (rule startsI; simp add: startWritingWithReload_def layer_startReadingWithReload_def lock_defs op_run unheld_def modes_def)+

lemma load_body_modes:
  "preserves (\<lambda>h. modes h = m) (op_then (locked_call GetLastWrite) (\<lambda>lw.
     op_seq (op_update (\<lambda>h. h\<lparr>lk_store := (lk_store h)\<lparr>lastWrite := lw\<rparr>\<rparr>)) (locked_call (layer_load_op drv b))))"
  by (intro preserves_intros locked_call_keeps_modes preserves_update) (simp add: modes_def)

lemma new_layers_free:
  "preserves (\<lambda>h. modes h = (Unlocked, Unlocked)) (newLayerStore drv others)"
  "preserves (\<lambda>h. modes h = (Unlocked, Unlocked)) (newROLayerStore drv others)"
  unfolding newLayerStore_def newROLayerStore_def
  by (rule bracket_frees start_no_reload load_body_modes locked_call_keeps_modes preserves_return preserves_if preserves_then
      preserves_seq | simp)+

lemma forget_modes:
  "preserves (\<lambda>h. modes h = m) n \<Longrightarrow> preserves (\<lambda>h. modes h = m) (op_seq (op_update (\<lambda>h. h\<lparr>lk_store := layer_forget (lk_store h)\<rparr>)) n)"
  by (intro preserves_intros preserves_update) (simp_all add: modes_def)

lemma keeps_getLayerStoreLocked [lock_intros]:
  assumes "fst v GraphLock = (Writing, Writing)" and "may_take v LayerStore"
  shows "keeps_locks P v (getLayerStoreLocked env)"
proof -
  have "fst v LayerStore = (Unlocked, Unlocked)" using assms(2) by (rule may_take_unlocked) (simp add: set_parts)
  then have "keeps_locks P v (zoom (layer_access env) (op_seq (op_update (\<lambda>h. h\<lparr>lk_store := layer_forget (lk_store h)\<rparr>))
      (newLayerStore (se_driver env) (se_layer_others env))))"
    using forget_modes [OF new_layers_free(1), of "se_driver env" "se_layer_others env"]
    unfolding preserves_def by (intro lay.zoom_keeps) simp_all
  then show ?thesis
    unfolding getLayerStoreLocked_def using assms
    by (intro lock_intros lay.guarded_keeps keeps_update) (simp_all, auto simp: lock_view_def)
qed

abbreviation any :: "nat \<Rightarrow> bool" where
  "any \<equiv> \<lambda>_. True"

lemma keeps_open_ro:
  "b \<le> ro_layer_count v \<Longrightarrow> may_take v (ROLayerStore a) \<Longrightarrow> keeps_locks any v (open_ro_layers env [a ..< b])"
proof (induction "b - a" arbitrary: a)
  case (Suc n)
  then have "a < b" by simp
  have "may_take v (ROLayerStore (Suc a))" using may_take_Suc Suc.prems(2) by blast
  then have rest: "keeps_locks any v (open_ro_layers env [Suc a ..< b])" using Suc.hyps Suc.prems(1) by (intro Suc.hyps(1)) simp_all
  have a: "a < ro_layer_count v" using \<open>a < b\<close> Suc.prems(1) by simp
  have "fst v (ROLayerStore a) = (Unlocked, Unlocked)" using Suc.prems(2) by (rule may_take_unlocked) (simp add: set_parts a)
  then have "keeps_locks any v (zoom (ro_layer_access env a) (op_seq (op_update (\<lambda>h. h\<lparr>lk_store := layer_forget (lk_store h)\<rparr>))
      (newROLayerStore (se_driver env) (se_layer_others env))))"
    using forget_modes [OF new_layers_free(2), of "se_driver env" "se_layer_others env"] a
    unfolding preserves_def by (intro rolay.zoom_keeps) simp_all
  moreover have "keeps_locks any v (op_update (\<lambda>w. w\<lparr>st_roLayersOpen := Suc a\<rparr>))"
    by (simp add: keeps_locks_def preserves_def op_update_def)
  ultimately show ?case
    unfolding upt_cons [OF \<open>a < b\<close>] open_ro_layers.simps using rest Suc.prems(2)
    by (intro lock_intros lay.guarded_keeps) simp_all
qed (simp add: lock_intros)

lemma keeps_getROLayerStoresLocked:
  assumes "fst v GraphLock = (Writing, Writing)" and "may_take v (ROLayerStore 0)"
  shows "keeps_locks any v (getROLayerStoresLocked env)"
proof -
  let ?read = "op_read (\<lambda>w. (st_roLayersOpen w, length (st_roLayers w))) (\<lambda>(open, n).
       if open \<noteq> 0 then op_return () else op_seq io_call (open_ro_layers env [0 ..< n]))"
  have "keeps_locks any v (op_seq io_call (open_ro_layers env [0 ..< ro_layer_count v]))"
    using assms by (intro lock_intros keeps_open_ro) simp_all
  then have "keeps_locks any v ?read"
    by (auto simp: keeps_locks_def preserves_def op_read_def op_return_def)
  then show ?thesis
    unfolding getROLayerStoresLocked_def using assms(1) by (intro lay.guarded_keeps) (auto simp: lock_view_def)
qed

lemma keeps_both [lock_intros]:
  "fst v GraphLock = (Writing, Writing) \<Longrightarrow> may_take v LayerStore \<Longrightarrow> keeps_locks any v (bothLayerStoreKindsLocked env)"
  unfolding bothLayerStoreKindsLocked_def
  by (intro lock_intros keeps_getROLayerStoresLocked) (simp_all add: may_take_later less_imp_le)

lemma keeps_bothLayerStoreKinds [lock_intros]: "all_free v \<Longrightarrow> keeps_locks any v (bothLayerStoreKinds env)"
  unfolding bothLayerStoreKinds_def by (intro lock_intros) simp_all

lemma keeps_getLayerStore [lock_intros]: "all_free v \<Longrightarrow> keeps_locks P v (getLayerStore env)"
  unfolding getLayerStore_def by (intro lock_intros) simp_all

section \<open>Access to the stores\<close>

lemma keeps_readAllLayerStores [lock_intros]: "all_free v \<Longrightarrow> keeps_locks any v (readAllLayerStores env fn x)"
  unfolding readAllLayerStores_def by (intro lock_intros keeps_read_ro_layers) simp_all

lemma keeps_readOrWriteAllLayerStores [lock_intros]: "all_free v \<Longrightarrow> keeps_locks any v (readOrWriteAllLayerStores env fn x)"
  unfolding readOrWriteAllLayerStores_def by (intro lock_intros keeps_read_ro_layers) simp_all

lemma keeps_readAllImageStores [lock_intros]: "may_take v ImageStore \<Longrightarrow> keeps_locks P v (readAllImageStores env fn x)"
  unfolding readAllImageStores_def
  by (intro lock_intros keeps_read_ro_images) (simp_all add: may_take_later less_imp_le)

lemma keeps_readPrimaryLayerStore [lock_intros]:
  "all_free v \<Longrightarrow> keeps_locks P (set_mode LayerStore (Reading, Reading) v) m \<Longrightarrow> keeps_locks P v (readPrimaryLayerStore env m)"
  unfolding readPrimaryLayerStore_def by (intro lock_intros) simp_all

lemma keeps_writeToLayerStore [lock_intros]:
  "all_free v \<Longrightarrow> keeps_locks P (set_mode LayerStore (Writing, Writing) v) m \<Longrightarrow> keeps_locks P v (writeToLayerStore env m)"
  unfolding writeToLayerStore_def by (intro lock_intros) simp_all

lemma keeps_writeToImageStore [lock_intros]:
  "may_take v ImageStore \<Longrightarrow> keeps_locks P (set_mode ImageStore (Writing, Writing) v) m \<Longrightarrow> keeps_locks P v (writeToImageStore env m)"
  unfolding writeToImageStore_def by (intro lock_intros) simp_all

lemma keeps_readContainerStore [lock_intros]: "may_take v ContainerStore \<Longrightarrow> keeps_locks P v (readContainerStore env m)"
  unfolding readContainerStore_def by (intro lock_intros) simp_all

lemma keeps_writeToContainerStore [lock_intros]:
  "may_take v ContainerStore \<Longrightarrow> keeps_locks P (set_mode ContainerStore (Writing, Writing) v) m \<Longrightarrow> keeps_locks P v (writeToContainerStore env m)"
  unfolding writeToContainerStore_def by (intro lock_intros) simp_all

text \<open>The locks of \<open>writeToAllStores\<close>.\<close>

definition all_written :: "lock_view \<Rightarrow> lock_view" where
  "all_written v = set_mode ContainerStore (Writing, Writing) (set_mode ImageStore (Writing, Writing) (set_mode LayerStore (Writing, Writing) v))"

lemma all_written_simps [simp]:
  "fst (all_written v) LayerStore = (Writing, Writing)" "fst (all_written v) ImageStore = (Writing, Writing)"
  "fst (all_written v) ContainerStore = (Writing, Writing)"
  by (simp_all add: all_written_def)

lemma keeps_writeToAllStores [lock_intros]:
  "all_free v \<Longrightarrow> keeps_locks P (all_written v) m \<Longrightarrow> keeps_locks P v (writeToAllStores env m)"
  unfolding writeToAllStores_def all_written_def by (intro lock_intros) simp_all

lemma keeps_with_userns [lock_intros]:
  fixes m :: "('d store, 'a) op"
  assumes "may_take v UsernsLock" and "\<not> needed \<Longrightarrow> keeps_locks P v m" and "keeps_locks P (set_mode UsernsLock (Writing, Writing) v) m"
  shows "keeps_locks P v (with_userns needed m)"
  unfolding keeps_locks_def preserves_def
proof (intro allI impI)
  fix w :: "'d store"
  assume v: "lock_view w = v \<and> P (st_roLayersOpen w)"
  let ?inv = "\<lambda>w. lock_view w = set_mode UsernsLock (Writing, Writing) v \<and> P (st_roLayersOpen w)"
  have free: "fst v UsernsLock = (Unlocked, Unlocked)" using assms(1) by (rule may_take_unlocked) (simp add: set_parts)
  have out: "lock_view (w'\<lparr>st_userns := Unlocked\<rparr>) = v" if "?inv w'" for w' using that free by (simp add: view_upd)
  have in': "?inv (w\<lparr>st_userns := Writing\<rparr>)" using v by (simp add: view_upd)
  obtain r w1 where m: "m (w\<lparr>st_userns := Writing\<rparr>) = (r, w1)" by fastforce
  have w1: "?inv w1" using assms(3) in' m unfolding keeps_locks_def preserves_def by (metis snd_conv)
  show "lock_view (snd (with_userns needed m w)) = v \<and> P (st_roLayersOpen (snd (with_userns needed m w)))"
  proof (cases needed)
    case True
    then show ?thesis using m w1 out [OF w1] v assms(1)
      by (simp add: with_userns_def op_seq_run guarded_def op_update_def op_finally_def)
  next
    case False
    then show ?thesis using assms(2) v unfolding keeps_locks_def preserves_def by (simp add: with_userns_def)
  qed
qed

section \<open>Creating\<close>

lemma keeps_populate:
  assumes "fst v LayerStore = (Writing, Writing)" and "may_take v (ROLayerStore 0)"
    and "\<And>Q S x y. keeps_locks Q (add_readers ROLayerStore S v) (use x y)"
  shows "keeps_locks P v (populateLayerOptions env parent options use)"
proof -
  have "keeps_locks Q v (use x y)" for Q x y using assms(3) [of Q "{}"] by simp
  moreover have "may_take v ContainerStore" using assms(2) by (rule may_take_later) (simp add: less_imp_le)
  ultimately show ?thesis
    unfolding populateLayerOptions_def using assms by (intro lock_intros keeps_getParentLayer) simp_all
qed

lemma keeps_PutLayer_locked [lock_intros]:
  "fst v LayerStore = (Writing, Writing) \<Longrightarrow> may_take v (ROLayerStore 0) \<Longrightarrow>
     keeps_locks P v (PutLayer_locked env now draws k parent names label rw options contents)"
  unfolding PutLayer_locked_def by (intro lock_intros keeps_populate) (simp_all add: image_iff)

lemma keeps_PutLayer_staged [lock_intros]:
  "fst v LayerStore = (Writing, Writing) \<Longrightarrow> may_take v (ROLayerStore 0) \<Longrightarrow>
     keeps_locks P v (PutLayer_staged env now draws k parent names rw options parentLayer contents)"
  unfolding PutLayer_staged_def Let_def by (intro lock_intros keeps_getParentLayer) (simp_all add: image_iff)

lemma keeps_PutLayer [lock_intros]: "all_free v \<Longrightarrow> keeps_locks any v (PutLayer env now draws k parent names label rw options diff staging)"
  unfolding PutLayer_def by (intro lock_intros keeps_populate) (simp_all add: image_iff)

lemma keeps_CreateLayer [lock_intros]: "all_free v \<Longrightarrow> keeps_locks any v (CreateLayer env now draws k parent names label rw options)"
  unfolding CreateLayer_def by (intro lock_intros)

lemma keeps_ApplyStagedLayer [lock_intros]: "all_free v \<Longrightarrow> keeps_locks any v (ApplyStagedLayer env now draws k parent names label rw options out)"
  unfolding ApplyStagedLayer_def by (intro lock_intros) simp_all

lemma keeps_PutAs [lock_intros]: "all_free v \<Longrightarrow> keeps_locks any v (PutAs env now k parent names info)"
  unfolding PutAs_def Let_def by (intro lock_intros keeps_getParentLayer) (simp_all add: image_iff)

lemma keeps_copy_big_data [lock_intros]:
  "i < ro_image_count v \<Longrightarrow> fst v (ROImageStore i) = (Reading, Reading) \<Longrightarrow> keeps_locks P v (copy_big_data (ro_image_access env i) k keys)"
  by (induction keys) (auto intro!: lock_intros)

lemma keeps_create_image [lock_intros]:
  "fst v ImageStore = (Writing, Writing) \<Longrightarrow> keeps_locks P v (create_image env now draws k names layer options others)"
  unfolding create_image_def by (intro lock_intros) simp_all

lemma keeps_CreateImage_locked [lock_intros]:
  "fst v ImageStore = (Writing, Writing) \<Longrightarrow> may_take v (ROImageStore 0) \<Longrightarrow>
     keeps_locks P v (CreateImage_locked env now draws k names layer metadata options)"
  unfolding CreateImage_locked_def Let_def
  by (intro lock_intros keeps_read_ro_images keeps_locate_image) (auto simp: image_iff)

lemma keeps_CreateImage [lock_intros]: "all_free v \<Longrightarrow> keeps_locks any v (CreateImage env now draws k names layer metadata options)"
  unfolding CreateImage_def Let_def by (intro lock_intros keeps_getParentLayer) simp_all

text \<open>The callers of \<open>imageTopLayerForMapping\<close> and \<open>getMaxSizeFromImage\<close> have locked every open layer store.\<close>

definition layers_ready :: "nat \<Rightarrow> lock_view \<Rightarrow> bool" where
  "layers_ready n v \<longleftrightarrow> fst v LayerStore = (Writing, Writing)
     \<and> (\<forall>i. i < n \<longrightarrow> i < ro_layer_count v \<longrightarrow> fst v (ROLayerStore i) = (Reading, Reading))"

lemma keeps_ready: "layers_ready n v \<Longrightarrow> keeps_locks (\<lambda>k. k = n) v m \<Longrightarrow> keeps_locks (\<lambda>k. k = n) v (guarded layers_locked m)"
  by (rule keeps_layers_locked) (simp_all add: layers_ready_def)

lemma keeps_imageTopLayerForMapping [lock_intros]:
  "layers_ready n v \<Longrightarrow> fst v ImageStore = (Writing, Writing) \<Longrightarrow>
     keeps_locks (\<lambda>k. k = n) v (imageTopLayerForMapping env now draws img local options)"
  unfolding imageTopLayerForMapping_def by (intro lock_intros keeps_ready) (simp_all add: layers_ready_def)

lemma keeps_getMaxSizeFromImage [lock_intros]:
  "layers_ready n v \<Longrightarrow> keeps_locks (\<lambda>k. k = n) v (getMaxSizeFromImage env now draws img)"
  unfolding getMaxSizeFromImage_def by (intro lock_intros keeps_ready) (simp_all add: layers_ready_def)

lemma keeps_auto_userns [lock_intros]:
  assumes "cimage \<noteq> None \<Longrightarrow> layers_ready n v" and "may_take v ContainerStore"
  shows "keeps_locks (\<lambda>k. k = n) v (auto_userns env now draws options cimage)"
proof -
  have "keeps_locks (\<lambda>k. k = n) v (\<lambda>w. case getAvailableIDs (se_user env) (se_autoUsernsUser env) (st_ids w) of
                     Inl e \<Rightarrow> (Inl e, w) | Inr (ids, us, gs) \<Rightarrow> (Inr (us, gs), w\<lparr>st_ids := ids\<rparr>))"
    by (auto simp: keeps_locks_def preserves_def split: sum.split)
  moreover have "keeps_locks (\<lambda>k. k = n) v (case cimage of
                Some img \<Rightarrow> if opt_Size options = 0
                             then op_then (getMaxSizeFromImage env now draws img) (\<lambda>n. op_return (Some (Inr n)))
                             else op_return None
              | None \<Rightarrow> op_return None)"
    using assms(1) by (cases cimage) (auto intro!: lock_intros)
  ultimately show ?thesis unfolding auto_userns_def using assms(2) by (intro keeps_then keeps_readContainerStore keeps_query_res)
qed

lemma keeps_container_maps [lock_intros]:
  "(cimage \<noteq> None \<Longrightarrow> layers_ready n v) \<Longrightarrow> may_take v ContainerStore \<Longrightarrow>
     keeps_locks (\<lambda>k. k = n) v (container_maps env now draws rq cimage)"
  unfolding container_maps_def by (intro lock_intros)

lemma keeps_container_layer [lock_intros]:
  assumes "fst v LayerStore = (Writing, Writing)" and "cimage \<noteq> None \<Longrightarrow> layers_ready n v \<and> fst v ImageStore = (Writing, Writing)"
  shows "keeps_locks (\<lambda>k. k = n) v (container_layer env now draws layer rq cimage maps)"
proof -
  have "keeps_locks (\<lambda>k. k = n) v (case cimage of
      Some (img, local) \<Rightarrow> if img_TopLayer img = '''' then op_return None
        else op_then (imageTopLayerForMapping env now draws' img local options) (\<lambda>l. op_return (Some l))
    | None \<Rightarrow> op_return None)" for draws' options
    using assms(2) by (cases cimage) (auto intro!: lock_intros)
  then show ?thesis
    unfolding container_layer_def Let_def by (intro keeps_then keeps_read keeps_prod keeps_query_res keeps_layers keeps_return) (simp_all add: assms(1))
qed

lemma keeps_container_sections [lock_intros]:
  "fst v LayerStore = (Writing, Writing) \<Longrightarrow> (cimage \<noteq> None \<Longrightarrow> layers_ready n v \<and> fst v ImageStore = (Writing, Writing)) \<Longrightarrow>
     may_take v ContainerStore \<Longrightarrow> keeps_locks (\<lambda>k. k = n) v (container_sections env now draws k names layer rq cimage maps)"
  unfolding container_sections_def container_record_def by (intro lock_intros) simp_all

text \<open>If an operation keeps the locks whatever the number of open layer stores is, it keeps them.\<close>

lemma keeps_each_count: "(\<And>n. keeps_locks (\<lambda>k. k = n) v m) \<Longrightarrow> keeps_locks P v m"
  by (auto simp: keeps_locks_def preserves_def)

lemma keeps_CreateContainer_image:
  assumes "all_free u" and v: "v = u \<or> v = set_mode UsernsLock (Writing, Writing) u"
  shows "keeps_locks P v (writing (layer_access env) (op_read ro_layers (\<lambda>is. reading_all (ro_layer_access env) is
    (writing (image_access env)
      (op_then (ask (image_access env) (query (\<lambda>s. image_Get s k))) (\<lambda>r.
         case r of
           Inr img \<Rightarrow> op_then (container_maps env now draws' rq (Some img)) (container_sections env now draws ident names layer rq (Some (img, True)))
         | Inl _ \<Rightarrow> op_read ro_images (\<lambda>is. locate_image env k is (\<lambda>_ img.
             op_then (container_maps env now draws' rq (Some img)) (container_sections env now draws ident names layer rq (Some (img, False))))
             (op_fail ErrImageUnknown))))))))"
  by (rule keeps_layers(4), use assms(1) v in force, rule keeps_read_ro_layers, intro keeps_read_ro_images lock_intros keeps_reading_all keeps_locate_image)
    (use assms(1) v in \<open>auto simp: layers_ready_def image_iff\<close>)

lemma keeps_CreateContainer [lock_intros]:
  assumes "all_free v"
  shows "keeps_locks any v (CreateContainer env now draws k names img layer metadata rq)"
  unfolding CreateContainer_def Let_def
proof (intro keeps_seq keeps_bothLayerStoreKinds keeps_with_userns keeps_if keeps_CreateContainer_image)
  have free: "keeps_locks any v' (op_then (container_maps env now draws' rq' None) (\<lambda>maps.
      writing (layer_access env) (container_sections env now draws k names layer rq' None maps)))"
    if "v' = v \<or> v' = set_mode UsernsLock (Writing, Writing) v" for v' draws' rq'
    by (rule keeps_each_count, intro lock_intros) (use assms that in auto)
  then show "keeps_locks any v (op_then (container_maps env now (draws 0) rq' None) (\<lambda>maps.
      writing (layer_access env) (container_sections env now draws k names layer rq' None maps)))" for rq' by simp
  show "keeps_locks any (set_mode UsernsLock (Writing, Writing) v) (op_then (container_maps env now (draws 0) rq' None) (\<lambda>maps.
      writing (layer_access env) (container_sections env now draws k names layer rq' None maps)))" for rq' using free by simp
qed (use assms in auto)

section \<open>Names, metadata and deletion\<close>

lemma keeps_SetMetadata [lock_intros]: "all_free v \<Longrightarrow> keeps_locks P v (SetMetadata env k metadata)"
  unfolding SetMetadata_def SetMetadata_locked_def by (intro lock_intros) simp_all

lemma keeps_layer_names [lock_intros]: "fst v LayerStore = (Writing, Writing) \<Longrightarrow> keeps_locks P v (layer_names env k names op)"
  unfolding layer_names_def by (intro lock_intros) simp_all

lemma keeps_pull_up [lock_intros]:
  "fst v ImageStore = (Writing, Writing) \<Longrightarrow> i < ro_image_count v \<Longrightarrow> fst v (ROImageStore i) = (Reading, Reading) \<Longrightarrow>
     keeps_locks P v (pull_up env now k names op i img)"
  unfolding pull_up_def by (intro lock_intros)

lemma keeps_container_names [lock_intros]:
  "fst v ContainerStore = (Writing, Writing) \<Longrightarrow> keeps_locks P v (container_names env k names op)"
  unfolding container_names_def by (intro lock_intros) simp_all

lemma keeps_image_names [lock_intros]:
  assumes "fst v ImageStore = (Writing, Writing)" and "may_take v (ROImageStore 0)"
  shows "keeps_locks P v (image_names env now k names op)"
proof -
  have "may_take v ContainerStore" using assms(2) by (rule may_take_later) (simp add: less_imp_le)
  then show ?thesis
    unfolding image_names_def by (intro keeps_read_ro_images lock_intros keeps_locate_image) (auto simp: image_iff assms)
qed

lemma keeps_updateNames [lock_intros]: "all_free v \<Longrightarrow> keeps_locks P v (store_updateNames env now k names op)"
  unfolding store_updateNames_def Let_def by (intro lock_intros) simp_all

lemma keeps_DeleteLayer_locked [lock_intros]:
  "fst v LayerStore = (Writing, Writing) \<Longrightarrow> fst v ImageStore = (Writing, Writing) \<Longrightarrow> fst v ContainerStore = (Writing, Writing) \<Longrightarrow>
     keeps_locks P v (DeleteLayer_locked env k)"
  unfolding DeleteLayer_locked_def Let_def by (intro lock_intros) simp_all

lemma keeps_DeleteLayer [lock_intros]: "all_free v \<Longrightarrow> keeps_locks P v (DeleteLayer env k)"
  unfolding DeleteLayer_def by (intro lock_intros) simp_all

lemma keeps_delete_from [lock_intros]:
  "fst v LayerStore = (Writing, Writing) \<Longrightarrow> fst v ImageStore = (Writing, Writing) \<Longrightarrow> fst v ContainerStore = (Writing, Writing) \<Longrightarrow>
     keeps_locks P v (delete_from env (image_access env) commit img)"
  unfolding delete_from_def Let_def by (intro lock_intros) simp_all

lemma keeps_delete_step [lock_intros]:
  "fst v LayerStore = (Writing, Writing) \<Longrightarrow> fst v ImageStore = (Writing, Writing) \<Longrightarrow> fst v ContainerStore = (Writing, Writing) \<Longrightarrow>
     (\<And>k acc. keeps_locks P v (use k acc)) \<Longrightarrow> keeps_locks P v (delete_step env commit (image_access env) k acc use)"
  unfolding delete_step_def by (intro lock_intros) simp_all

lemma keeps_layer_sizes [lock_intros]: "fst v LayerStore = (Writing, Writing) \<Longrightarrow> keeps_locks P v (layer_sizes env ls)"
  by (induction ls) (auto intro!: lock_intros)

lemma keeps_finish_deletion [lock_intros]:
  "fst v LayerStore = (Writing, Writing) \<Longrightarrow> keeps_locks P v (finish_deletion env commit withSize acc)"
  unfolding finish_deletion_def by (intro lock_intros) simp_all

text \<open>The additional image stores that can be written to.\<close>

definition extra_writable :: "lock_view \<Rightarrow> nat list" where
  "extra_writable v = snd (snd (snd (snd v)))"

lemma extra_writable_simps [simp]:
  "extra_writable (set_mode p m v) = extra_writable v" "extra_writable (lock_view w) = st_rwImages w"
  by (cases v; simp add: extra_writable_def set_mode_def lock_view_def)+

lemma keeps_read_rw_images:
  fixes f :: "nat list \<Rightarrow> ('d store, 'a) op"
  assumes "keeps_locks P v (f (extra_writable v))"
  shows "keeps_locks P v (op_read st_rwImages f)"
  using assms unfolding keeps_locks_def preserves_def op_read_def by (metis extra_writable_simps(2))

lemma keeps_deleteImage [lock_intros]:
  assumes "all_free v" and "extra_writable v = []"
  shows "keeps_locks P v (deleteImage env k commit withSize)"
proof -
  have "extra_writable (all_written v) = []" using assms(2) by (simp add: all_written_def)
  then have "keeps_locks P (all_written v) (op_read st_rwImages (\<lambda>is. delete_additional env commit is k' acc (finish_deletion env commit withSize)))"
    for k' acc by (intro keeps_read_rw_images) (simp add: lock_intros)
  then show ?thesis
    unfolding deleteImage_def deleteImage_locked_def using assms(1)
    by (intro keeps_and_cleanup keeps_writeToAllStores keeps_delete_step) simp_all
qed

lemma keeps_DeleteImage [lock_intros]: "all_free v \<Longrightarrow> extra_writable v = [] \<Longrightarrow> keeps_locks P v (DeleteImage env k commit)"
  unfolding DeleteImage_def by (intro lock_intros)

lemma keeps_remove_directories [lock_intros]: "keeps_locks P v remove_directories"
  unfolding keeps_locks_def preserves_def
proof (intro allI impI)
  fix w :: "'d store"
  assume w: "lock_view w = v \<and> P (st_roLayersOpen w)"
  obtain r w1 r2 w2 where run: "io_call w = (r, w1)" "io_call w1 = (r2, w2)" by (metis prod.exhaust)
  have "lock_view w2 = v \<and> P (st_roLayersOpen w2)"
    using w run keeps_io [of P v] unfolding keeps_locks_def preserves_def by (metis snd_conv)
  then show "lock_view (snd (remove_directories w)) = v \<and> P (st_roLayersOpen (snd (remove_directories w)))"
    using run by (simp add: remove_directories_def split: sum.split)
qed

lemma keeps_DeleteContainer [lock_intros]: "all_free v \<Longrightarrow> keeps_locks P v (DeleteContainer env k)"
  unfolding DeleteContainer_def DeleteContainer_locked_def by (intro lock_intros) simp_all

lemma keeps_Delete [lock_intros]: "all_free v \<Longrightarrow> keeps_locks P v (Delete env k)"
  unfolding Delete_def Delete_locked_def by (intro lock_intros) simp_all

lemma keeps_Wipe [lock_intros]: "all_free v \<Longrightarrow> keeps_locks P v (store_Wipe env cs is ls)"
  unfolding store_Wipe_def by (intro lock_intros) simp_all

lemma keeps_GarbageCollect [lock_intros]: "all_free v \<Longrightarrow> keeps_locks P v (store_GarbageCollect env cs is ls)"
  unfolding store_GarbageCollect_def by (intro lock_intros) simp_all

section \<open>Queries, data items and mounting\<close>

lemma keeps_or_else [lock_intros]: "keeps_locks P v m \<Longrightarrow> keeps_locks P v n \<Longrightarrow> keeps_locks P v (or_else m n)"
  and keeps_collected [lock_intros]: "keeps_locks P v c \<Longrightarrow> keeps_locks P v (collected c)"
  and keeps_or_missing [lock_intros]: "keeps_locks P v d \<Longrightarrow> keeps_locks P v (or_missing e d)"
  and keeps_valid_digest [lock_intros]: "keeps_locks P v n \<Longrightarrow> keeps_locks P v (valid_digest env digest n)"
  unfolding or_else_def collected_def or_missing_def valid_digest_def by (intro lock_intros; simp)+

lemma keeps_in_containers [lock_intros]: "all_free v \<Longrightarrow> keeps_locks P v (in_containers env fn)"
  unfolding in_containers_def by (intro lock_intros) simp_all

lemma keeps_read_images_from [lock_intros]:
  "b \<le> ro_image_count v \<Longrightarrow> may_take v (ROImageStore a) \<Longrightarrow> fst v ImageStore = (Reading, Reading) \<Longrightarrow> keeps_locks P v (read_images env k [a ..< b])"
proof (induction "b - a" arbitrary: a v)
  case (Suc n)
  then have "a < b" by simp
  have "may_take v (ROImageStore (Suc a))" using may_take_Suc Suc.prems(2) by blast
  then have "keeps_locks P (set_mode (ROImageStore a) (Reading, Reading) v) (read_images env k [Suc a ..< b])"
    using Suc.hyps Suc.prems(1,3) by (intro Suc.hyps(1)) simp_all
  then show ?case
    unfolding upt_cons [OF \<open>a < b\<close>] read_images.simps using Suc.prems \<open>a < b\<close> by (intro lock_intros) simp_all
qed (simp add: lock_intros)

lemma keeps_lookups [lock_intros]:
  assumes "all_free v"
  shows "keeps_locks any v (Lookup env k)" "keeps_locks any v (Names env k)" "keeps_locks any v (Metadata env k)"
    "keeps_locks any v (store_Layer env k)" "keeps_locks any v (LayerSize env k)" "keeps_locks any v (store_DiffSize env from to)"
    "keeps_locks any v (store_Layers env)" "keeps_locks any v (layersByMappedDigest env f digest)"
    "keeps_locks any v (ListLayerBigData env k)" "keeps_locks any v (LayerBigData env k key)"
  unfolding Lookup_def Names_def Metadata_def store_Layer_def LayerSize_def store_DiffSize_def store_Layers_def layersByMappedDigest_def
    ListLayerBigData_def LayerBigData_def
  by (intro lock_intros; simp add: assms)+

lemma keeps_image_lookups [lock_intros]:
  assumes "all_free v"
  shows "keeps_locks P v (store_Images env)" "keeps_locks P v (ImagesByDigest env digest)" "keeps_locks P v (ListImageBigData env k)"
    "keeps_locks P v (ImageBigDataSize env k key)" "keeps_locks P v (ImageBigDataDigest env k key)" "keeps_locks P v (ImageBigData env k key)"
    "keeps_locks P v (ImageDirectory env root k)"
  unfolding store_Images_def ImagesByDigest_def ListImageBigData_def ImageBigDataSize_def ImageBigDataDigest_def ImageBigData_def
    ImageDirectory_def
  by (intro lock_intros; simp add: assms)+

lemma keeps_container_lookups [lock_intros]:
  assumes "all_free v"
  shows "keeps_locks P v (store_Container env k)" "keeps_locks P v (ContainerLayerID env k)" "keeps_locks P v (store_Containers env)"
    "keeps_locks P v (ListContainerBigData env k)" "keeps_locks P v (ContainerBigDataSize env k key)"
    "keeps_locks P v (ContainerBigDataDigest env k key)" "keeps_locks P v (ContainerBigData env k key)"
    "keeps_locks P v (SetContainerBigData env k key data)" "keeps_locks P v (ContainerDirectory env root k)"
  unfolding store_Container_def ContainerLayerID_def store_Containers_def ListContainerBigData_def ContainerBigDataSize_def
    ContainerBigDataDigest_def ContainerBigData_def SetContainerBigData_def ContainerDirectory_def
  by (intro lock_intros; simp add: assms)+

lemma keeps_store_Image [lock_intros]: "all_free v \<Longrightarrow> keeps_locks P v (store_Image env k)"
  unfolding store_Image_def by (intro keeps_read_ro_images lock_intros) simp_all

lemma keeps_more_lookups [lock_intros]:
  assumes "all_free v"
  shows "keeps_locks any v (store_LayersByCompressedDigest env digest)" "keeps_locks any v (store_LayersByUncompressedDigest env digest)"
    "keeps_locks any v (store_LayersByTOCDigest env digest)" "keeps_locks any v (ImagesByTopLayer env k)"
    "keeps_locks any v (ContainerByLayer env k)" "keeps_locks P v (SetLayerBigData env k key data)"
    "keeps_locks P v (SetImageBigData env k key data dm)"
  unfolding store_LayersByCompressedDigest_def store_LayersByUncompressedDigest_def store_LayersByTOCDigest_def ImagesByTopLayer_def
    ContainerByLayer_def SetLayerBigData_def SetImageBigData_def
  by (intro lock_intros; simp add: assms)+

lemma keeps_store_Exists [lock_intros]:
  assumes "all_free v"
  shows "keeps_locks any v (store_Exists env k)"
  unfolding store_Exists_def by (rule keeps_recover [where f = "\<lambda>b. b" and g = "\<lambda>_. False"], intro lock_intros) (simp_all add: assms)

lemma keeps_layer_of [lock_intros]: "all_free v \<Longrightarrow> keeps_locks P v (layer_of env k)"
  unfolding layer_of_def by (rule keeps_recover [where f = "\<lambda>b. b"], intro lock_intros)

lemma keeps_unmounts [lock_intros]:
  assumes "all_free v"
  shows "keeps_locks P v (store_Mounted env k)" "keeps_locks P v (Unmount env k force)" "keeps_locks P v (UnmountImage env k force)"
  unfolding store_Mounted_def Unmount_def UnmountImage_def by (intro lock_intros; simp add: assms)+

lemma keeps_Mount_locked [lock_intros]:
  assumes "fst v LayerStore = (Writing, Writing)" and "may_take v (ROLayerStore 0)"
  shows "keeps_locks P v (Mount_locked env k options label maps)"
proof -
  have "keeps_locks Q v (op_each (\<lambda>i.
      op_then (reading (ro_layer_access env i) (ask (ro_layer_access env i) (query (\<lambda>s. layer_Exists s k)))) (\<lambda>b.
        if b then op_fail ErrStoreIsReadOnly else op_return ())) [0 ..< min n (ro_layer_count v)])" for Q n
    unfolding keeps_locks_def
  proof (rule preserves_each)
    fix i
    assume "i \<in> set [0 ..< min n (ro_layer_count v)]"
    then have "i < ro_layer_count v" by simp
    moreover have "may_take v (ROLayerStore i)"
      using assms(2) by (rule may_take_later) (cases i; simp add: less_imp_le)
    ultimately show "preserves (\<lambda>w. lock_view w = v \<and> Q (st_roLayersOpen w))
        (op_then (reading (ro_layer_access env i) (ask (ro_layer_access env i) (query (\<lambda>s. layer_Exists s k)))) (\<lambda>b.
          if b then op_fail ErrStoreIsReadOnly else op_return ()))"
      unfolding keeps_locks_def [symmetric] by (intro lock_intros) simp_all
  qed
  then show ?thesis
    unfolding Mount_locked_def using assms(1)
    by (intro keeps_then keeps_if keeps_layers keeps_fail keeps_read_ro_layers) simp_all
qed

lemma keeps_store_Mount [lock_intros]:
  fixes env :: "'d store_env"
  assumes free: "all_free v"
  shows "keeps_locks any v (store_Mount env k label)"
  unfolding keeps_locks_def preserves_def
proof (intro allI impI)
  fix w :: "'d store"
  assume w: "lock_view w = v \<and> any (st_roLayersOpen w)"
  obtain r w1 where c: "store_Container env k w = (r, w1)" by fastforce
  have w1: "lock_view w1 = v \<and> any (st_roLayersOpen w1)"
    using keeps_container_lookups(1) [OF free, of any env k] w c unfolding keeps_locks_def preserves_def by (metis snd_conv)
  have "keeps_locks any v (usingGraphDriver env (op_seq (bothLayerStoreKindsLocked env)
           (writing (layer_access env) (Mount_locked env layer options label maps))))" for layer options maps
    using free by (intro lock_intros) simp_all
  then show "lock_view (snd (store_Mount env k label w)) = v \<and> any (st_roLayersOpen (snd (store_Mount env k label w)))"
    using w1 c by (auto simp: store_Mount_def keeps_locks_def preserves_def split: prod.split)
qed

lemma keeps_MountImage_locked [lock_intros]:
  "layers_ready n v \<Longrightarrow> fst v ImageStore = (Writing, Writing) \<Longrightarrow>
     keeps_locks (\<lambda>k. k = n) v (MountImage_locked env now draws options label local img)"
  unfolding MountImage_locked_def by (intro lock_intros) (simp_all add: layers_ready_def)

lemma keeps_MountImage_stores:
  assumes "all_free u" and v: "v = set_mode GraphLock (Writing, Writing) u"
  shows "keeps_locks P v (writing (layer_access env) (op_read ro_layers (\<lambda>is. reading_all (ro_layer_access env) is
          (writing (image_access env)
            (op_then (ask (image_access env) (query (\<lambda>s. image_Get s k))) (\<lambda>r.
               case r of
                 Inr img \<Rightarrow> MountImage_locked env now draws options label True img
               | Inl _ \<Rightarrow> op_read ro_images (\<lambda>is. locate_image env k is
                   (\<lambda>_. MountImage_locked env now draws options label False) (op_fail ErrImageUnknown))))))))"
  by (rule keeps_layers(4), use assms(1) v in force, rule keeps_read_ro_layers, intro keeps_read_ro_images lock_intros
      keeps_reading_all keeps_locate_image)
    (use assms(1) v in \<open>auto simp: layers_ready_def image_iff\<close>)

lemma keeps_MountImage [lock_intros]: "all_free v \<Longrightarrow> keeps_locks any v (MountImage env now draws k options label)"
  unfolding MountImage_def
  by (rule keeps_if keeps_fail keeps_usingGraphDriver keeps_seq keeps_both keeps_MountImage_stores | simp)+

lemma keeps_Shutdown [lock_intros]:
  assumes "all_free v"
  shows "keeps_locks P v (Shutdown env force)"
proof -
  have "keeps_locks P u (\<lambda>w. case op_seq RecordWrite (zoom (layer_access env) (locked_call (drive (se_Cleanup env)))) w of
      (Inl e, w1) \<Rightarrow> (Inr (ms, Some e), w1) | (Inr _, w1) \<Rightarrow> (Inr (ms, None), w1))" for u ms
    by (rule keeps_recover [where f = "\<lambda>_. (ms, None)" and g = "\<lambda>e. (ms, Some e)"], intro lock_intros lay_drive)
  then show ?thesis
    unfolding Shutdown_def using assms by (intro lock_intros) simp_all
qed

end
