(* ===== verification/Storage_Size.thy ===== *)
theory Storage_Size
  imports Storage_Read
begin

text \<open>
  \<open>storage/store.go\<close>: sizes of images and containers, combined lists, deduplication, the files in the directories
  of a container and the operations on the contents of a layer. The loops over chains of layers keep
  track of what they have visited, so they end even when the parents form a cycle.
\<close>

section \<open>Contents of layers\<close>

definition store_ApplyDiff :: "'d store_env \<Rightarrow> string \<Rightarrow> applyDiffResult \<Rightarrow> string \<Rightarrow> ('d store, int) op" where
  "store_ApplyDiff env to result tarSplit =
     writeToLayerStore env (op_then (ask (layer_access env) (query (\<lambda>s. layer_Exists s to))) (\<lambda>known.
       if known then change (layer_access env) (applyDiffWithOptions (se_driver env) to result tarSplit) else op_fail ErrLayerUnknown))"

text \<open>
  \<open>Changes\<close>: the layer store is locked for writing and released before the additional ones are asked. What the
  driver does is \<open>changes\<close>, given the IDs of the layers.
\<close>

definition layer_Changes :: "(string \<Rightarrow> string \<Rightarrow> ('d, 'a) op) \<Rightarrow> string \<Rightarrow> string \<Rightarrow> ('d layerStore, 'a) op" where
  "layer_Changes changes from to =
     op_then (query (\<lambda>s. findParentAndLayer s from to)) (\<lambda>r.
       case r of Inl _ \<Rightarrow> op_fail ErrLayerUnknown | Inr (fromID, toID, _, _) \<Rightarrow> drive (changes toID fromID))"

fun changes_in :: "'d store_env \<Rightarrow> (string \<Rightarrow> string \<Rightarrow> ('d, 'a) op) \<Rightarrow> string \<Rightarrow> string \<Rightarrow> nat list \<Rightarrow> ('d store, 'a) op" where
  "changes_in env changes from to [] = op_fail ErrLayerUnknown"
| "changes_in env changes from to (i # is) =
     or_else (reading (ro_layer_access env i) (ask (ro_layer_access env i) (if_exists (\<lambda>s. layer_Exists s to) (layer_Changes changes from to) ())))
       (changes_in env changes from to is)"

definition store_Changes :: "'d store_env \<Rightarrow> (string \<Rightarrow> string \<Rightarrow> ('d, 'a) op) \<Rightarrow> string \<Rightarrow> string \<Rightarrow> ('d store, 'a) op" where
  "store_Changes env changes from to =
     usingGraphDriver env (op_seq (bothLayerStoreKindsLocked env)
       (or_else (writing (layer_access env) (ask (layer_access env) (if_exists (\<lambda>s. layer_Exists s to) (layer_Changes changes from to) ())))
         (op_read ro_layers (changes_in env changes from to))))"

section \<open>Owners of the parents of a mount point\<close>

text \<open>
  \<open>ParentOwners\<close>: \<open>exists\<close> tells whether the mount point still exists, and \<open>dirs\<close> has the owners of each directory
  above it, following links and not, up to the first that cannot be read, \<open>None\<close>. Empty mappings are \<open>nil\<close>.
\<close>

type_synonym owners = "(int \<times> int) \<times> (int \<times> int)"

definition mappings_of :: "Layer \<Rightarrow> IDMappings" where
  "mappings_of l =
     \<lparr>map_uids = (if ly_UIDMap l = [] then None else Some (ly_UIDMap l)), map_gids = (if ly_GIDMap l = [] then None else Some (ly_GIDMap l))\<rparr>"

fun unmapped_owners :: "IDMappings \<Rightarrow> int \<times> int \<Rightarrow> owners option list \<Rightarrow> int list \<times> int list \<Rightarrow> (int list \<times> int list) res" where
  "unmapped_owners m root [] found = Inr found"
| "unmapped_owners m root (None # ds) found = Inl (ErrFmt ''read directory ownership'')"
| "unmapped_owners m (rootuid, rootgid) (Some ((suid, sgid), (luid, lgid)) # ds) (us, gs) =
     (let mapped = (\<lambda>u g. case ToContainer m \<lparr>UID = u, GID = g\<rparr> of Inl _ \<Rightarrow> False | Inr _ \<Rightarrow> True)
      in unmapped_owners m (rootuid, rootgid) ds
           (us @ filter (\<lambda>u. \<not> mapped u rootgid) [suid, luid], gs @ filter (\<lambda>g. \<not> mapped rootuid g) [sgid, lgid]))"

definition ParentOwners :: "(string \<Rightarrow> bool) \<Rightarrow> (string \<Rightarrow> owners option list) \<Rightarrow> 'd layerStore \<Rightarrow> string \<Rightarrow> (int list \<times> int list) res" where
  "ParentOwners exists dirs s k =
     (if \<not> IsReadWrite s then Inl ErrStoreIsReadOnly
      else case layer_lookup s k of
             None \<Rightarrow> Inl ErrLayerUnknown
           | Some p \<Rightarrow>
               let l = l_heap s p
               in if ly_UIDMap l = [] \<and> ly_GIDMap l = [] then Inr ([], [])
                  else if ly_MountPoint l = '''' \<or> \<not> exists (ly_MountPoint l) then Inl ErrLayerNotMounted
                  else and_then (GetRootUIDGID (map_uids (mappings_of l)) (map_gids (mappings_of l))) (\<lambda>root.
                       and_then (unmapped_owners (mappings_of l) root (dirs (ly_MountPoint l)) ([], [])) (\<lambda>(us, gs).
                       Inr (sort (remdups us), sort (remdups gs)))))"

definition LayerParentOwners ::
  "'d store_env \<Rightarrow> (string \<Rightarrow> bool) \<Rightarrow> (string \<Rightarrow> owners option list) \<Rightarrow> string \<Rightarrow> ('d store, int list \<times> int list) op" where
  "LayerParentOwners env exists dirs k =
     readPrimaryLayerStore env (ask (layer_access env) (query_res (\<lambda>s.
       if layer_Exists s k then ParentOwners exists dirs s k else Inl ErrLayerUnknown)))"

definition ContainerParentOwners ::
  "'d store_env \<Rightarrow> (string \<Rightarrow> bool) \<Rightarrow> (string \<Rightarrow> owners option list) \<Rightarrow> string \<Rightarrow> ('d store, int list \<times> int list) op" where
  "ContainerParentOwners env exists dirs k =
     readPrimaryLayerStore env (reading (container_access env)
       (op_then (ask (container_access env) (query_res (\<lambda>s. container_Get s k))) (\<lambda>c.
          ask (layer_access env) (query_res (\<lambda>s.
            if layer_Exists s (ctr_LayerID c) then ParentOwners exists dirs s (ctr_LayerID c) else Inl ErrLayerUnknown)))))"

section \<open>Sizes\<close>

text \<open>
  \<open>ImageSize\<close> visits the layers of an image once each. \<open>find_layer\<close> gives a layer and the position of its store; the result
  has the layers visited, and whether every layer was there.
\<close>

partial_function (option) size_walk ::
  "(string \<Rightarrow> (nat \<times> Layer) option) \<Rightarrow> string list \<Rightarrow> string list \<Rightarrow> (nat \<times> Layer) list \<Rightarrow> ((nat \<times> Layer) list \<times> bool) option" where
  "size_walk find_layer queue visited found =
     (case queue of
        [] \<Rightarrow> Some (found, True)
      | k # ks \<Rightarrow>
          if k \<in> set visited then size_walk find_layer ks visited found
          else (case find_layer k of
                  None \<Rightarrow> Some (found, False)
                | Some (i, l) \<Rightarrow>
                    size_walk find_layer (if ly_Parent l = '''' then ks else ks @ [ly_Parent l]) (k # visited) (found @ [(i, l)])))"

fun find_in :: "'d layerStore list \<Rightarrow> nat \<Rightarrow> string \<Rightarrow> (nat \<times> Layer) option" where
  "find_in [] i k = None"
| "find_in (s # ss) i k = (case layer_Get s k of Inr l \<Rightarrow> Some (i, l) | Inl _ \<Rightarrow> find_in ss (Suc i) k)"

text \<open>The size of a layer of the walk; position 0 is the layer store, \<open>Suc i\<close> an additional one.\<close>

definition walked_size :: "'d store_env \<Rightarrow> nat \<times> Layer \<Rightarrow> ('d store, int) op" where
  "walked_size env v =
     (case v of (i, l) \<Rightarrow>
        if ly_UncompressedDigest l = '''' \<or> ly_UncompressedSize l = - 1
        then (case i of 0 \<Rightarrow> ask (layer_access env) (layer_DiffSize env '''' (ly_ID l))
              | Suc j \<Rightarrow> ask (ro_layer_access env j) (layer_DiffSize env '''' (ly_ID l)))
        else op_return (ly_UncompressedSize l))"

fun sum_sizes :: "('a \<Rightarrow> ('w, int) op) \<Rightarrow> 'a list \<Rightarrow> int \<Rightarrow> ('w, int) op" where
  "sum_sizes f [] n = op_return n"
| "sum_sizes f (x # xs) n = op_then (f x) (\<lambda>m. sum_sizes f xs (n + m))"

definition ImageSize_locked :: "'d store_env \<Rightarrow> string \<Rightarrow> ('d store, imageStore) access \<Rightarrow> Image \<Rightarrow> ('d store, int) op" where
  "ImageSize_locked env k a img =
     op_read (\<lambda>w. size_walk (find_in (all_layers w) 0) (filter (\<lambda>l. l \<noteq> '''') (img_TopLayer img # img_MappedTopLayers img)) [] []) (\<lambda>walk.
       case walk of
         None \<Rightarrow> op_fail (Panic ''endless chain of layers'')
       | Some (visited, complete) \<Rightarrow>
           op_then (sum_sizes (walked_size env) visited 0) (\<lambda>size.
             if \<not> complete then op_fail ErrLayerUnknown
             else op_then (ask a (query_res (\<lambda>s. image_GetBigDataNames s k))) (\<lambda>names.
                  sum_sizes (\<lambda>key. ask a (image_BigDataSize k key)) names size)))"

definition ImageSize :: "'d store_env \<Rightarrow> string \<Rightarrow> ('d store, int) op" where
  "ImageSize env k =
     op_seq (bothLayerStoreKinds env)
       (reading (layer_access env) (op_read ro_layers (\<lambda>is. reading_all (ro_layer_access env) is
         (reading (image_access env)
           (op_then (ask (image_access env) (query (\<lambda>s. image_Get s k))) (\<lambda>r.
              case r of
                Inr img \<Rightarrow> ImageSize_locked env k (image_access env) img
              | Inl _ \<Rightarrow> op_read ro_images (\<lambda>js. locate_image env k js (\<lambda>j img. ImageSize_locked env k (ro_image_access env j) img)
                  (op_fail ErrImageUnknown))))))))"

text \<open>\<open>ContainerSize\<close>; the sizes of the two directories are the arguments \<open>csize\<close> and \<open>rsize\<close>, which may fail.\<close>

definition ContainerSize_locked :: "'d store_env \<Rightarrow> int res \<Rightarrow> int res \<Rightarrow> string \<Rightarrow> ('d store, int) op" where
  "ContainerSize_locked env csize rsize k =
     op_then (ask (container_access env) (query_res (\<lambda>s. container_Get s k))) (\<lambda>c.
     op_then (op_read (\<lambda>w. find_in (all_layers w) 0 (ctr_LayerID c)) (\<lambda>r.
         case r of
           None \<Rightarrow> op_fail ErrLayerUnknown
         | Some (0, l) \<Rightarrow> ask (layer_access env) (layer_DiffSize env '''' (ly_ID l))
         | Some (Suc j, l) \<Rightarrow> ask (ro_layer_access env j) (layer_DiffSize env '''' (ly_ID l)))) (\<lambda>size.
     op_then (ask (container_access env) (query_res (\<lambda>s. container_GetBigDataNames s k))) (\<lambda>names.
     op_then (sum_sizes (\<lambda>key. change (container_access env) (container_BigDataSize (FromBytes (se_digests env)) k key)) names size) (\<lambda>size'.
     query_res (\<lambda>_. and_then csize (\<lambda>n. and_then rsize (\<lambda>m. Inr (size' + n + m))))))))"

definition ContainerSize :: "'d store_env \<Rightarrow> string \<Rightarrow> int res \<Rightarrow> int res \<Rightarrow> string \<Rightarrow> ('d store, int) op" where
  "ContainerSize env root csize rsize k =
     op_seq (bothLayerStoreKinds env)
       (reading (layer_access env) (op_read ro_layers (\<lambda>is. reading_all (ro_layer_access env) is
         (op_seq (ContainerDirectory env root k)
         (op_seq (ContainerDirectory env root k)
         (writeToContainerStore env (ContainerSize_locked env csize rsize k)))))))"

section \<open>Lists and deduplication\<close>

text \<open>\<open>MultiList\<close>: the stores stay locked until the end.\<close>

fun listing :: "(nat \<Rightarrow> ('d store, 's) access) \<Rightarrow> ('s \<Rightarrow> 'a list) \<Rightarrow> nat list \<Rightarrow> 'a list \<Rightarrow> ('a list \<Rightarrow> ('d store, 'b) op) \<Rightarrow> ('d store, 'b) op" where
  "listing acc f [] found use = use found"
| "listing acc f (i # is) found use =
     reading (acc i) (op_then (ask (acc i) (query f)) (\<lambda>xs. listing acc f is (found @ xs) use))"

definition multi_containers :: "'d store_env \<Rightarrow> bool \<Rightarrow> Layer list \<Rightarrow> Image list \<Rightarrow> ('d store, Layer list \<times> Image list \<times> Container list) op" where
  "multi_containers env wanted layers images =
     (if wanted then op_then (readContainerStore env (query container_Containers)) (\<lambda>cs. op_return (layers, images, cs))
      else op_return (layers, images, []))"

definition multi_images :: "'d store_env \<Rightarrow> bool \<Rightarrow> bool \<Rightarrow> Layer list \<Rightarrow> ('d store, Layer list \<times> Image list \<times> Container list) op" where
  "multi_images env images containers layers =
     (if images
      then reading (image_access env) (op_then (ask (image_access env) (query image_Images)) (\<lambda>found.
             op_read ro_images (\<lambda>is. listing (ro_image_access env) image_Images is found (multi_containers env containers layers))))
      else multi_containers env containers layers [])"

definition MultiList :: "'d store_env \<Rightarrow> bool \<Rightarrow> bool \<Rightarrow> bool \<Rightarrow> ('d store, Layer list \<times> Image list \<times> Container list) op" where
  "MultiList env images layers containers =
     (if layers
      then op_seq (bothLayerStoreKinds env)
             (reading (layer_access env) (op_then (ask (layer_access env) (query layer_Layers)) (\<lambda>found.
                op_read ro_layers (\<lambda>is. listing (ro_layer_access env) layer_Layers is found (multi_images env images containers)))))
      else multi_images env images containers [])"

text \<open>\<open>Dedup\<close>: the layers of all images; what the driver does with them is \<open>dedup\<close>.\<close>

partial_function (option) dedup_chain :: "'d layerStore \<Rightarrow> string list \<Rightarrow> string \<Rightarrow> string list res option" where
  "dedup_chain s seen cur =
     (if cur = '''' \<or> cur \<in> set seen then Some (Inr seen)
      else (case layer_Get s cur of
              Inl e \<Rightarrow> Some (if e = ErrLayerUnknown then Inr seen else Inl e)
            | Inr l \<Rightarrow> dedup_chain s (cur # seen) (ly_Parent l)))"

fun dedup_layers :: "'d layerStore \<Rightarrow> string list \<Rightarrow> string list \<Rightarrow> string list res" where
  "dedup_layers s seen [] = Inr seen"
| "dedup_layers s seen (k # ks) =
     (case dedup_chain s seen k of
        None \<Rightarrow> Inl (Panic ''endless chain of layers'')
      | Some (Inl e) \<Rightarrow> Inl e
      | Some (Inr seen') \<Rightarrow> dedup_layers s seen' ks)"

definition Dedup :: "'d store_env \<Rightarrow> (string list \<Rightarrow> ('d, 'a) op) \<Rightarrow> ('d store, 'a) op" where
  "Dedup env dedup =
     op_then (store_Images env) (\<lambda>imgs.
       writeToLayerStore env
         (op_then (ask (layer_access env) (query_res (\<lambda>s. dedup_layers s [] (concat (map (\<lambda>i. img_TopLayer i # img_MappedTopLayers i) imgs)))))
           (\<lambda>layers. change (layer_access env) (drive (dedup layers)))))"

section \<open>Files of a container\<close>

definition SetContainerDirectoryFile :: "'d store_env \<Rightarrow> string \<Rightarrow> string \<Rightarrow> ('d store, unit) op" where
  "SetContainerDirectoryFile env root k = op_seq (ContainerDirectory env root k) (op_seq io_call io_call)"

definition FromContainerDirectory :: "'d store_env \<Rightarrow> (string \<Rightarrow> string res) \<Rightarrow> string \<Rightarrow> string \<Rightarrow> string \<Rightarrow> ('d store, string) op" where
  "FromContainerDirectory env contents root k file =
     op_then (ContainerDirectory env root k) (\<lambda>dir. query_res (\<lambda>_. contents (dir @ ''/'' @ file)))"

section \<open>The walks end\<close>

text \<open>
  Every chain of layers is walked in finitely many steps, as there are finitely many parents, whatever
  the parents are.
\<close>

lemma size_walk_steps:
  "size_walk find_layer [] visited found = Some (found, True)"
  "k \<in> set visited \<Longrightarrow> size_walk find_layer (k # ks) visited found = size_walk find_layer ks visited found"
  "k \<notin> set visited \<Longrightarrow> find_layer k = None \<Longrightarrow> size_walk find_layer (k # ks) visited found = Some (found, False)"
  "k \<notin> set visited \<Longrightarrow> find_layer k = Some (i, l) \<Longrightarrow> size_walk find_layer (k # ks) visited found =
     size_walk find_layer (if ly_Parent l = '''' then ks else ks @ [ly_Parent l]) (k # visited) (found @ [(i, l)])"
  by (subst size_walk.simps; simp)+

lemma size_walk_ends:
  assumes "finite F" and closed: "\<And>k i l. find_layer k = Some (i, l) \<Longrightarrow> ly_Parent l = '''' \<or> ly_Parent l \<in> F" and "set queue \<subseteq> F"
  shows "\<exists>r. size_walk find_layer queue visited found = Some r"
  using assms(3)
proof (induction "card (F - set visited)" arbitrary: queue visited found rule: less_induct)
  case less
  note visit = less.hyps
  show ?case
    using less.prems
  proof (induction queue)
    case Nil
    then show ?case by (intro exI) (rule size_walk_steps)
  next
    case (Cons k ks)
    consider "k \<in> set visited" | "k \<notin> set visited" "find_layer k = None" | i l where "k \<notin> set visited" "find_layer k = Some (i, l)"
      by fastforce
    then show ?case
    proof cases
      case 3
      have "card (F - set (k # visited)) < card (F - set visited)"
        using assms(1) 3(1) Cons.prems by (intro psubset_card_mono) auto
      then have "\<exists>r. size_walk find_layer (if ly_Parent l = '''' then ks else ks @ [ly_Parent l]) (k # visited) (found @ [(i, l)]) = Some r"
        using closed [OF 3(2)] Cons.prems by (intro visit) auto
      then show ?thesis using size_walk_steps(4) [of k visited find_layer i l ks found] 3 by metis
    next
      case 2
      then show ?thesis using size_walk_steps(3) [of k visited find_layer ks found] by metis
    next
      case 1
      then show ?thesis using Cons by (simp only: size_walk_steps) simp
    qed
  qed
qed

lemma dedup_chain_ends:
  assumes "finite F" and closed: "\<And>k l. layer_Get s k = Inr l \<Longrightarrow> ly_Parent l = '''' \<or> ly_Parent l \<in> F" and "cur = '''' \<or> cur \<in> F"
  shows "\<exists>seen'. dedup_chain s seen cur = Some (Inr seen')"
  using assms(3)
proof (induction "card (F - set seen)" arbitrary: seen cur rule: less_induct)
  case less
  show ?case
  proof (cases "cur = '''' \<or> cur \<in> set seen \<or> (\<exists>e. layer_Get s cur = Inl e)")
    case False
    then obtain l where l: "layer_Get s cur = Inr l" by (cases "layer_Get s cur") auto
    have "card (F - set (cur # seen)) < card (F - set seen)"
      using assms(1) False less.prems by (intro psubset_card_mono) auto
    from less.hyps [OF this closed [OF l]] show ?thesis using False l by (subst dedup_chain.simps) simp
  qed (subst dedup_chain.simps; auto simp: layer_Get_def split: option.splits)
qed

lemma layer_Get_listed: "layer_ok s \<Longrightarrow> layer_Get s k = Inr l \<Longrightarrow> l \<in> set (layer_Layers s)"
  by (auto simp: layer_Get_def layer_Layers_def dest: layers.find_mem split: option.splits)

lemma find_in_Some:
  "find_in ss i k = Some (j, l) \<Longrightarrow> i \<le> j \<and> j < i + length ss \<and> (\<exists>s \<in> set ss. layer_Get s k = Inr l)"
proof (induction ss arbitrary: i)
  case (Cons s ss)
  then show ?case by (cases "layer_Get s k") (auto dest: Cons.IH)
qed simp

text \<open>
  C37: The loop of \<open>ImageSize\<close> over the layers of an image ends, whatever the layers' parents are, also if they form
  a cycle.
\<close>

theorem ImageSize_walk_ends:
  assumes "\<forall>s \<in> set stores. layer_ok s"
  shows "\<exists>visited complete. size_walk (find_in stores 0) queue [] [] = Some (visited, complete)"
proof -
  let ?F = "set queue \<union> ly_Parent ` (\<Union>s \<in> set stores. set (layer_Layers s))"
  have "\<exists>r. size_walk (find_in stores 0) queue [] [] = Some r"
  proof (rule size_walk_ends [where F = ?F])
    fix k i l
    assume "find_in stores 0 k = Some (i, l)"
    then obtain s where s: "s \<in> set stores" "layer_Get s k = Inr l" using find_in_Some by blast
    then have "l \<in> set (layer_Layers s)" using layer_Get_listed assms by blast
    with s(1) show "ly_Parent l = '''' \<or> ly_Parent l \<in> ?F" by blast
  qed auto
  then show ?thesis by auto
qed

theorem ImageSize_walk_ends_witness:
  "\<exists>visited complete. size_walk (find_in [sample_layers] 0) [''a1''] [] [] = Some (visited, complete)"
  by (rule ImageSize_walk_ends) (simp add: layer_reach_ok [OF sample_layers_reach empty_layers_ok])

text \<open>\<open>Dedup\<close> collects the layers of all images, also if the layers' parents form a cycle.\<close>

lemma Dedup_walk_ends:
  assumes "layer_ok s"
  shows "\<exists>layers. dedup_layers s seen tops = Inr layers"
proof (induction tops arbitrary: seen)
  case (Cons k ks)
  have "\<exists>seen'. dedup_chain s seen k = Some (Inr seen')"
    by (rule dedup_chain_ends [where F = "insert k (ly_Parent ` set (layer_Layers s))"]) (use layer_Get_listed [OF assms] in auto)
  then show ?case using Cons.IH by auto
qed simp

end
