(* ===== verification/Storage_Calls.thy ===== *)
theory Storage_Calls
  imports Storage_Discipline Storage_Size
begin

text \<open>
  The interface \<open>Store\<close> of \<open>storage/store.go\<close>: its calls as data, what each of them does, and what holds after any
  sequence of calls, whatever fails in them.
\<close>

section \<open>Sizes and lists\<close>

text \<open>An operation on what the state has, with what is known about the state.\<close>

lemma keeps_read_state:
  fixes f :: "'b \<Rightarrow> ('d store, 'a) op"
  assumes "\<And>w. lock_view w = v \<Longrightarrow> P (st_roLayersOpen w) \<Longrightarrow> keeps_locks P v (f (g w))"
  shows "keeps_locks P v (op_read g f)"
  using assms unfolding keeps_locks_def preserves_def op_read_def by blast

lemma keeps_ApplyDiff [lock_intros]: "all_free v \<Longrightarrow> keeps_locks P v (store_ApplyDiff env to result tarSplit)"
  unfolding store_ApplyDiff_def by (intro lock_intros) simp_all

lemma keeps_changes_in [lock_intros]:
  "b \<le> ro_layer_count v \<Longrightarrow> may_take v (ROLayerStore a) \<Longrightarrow> keeps_locks P v (changes_in env changes from to [a ..< b])"
proof (induction "b - a" arbitrary: a)
  case (Suc n)
  then have "a < b" by simp
  have "may_take v (ROLayerStore (Suc a))" using may_take_Suc Suc.prems(2) by blast
  then have "keeps_locks P v (changes_in env changes from to [Suc a ..< b])" using Suc.hyps Suc.prems(1) by (intro Suc.hyps(1)) simp_all
  then show ?case
    unfolding upt_cons [OF \<open>a < b\<close>] changes_in.simps using Suc.prems \<open>a < b\<close> by (intro lock_intros) simp_all
qed (simp add: lock_intros)

lemma keeps_Changes [lock_intros]:
  assumes "all_free v"
  shows "keeps_locks any v (store_Changes env changes from to)"
  unfolding store_Changes_def by (intro lock_intros keeps_read_ro_layers) (simp_all add: assms)

lemma keeps_owners [lock_intros]:
  assumes "all_free v"
  shows "keeps_locks P v (LayerParentOwners env exists dirs k)" "keeps_locks P v (ContainerParentOwners env exists dirs k)"
  unfolding LayerParentOwners_def ContainerParentOwners_def by (intro lock_intros; simp add: assms)+

text \<open>The walk stays within the stores that are locked.\<close>

definition readable :: "nat \<Rightarrow> lock_view \<Rightarrow> bool" where
  "readable n v \<longleftrightarrow> fst v LayerStore = (Reading, Reading)
     \<and> (\<forall>i. i < n \<longrightarrow> i < ro_layer_count v \<longrightarrow> fst v (ROLayerStore i) = (Reading, Reading))"

lemma walk_positions:
  assumes "size_walk find_layer queue visited found = Some r" and "\<And>k i l. find_layer k = Some (i, l) \<Longrightarrow> i < n"
    and "\<And>v. v \<in> set found \<Longrightarrow> fst v < n"
  shows "v \<in> set (fst r) \<Longrightarrow> fst v < n"
proof -
  have "(\<forall>k i l. find_layer k = Some (i, l) \<longrightarrow> i < n) \<longrightarrow> (\<forall>v \<in> set found. fst v < n) \<longrightarrow> (\<forall>v \<in> set (fst r). fst v < n)"
  proof (rule size_walk.raw_induct [OF _ assms(1)])
    fix walk and find' :: "string \<Rightarrow> (nat \<times> Layer) option" and q vis fnd and y :: "(nat \<times> Layer) list \<times> bool"
    assume walk: "\<And>f q v fnd y. walk f q v fnd = Some y \<Longrightarrow>
        (\<forall>k i l. f k = Some (i, l) \<longrightarrow> i < n) \<longrightarrow> (\<forall>v \<in> set fnd. fst v < n) \<longrightarrow> (\<forall>v \<in> set (fst y). fst v < n)"
      and step: "(case q of [] \<Rightarrow> Some (fnd, True)
        | k # ks \<Rightarrow> if k \<in> set vis then walk find' ks vis fnd
            else (case find' k of None \<Rightarrow> Some (fnd, False)
              | Some (i, l) \<Rightarrow> walk find' (if ly_Parent l = '''' then ks else ks @ [ly_Parent l]) (k # vis) (fnd @ [(i, l)]))) = Some y"
    show "(\<forall>k i l. find' k = Some (i, l) \<longrightarrow> i < n) \<longrightarrow> (\<forall>v \<in> set fnd. fst v < n) \<longrightarrow> (\<forall>v \<in> set (fst y). fst v < n)"
    proof (intro impI)
      assume f: "\<forall>k i l. find' k = Some (i, l) \<longrightarrow> i < n" and fnd: "\<forall>v \<in> set fnd. fst v < n"
      show "\<forall>v \<in> set (fst y). fst v < n"
      proof (cases "(\<exists>k ks. q = k # ks \<and> k \<notin> set vis \<and> find' k \<noteq> None)")
        case True
        then obtain k ks i l where q: "q = k # ks" "k \<notin> set vis" "find' k = Some (i, l)" by auto
        have "\<forall>v \<in> set (fnd @ [(i, l)]). fst v < n" using fnd f q(3) by auto
        then show ?thesis
          using walk [of find' "if ly_Parent l = '''' then ks else ks @ [ly_Parent l]" "k # vis" "fnd @ [(i, l)]" y] step f q by simp
      next
        case False
        then show ?thesis using step fnd walk [of find' _ vis fnd y] f by (cases q) (auto split: if_splits option.splits)
      qed
    qed
  qed
  then show "v \<in> set (fst r) \<Longrightarrow> fst v < n" using assms(2,3) by blast
qed

lemma all_layers_length: "length (all_layers w) = Suc (min (st_roLayersOpen w) (length (st_roLayers w)))"
  by (simp add: all_layers_def ro_layers_def)

lemma keeps_sum_sizes: "(\<And>x. x \<in> set xs \<Longrightarrow> keeps_locks P v (f x)) \<Longrightarrow> keeps_locks P v (sum_sizes f xs n)"
  by (induction xs arbitrary: n) (auto intro!: keeps_return keeps_then)

lemma keeps_layer_size:
  assumes "readable n v" and "i < Suc (min n (ro_layer_count v))"
  shows "keeps_locks (\<lambda>k. k = n) v (case i of 0 \<Rightarrow> ask (layer_access env) m | Suc j \<Rightarrow> ask (ro_layer_access env j) m)"
  using assms by (cases i) (auto simp: readable_def intro!: lock_intros)

lemma keeps_walked_size:
  assumes "readable n v" and "fst x < Suc (min n (ro_layer_count v))"
  shows "keeps_locks (\<lambda>k. k = n) v (walked_size env x)"
  using keeps_layer_size [OF assms(1), of "fst x"] assms(2) unfolding walked_size_def
  by (cases x) (auto intro: keeps_return)

lemma find_position:
  assumes "find_in (all_layers w) 0 k = Some (i, l)"
  shows "i < Suc (min (st_roLayersOpen w) (ro_layer_count (lock_view w)))"
  using find_in_Some [OF assms] by (simp add: all_layers_length)

lemma keeps_ImageSize_locked:
  assumes "readable n v" and ask: "\<And>P (m :: (imageStore, string list) op). keeps_locks P v (ask a m)"
    and ask': "\<And>P (m :: (imageStore, int) op). keeps_locks P v (ask a m)"
  shows "keeps_locks (\<lambda>k. k = n) v (ImageSize_locked env k a img)"
  unfolding ImageSize_locked_def
proof (rule keeps_read_state)
  fix w :: "'a store"
  assume w: "lock_view w = v" "st_roLayersOpen w = n"
  let ?walk = "size_walk (find_in (all_layers w) 0) (filter (\<lambda>l. l \<noteq> '''') (img_TopLayer img # img_MappedTopLayers img)) [] []"
  show "keeps_locks (\<lambda>k. k = n) v (case ?walk of
         None \<Rightarrow> op_fail (Panic ''endless chain of layers'')
       | Some (visited, complete) \<Rightarrow>
           op_then (sum_sizes (walked_size env) visited 0) (\<lambda>size.
             if \<not> complete then op_fail ErrLayerUnknown
             else op_then (ask a (query_res (\<lambda>s. image_GetBigDataNames s k))) (\<lambda>names.
                  sum_sizes (\<lambda>key. ask a (image_BigDataSize k key)) names size)))"
  proof (cases ?walk)
    case None
    then show ?thesis by (simp add: lock_intros)
  next
    case (Some r)
    have "fst x < Suc (min n (ro_layer_count v))" if "x \<in> set (fst r)" for x
      using walk_positions [OF Some _ _ that, of "Suc (min n (ro_layer_count v))"] find_position [of w] w by simp
    then have "keeps_locks (\<lambda>k. k = n) v (sum_sizes (walked_size env) (fst r) 0)"
      by (intro keeps_sum_sizes keeps_walked_size [OF assms(1)])
    then show ?thesis unfolding Some
      by (cases r) (auto intro!: keeps_then keeps_if keeps_fail keeps_sum_sizes ask ask')
  qed
qed

lemma keeps_ImageSize [lock_intros]:
  assumes "all_free v"
  shows "keeps_locks any v (ImageSize env k)"
  unfolding ImageSize_def
  by (rule keeps_seq, rule keeps_bothLayerStoreKinds [OF assms], rule keeps_layers(3), simp add: assms, rule keeps_read_ro_layers,
      intro keeps_read_ro_images keeps_reading_all keeps_locate_image keeps_images keeps_then keeps_sum keeps_fail keeps_ImageSize_locked
        keeps_ro_images)
    (use assms in \<open>auto simp: readable_def image_iff\<close>)

lemma keeps_ContainerSize_locked:
  assumes "readable n v" and "fst v ContainerStore = (Writing, Writing)"
  shows "keeps_locks (\<lambda>k. k = n) v (ContainerSize_locked env csize rsize k)"
proof -
  have "keeps_locks (\<lambda>k. k = n) v (op_read (\<lambda>w. find_in (all_layers w) 0 layer) (\<lambda>r.
         case r of
           None \<Rightarrow> op_fail ErrLayerUnknown
         | Some (0, l) \<Rightarrow> ask (layer_access env) (layer_DiffSize env '''' (ly_ID l))
         | Some (Suc j, l) \<Rightarrow> ask (ro_layer_access env j) (layer_DiffSize env '''' (ly_ID l))))" for layer
  proof (rule keeps_read_state)
    fix w :: "'a store"
    assume w: "lock_view w = v" "st_roLayersOpen w = n"
    show "keeps_locks (\<lambda>k. k = n) v (case find_in (all_layers w) 0 layer of
           None \<Rightarrow> op_fail ErrLayerUnknown
         | Some (0, l) \<Rightarrow> ask (layer_access env) (layer_DiffSize env '''' (ly_ID l))
         | Some (Suc j, l) \<Rightarrow> ask (ro_layer_access env j) (layer_DiffSize env '''' (ly_ID l)))"
    proof (cases "find_in (all_layers w) 0 layer")
      case (Some r)
      then show ?thesis
        using find_position [of w layer] keeps_layer_size [OF assms(1), of "fst r" env] w by (cases r) simp
    qed (simp add: lock_intros)
  qed
  then show ?thesis unfolding ContainerSize_locked_def using assms(2)
    by (intro keeps_then keeps_containers keeps_sum_sizes keeps_query_res) simp_all
qed

lemma keeps_ContainerSize [lock_intros]:
  assumes "all_free v"
  shows "keeps_locks any v (ContainerSize env root csize rsize k)"
  unfolding ContainerSize_def ContainerDirectory_def
  by (rule keeps_seq, rule keeps_bothLayerStoreKinds [OF assms], rule keeps_layers(3), simp add: assms, rule keeps_read_ro_layers,
      intro keeps_reading_all keeps_seq keeps_readContainerStore keeps_writeToContainerStore keeps_ContainerSize_locked)
    (use assms in \<open>auto simp: readable_def image_iff\<close>)

lemma readers_step: "a < b \<Longrightarrow> add_readers f {Suc a ..< b} (set_mode (f a) (Reading, Reading) v) = add_readers f {a ..< b} v"
  unfolding add_reader by (rule arg_cong2 [where f = "add_readers f"]) auto

lemma keeps_listing_layers:
  "b \<le> ro_layer_count v \<Longrightarrow> may_take v (ROLayerStore a) \<Longrightarrow> (\<And>xs. keeps_locks P (add_readers ROLayerStore {a ..< b} v) (use xs)) \<Longrightarrow>
     keeps_locks P v (listing (ro_layer_access env) f [a ..< b] found use)"
proof (induction "b - a" arbitrary: a v found)
  case (Suc n)
  then have "a < b" by simp
  have "may_take v (ROLayerStore (Suc a))" using may_take_Suc Suc.prems(2) by blast
  then have "keeps_locks P (set_mode (ROLayerStore a) (Reading, Reading) v) (listing (ro_layer_access env) f [Suc a ..< b] found' use)" for found'
    using Suc.hyps(2) Suc.prems by (intro Suc.hyps(1)) (simp_all add: readers_step \<open>a < b\<close>)
  then show ?case
    unfolding upt_cons [OF \<open>a < b\<close>] listing.simps using Suc.prems(1,2) \<open>a < b\<close> by (intro lock_intros) simp_all
qed simp

lemma keeps_listing_images:
  "b \<le> ro_image_count v \<Longrightarrow> may_take v (ROImageStore a) \<Longrightarrow> (\<And>xs. keeps_locks P (add_readers ROImageStore {a ..< b} v) (use xs)) \<Longrightarrow>
     keeps_locks P v (listing (ro_image_access env) f [a ..< b] found use)"
proof (induction "b - a" arbitrary: a v found)
  case (Suc n)
  then have "a < b" by simp
  have "may_take v (ROImageStore (Suc a))" using may_take_Suc Suc.prems(2) by blast
  then have "keeps_locks P (set_mode (ROImageStore a) (Reading, Reading) v) (listing (ro_image_access env) f [Suc a ..< b] found' use)" for found'
    using Suc.hyps(2) Suc.prems by (intro Suc.hyps(1)) (simp_all add: readers_step \<open>a < b\<close>)
  then show ?case
    unfolding upt_cons [OF \<open>a < b\<close>] listing.simps using Suc.prems(1,2) \<open>a < b\<close> by (intro lock_intros) simp_all
qed simp

lemma keeps_multi_images:
  assumes "may_take v ImageStore"
  shows "keeps_locks P v (multi_images env images containers layers)"
proof -
  have "may_take v (ROImageStore 0)" "may_take v ContainerStore" using may_take_later [OF assms] by (simp_all add: less_imp_le)
  then show ?thesis
    unfolding multi_images_def multi_containers_def
    by (intro keeps_if keeps_images keeps_then keeps_read_ro_images keeps_listing_images keeps_readContainerStore keeps_return)
      (use assms in auto)
qed

lemma keeps_MultiList [lock_intros]:
  assumes "all_free v"
  shows "keeps_locks any v (MultiList env images layers containers)"
  unfolding MultiList_def
  by (intro keeps_if keeps_seq keeps_bothLayerStoreKinds keeps_layers keeps_then keeps_read_ro_layers keeps_listing_layers keeps_multi_images)
    (use assms in auto)

lemma keeps_Dedup [lock_intros]: "all_free v \<Longrightarrow> keeps_locks P v (Dedup env dedup)"
  unfolding Dedup_def by (intro lock_intros) simp_all

lemma keeps_container_files [lock_intros]:
  assumes "all_free v"
  shows "keeps_locks P v (SetContainerDirectoryFile env root k)" "keeps_locks P v (FromContainerDirectory env contents root k file)"
  unfolding SetContainerDirectoryFile_def FromContainerDirectory_def by (intro lock_intros; simp add: assms)+

section \<open>Calls\<close>

text \<open>
  The calls of the interface that change the store or lock several of its parts. \<open>now\<close> and \<open>draws\<close> are the time
  and the random identifiers of the call, and the arguments of \<open>Wipe\<close> and \<open>GarbageCollect\<close> what the directories have.
\<close>

datatype (plugins only: size) call =
    CallPutLayer int "string list" string string "string list" string bool LayerOptions "(applyDiffResult \<times> string) option" bool
  | CallCreateImage int "string list" string "string list" string string "ImageOptions option"
  | CallCreateContainer int "nat \<Rightarrow> string list" string "string list" string string string container_request
  | CallApplyStagedLayer int "string list" string string "string list" string bool LayerOptions DriverWithDifferOutput
  | CallPutAs int string string "string list" Layer
  | CallApplyDiff string applyDiffResult string
  | CallSetMetadata string string
  | CallUpdateNames int string "string list" updateNameOperation
  | CallDelete string
  | CallDeleteLayer string
  | CallDeleteImage string bool bool
  | CallDeleteContainer string
  | CallWipe "string list" "string list" "string list"
  | CallGarbageCollect "(string \<times> bool) list" "(string \<times> bool) list" "string list"
  | CallMountImage int "string list" string "string list" string
  | CallUnmountImage string bool
  | CallMount string string
  | CallUnmount string bool
  | CallMounted string
  | CallShutdown bool
  | CallSetLayerBigData string string string
  | CallSetImageBigData string string string "(string \<Rightarrow> string res) option"
  | CallSetContainerBigData string string string
  | CallContainerBigDataSize string string
  | CallLookup string
  | CallLayers
  | CallImages
  | CallContainers
  | CallMultiList bool bool bool
  | CallImageSize string
  | CallContainerSize string "int res" "int res" string

text \<open>What a call does to the store; its result is dropped.\<close>

definition done_op :: "('w, 'a) op \<Rightarrow> ('w, unit) op" where
  "done_op m = op_then m (\<lambda>_. op_return ())"

primrec serve :: "'d store_env \<Rightarrow> call \<Rightarrow> ('d store, unit) op" where
  "serve env (CallPutLayer now draws k parent names label rw opts diff staging) = done_op (PutLayer env now draws k parent names label rw opts diff staging)"
| "serve env (CallCreateImage now draws k names layer metadata opts) = done_op (CreateImage env now draws k names layer metadata opts)"
| "serve env (CallCreateContainer now draws k names img layer metadata rq) = done_op (CreateContainer env now draws k names img layer metadata rq)"
| "serve env (CallApplyStagedLayer now draws k parent names label rw opts out) = done_op (ApplyStagedLayer env now draws k parent names label rw opts out)"
| "serve env (CallPutAs now k parent names info) = done_op (PutAs env now k parent names info)"
| "serve env (CallApplyDiff to result tarSplit) = done_op (store_ApplyDiff env to result tarSplit)"
| "serve env (CallSetMetadata k metadata) = SetMetadata env k metadata"
| "serve env (CallUpdateNames now k names op) = store_updateNames env now k names op"
| "serve env (CallDelete k) = Delete env k"
| "serve env (CallDeleteLayer k) = DeleteLayer env k"
| "serve env (CallDeleteImage k commit withSize) = done_op (deleteImage env k commit withSize)"
| "serve env (CallDeleteContainer k) = DeleteContainer env k"
| "serve env (CallWipe cs is ls) = store_Wipe env cs is ls"
| "serve env (CallGarbageCollect cs is ls) = store_GarbageCollect env cs is ls"
| "serve env (CallMountImage now draws k opts label) = done_op (MountImage env now draws k opts label)"
| "serve env (CallUnmountImage k force) = done_op (UnmountImage env k force)"
| "serve env (CallMount k label) = done_op (store_Mount env k label)"
| "serve env (CallUnmount k force) = done_op (Unmount env k force)"
| "serve env (CallMounted k) = done_op (store_Mounted env k)"
| "serve env (CallShutdown force) = done_op (Shutdown env force)"
| "serve env (CallSetLayerBigData k key data) = SetLayerBigData env k key data"
| "serve env (CallSetImageBigData k key data dm) = SetImageBigData env k key data dm"
| "serve env (CallSetContainerBigData k key data) = SetContainerBigData env k key data"
| "serve env (CallContainerBigDataSize k key) = done_op (ContainerBigDataSize env k key)"
| "serve env (CallLookup k) = done_op (Lookup env k)"
| "serve env CallLayers = done_op (store_Layers env)"
| "serve env CallImages = done_op (store_Images env)"
| "serve env CallContainers = done_op (store_Containers env)"
| "serve env (CallMultiList is ls cs) = done_op (MultiList env is ls cs)"
| "serve env (CallImageSize k) = done_op (ImageSize env k)"
| "serve env (CallContainerSize root csize rsize k) = done_op (ContainerSize env root csize rsize k)"

text \<open>The states of a store that has served some calls, whatever they returned.\<close>

inductive served :: "'d store_env \<Rightarrow> 'd store \<Rightarrow> 'd store \<Rightarrow> bool" for env w where
  served_none: "served env w w"
| served_call: "served env w w1 \<Longrightarrow> serve env c w1 = (r, w2) \<Longrightarrow> served env w w2"

lemma keeps_done [lock_intros]: "keeps_locks P v m \<Longrightarrow> keeps_locks P v (done_op m)"
  unfolding done_op_def by (intro lock_intros)

lemma serve_keeps:
  assumes "all_free v" and "extra_writable v = []"
  shows "keeps_locks any v (serve env c)"
  using assms by (cases c; simp only: serve.simps; intro lock_intros)


text \<open>A store with nothing in it.\<close>

definition plain_env :: "unit store_env" where
  "plain_env = \<lparr>se_driver = null_driver, se_NewDriver = op_return True, se_Cleanup = op_return (), se_DiffSize = (\<lambda>_ _. op_return 0),
     se_digests = sample_env, se_layer_others = (\<lambda>s. s), se_image_others = (\<lambda>s. s), se_container_others = (\<lambda>s. s),
     se_user = \<lparr>IsRootless = False, env_USER = ''root'', Geteuid = 0, GetRootlessUID = 0, LookupId = (\<lambda>_. None),
                new_mappings = (\<lambda>_. Inl ErrNotExist)\<rparr>,
     se_autoUsernsUser = '''', se_autoNsMinSize = 1024, se_autoNsMaxSize = 65536, se_InitLabels = (\<lambda>_. Inr ('''', '''')),
     se_etc = (\<lambda>_. (None, None))\<rparr>"

definition new_store :: "nat list \<Rightarrow> imageStore list \<Rightarrow> unit store" where
  "new_store rw additional = \<lparr>faults = [], IsReadWrite = True, lock_disk = 0, lastWrite = 0, st_graph = Unlocked, st_userns = Unlocked,
     st_misused = False, st_layersOpen = True, st_layers = unheld (empty_layers ()), st_roLayersOpen = 0, st_roLayers = [],
     st_images = unheld empty_images, st_roImages = map unheld additional, st_rwImages = rw, st_containers = unheld empty_containers,
     st_uidMap = [], st_gidMap = [], st_transient = False, st_disableVolatile = False,
     st_ids = \<lparr>additionalUIDs = None, additionalGIDs = None\<rparr>\<rparr>"

lemma new_store_free: "all_free (lock_view (new_store rw additional))" "st_misused (new_store rw additional) = False"
  by (auto simp: all_free_def set_parts lock_view_def new_store_def)


text \<open>
  C36: \<open>deleteImage\<close> breaks the order of the locks when an additional image store can be written to: it locks
  that store while it holds the lock of the container store.
\<close>

theorem deleteImage_misuses_locks:
  assumes "lock_view w = all_written v" and "st_rwImages w = i # is" and "image_Get (lk_store (st_images w)) k = Inl e"
  shows "st_misused (snd (deleteImage_locked env k commit withSize w))"
proof -
  have m: "modes (st_images w) = (Writing, Writing)" "modes (st_containers w) = (Writing, Writing)"
    using fst_view(1) [of w] unfolding assms(1) by (metis all_written_simps(2) part_modes.simps(5), metis all_written_simps(3) part_modes.simps(7))
  have "ac_get (image_access env) w = st_images w" "ac_put (image_access env) (st_images w) w = w" by (simp_all add: image_access_def)
  then have get: "ask (image_access env) (query (\<lambda>s. image_Get s k)) w = (Inr (Inl e), w)"
    using m(1) assms(3) by (simp add: ask_def guarded_def zoom_def locked_call_def query_def op_read_def op_return_def)
  have "\<not> may_take (lock_view w) (ROImageStore i)"
    unfolding may_take_def using m(2) by (auto simp: set_parts intro!: less_imp_le)
  then have "writing (ro_image_access env i) m w = (Inl (Panic ''lock misuse''), w\<lparr>st_misused := True\<rparr>)" for m :: "('a store, string list \<times> int) op"
    by (simp add: writing_def startWriting_def guarded_def misuse_def op_seq_run)
  then show ?thesis
    using get assms(2) by (simp add: deleteImage_locked_def delete_step_def op_then_def op_read_def)
qed

definition deleting_store :: "unit store" where
  "deleting_store = (new_store [0] [sample_images])\<lparr>st_layers := held_as Writing (empty_layers ()), st_images := held_as Writing empty_images,
     st_containers := held_as Writing empty_containers\<rparr>"

theorem deleteImage_misuses_locks_witness:
  "st_misused (snd (deleteImage_locked plain_env ''a1'' True False deleting_store))"
proof (rule deleteImage_misuses_locks [where v = "lock_view (new_store [0] [sample_images])"])
  show "lock_view deleting_store = all_written (lock_view (new_store [0] [sample_images]))"
    unfolding deleting_store_def all_written_def by (simp only: view_upd modes_held)
  show "st_rwImages deleting_store = 0 # []" by (simp add: deleting_store_def new_store_def)
  show "image_Get (lk_store (st_images deleting_store)) ''a1'' = Inl ErrImageUnknown"
    using images.find_mem [OF empty_images_ok [of "\<lambda>_. True"], of "''a1''"]
    by (cases "image_lookup empty_images ''a1''") (auto simp: deleting_store_def held_as_def image_Get_def empty_images_def)
qed

end
