(* ===== verification/Storage_Integrity.thy ===== *)
theory Storage_Integrity
  imports Storage_Calls
begin

text \<open>
  What the operations of \<open>storage/store.go\<close> do to the references between layers, images and containers: the
  parents of layers, the top layers of images and the layers of containers. The statements are about the
  critical sections, which run with the locks of all three stores.
\<close>

section \<open>Outcomes\<close>

text \<open>
  From a state with \<open>P\<close>, an operation that succeeds leaves a state with \<open>R\<close>, and one that fails a state with \<open>Q\<close>.
\<close>

named_theorems outcome_intros

definition outcome :: "('s \<Rightarrow> bool) \<Rightarrow> ('s, 'a) op \<Rightarrow> ('a \<Rightarrow> 's \<Rightarrow> bool) \<Rightarrow> ('s \<Rightarrow> bool) \<Rightarrow> bool" where
  "outcome P m R Q \<longleftrightarrow> (\<forall>s. P s \<longrightarrow> (case m s of (Inr x, t) \<Rightarrow> R x t | (Inl _, t) \<Rightarrow> Q t))"

lemma outcomeD:
  assumes "outcome P m R Q" and "P s"
  shows "m s = (Inr x, t) \<Longrightarrow> R x t" "m s = (Inl e, t) \<Longrightarrow> Q t"
  using assms unfolding outcome_def by (auto split: prod.splits)

lemma outcomeI:
  assumes "\<And>s x t. P s \<Longrightarrow> m s = (Inr x, t) \<Longrightarrow> R x t" and "\<And>s e t. P s \<Longrightarrow> m s = (Inl e, t) \<Longrightarrow> Q t"
  shows "outcome P m R Q"
  using assms unfolding outcome_def by (simp split: prod.split sum.split)

lemma outcome_weaken:
  assumes "outcome P m R Q" and "\<And>s. P' s \<Longrightarrow> P s" and "\<And>x s. R x s \<Longrightarrow> R' x s" and "\<And>s. Q s \<Longrightarrow> Q' s"
  shows "outcome P' m R' Q'"
  by (rule outcomeI) (use outcomeD [OF assms(1) assms(2)] assms(3,4) in blast)+

lemma outcome_preserves: "preserves P m \<Longrightarrow> outcome P m (\<lambda>_. P) P"
  by (rule outcomeI) (blast dest: preservesD)+

lemma outcome_return [outcome_intros]: "(\<And>s. P s \<Longrightarrow> R x s) \<Longrightarrow> outcome P (op_return x) R Q"
  and outcome_fail [outcome_intros]: "(\<And>s. P s \<Longrightarrow> Q s) \<Longrightarrow> outcome P (op_fail e) R' Q"
  and outcome_update [outcome_intros]: "(\<And>s. P s \<Longrightarrow> R'' () (f s)) \<Longrightarrow> outcome P (op_update f) R'' Q'"
  by (simp_all add: outcome_def op_return_def op_fail_def op_update_def)

lemma outcome_then:
  assumes "outcome P m R' Q" and "\<And>x. outcome (R' x) (f x) R Q"
  shows "outcome P (op_then m f) R Q"
proof (rule outcomeI)
  fix s x t
  assume s: "P s" and "op_then m f s = (Inr x, t)"
  then obtain y u where "m s = (Inr y, u)" "f y u = (Inr x, t)" by (auto simp: op_then_def split: prod.splits sum.splits)
  then show "R x t" using outcomeD(1) [OF assms(1) s] outcomeD(1) [OF assms(2)] by blast
next
  fix s e t
  assume s: "P s" and "op_then m f s = (Inl e, t)"
  then consider "m s = (Inl e, t)" | y u where "m s = (Inr y, u)" "f y u = (Inl e, t)"
    by (auto simp: op_then_def split: prod.splits sum.splits)
  then show "Q t"
  proof cases
    case 2
    then show ?thesis using outcomeD(1) [OF assms(1) s] outcomeD(2) [OF assms(2)] by blast
  qed (rule outcomeD(2) [OF assms(1) s])
qed

lemma outcome_seq: "outcome P m (\<lambda>_. R') Q \<Longrightarrow> outcome R' n R Q \<Longrightarrow> outcome P (op_seq m n) R Q"
  unfolding op_seq_def by (rule outcome_then)

lemma outcome_seq_keep: "outcome P m (\<lambda>_. P) Q \<Longrightarrow> outcome P n R Q \<Longrightarrow> outcome P (op_seq m n) R Q"
  by (rule outcome_seq)

lemma outcome_read [outcome_intros]: "(\<And>x. outcome (\<lambda>s. P s \<and> g s = x) (f x) R Q) \<Longrightarrow> outcome P (op_read g f) R Q"
  by (simp add: outcome_def op_read_def)

lemma outcome_if [outcome_intros]:
  "(b \<Longrightarrow> outcome P m R Q) \<Longrightarrow> (\<not> b \<Longrightarrow> outcome P n R Q) \<Longrightarrow> outcome P (if b then m else n) R Q"
  by simp

lemma outcome_each:
  assumes "\<And>x. x \<in> set xs \<Longrightarrow> outcome P (f x) (\<lambda>_. P) P"
  shows "outcome P (op_each f xs) (\<lambda>_. P) P"
  using assms
proof (induction xs)
  case (Cons x xs)
  then have "outcome P (f x) (\<lambda>_. P) P" "outcome P (op_each f xs) (\<lambda>_. P) P" by simp_all
  then show ?case by (simp add: outcome_seq)
qed (simp add: outcome_return)

section \<open>The records that refer to layers\<close>

text \<open>The identifiers of the layers with their parents, of the images with their top layers, of the containers with their layers.\<close>

definition layer_refs :: "'d layerStore \<Rightarrow> (string \<times> string) set" where
  "layer_refs s = (\<lambda>p. (ly_ID (l_heap s p), ly_Parent (l_heap s p))) ` set (l_layers s)"

definition image_refs :: "imageStore \<Rightarrow> (string \<times> string) set" where
  "image_refs s = (\<lambda>p. (img_ID (i_heap s p), img_TopLayer (i_heap s p))) ` set (i_images s)"

definition container_refs :: "containerStore \<Rightarrow> (string \<times> string) set" where
  "container_refs s = (\<lambda>p. (ctr_ID (c_heap s p), ctr_LayerID (c_heap s p))) ` set (c_containers s)"

definition layer_without :: "(string \<times> string) set \<Rightarrow> string \<Rightarrow> (string \<times> string) set" where
  "layer_without V ident = {x \<in> V. fst x \<noteq> ident}"

lemma layer_refs_view: "layer_view s = layer_view t \<Longrightarrow> layer_refs s = layer_refs t"
  by (simp add: layer_view_eq layer_refs_def)

text \<open>The state before and after a layer is taken out of the store.\<close>

definition holding :: "(string \<times> string) set \<Rightarrow> nat \<Rightarrow> string \<Rightarrow> 'd layerStore \<Rightarrow> bool" where
  "holding V p ident s \<longleftrightarrow> layer_ok s \<and> layer_refs s = V \<and> p \<in> set (l_layers s) \<and> ly_ID (l_heap s p) = ident"

definition with_refs :: "(string \<times> string) set \<Rightarrow> 'd layerStore \<Rightarrow> bool" where
  "with_refs V s \<longleftrightarrow> layer_ok s \<and> layer_refs s = V"

lemma keeps_holding:
  assumes "keeps_view m"
  shows "outcome (holding V p ident) m (\<lambda>_. holding V p ident) (holding V p ident)"
proof (rule outcome_preserves, rule keeps_view_preserves [OF assms])
  fix s t :: "'a layerStore"
  assume e: "layer_view s = layer_view t" and h: "holding V p ident s"
  have "l_layers s = l_layers t" "ly_ID (l_heap s p) = ly_ID (l_heap t p)" using e by (simp_all add: layer_view_eq)
  then show "holding V p ident t" using h layer_ok_view [OF e] layer_refs_view [OF e] by (simp add: holding_def)
qed

lemma keeps_refs: "keeps_view m \<Longrightarrow> outcome (with_refs V) m (\<lambda>_. with_refs V) (with_refs V)"
  by (rule outcome_preserves, erule keeps_view_preserves) (auto simp: with_refs_def dest: layer_refs_view layer_ok_view)

lemma image_filter: "f ` {q \<in> A. P (f q)} = {x \<in> f ` A. P x}"
  by blast

lemma unlink_refs:
  assumes "holding V p ident s"
  shows "with_refs (layer_without V ident) (layer_unlink p s)"
proof -
  have ok: "layer_ok s" and p: "p \<in> set (l_layers s)" and ident: "ly_ID (l_heap s p) = ident" and V: "layer_refs s = V"
    using assms by (simp_all add: holding_def)
  have heap: "l_heap (layer_unlink p s) = l_heap s" by (simp add: layer_unlink_def deleteInDigestMap_def Let_def)
  have same: "ly_ID (l_heap s q) = ident \<longleftrightarrow> q = p" if "q \<in> set (l_layers s)" for q
    using layers.ident_inj [OF ok that p] ident by auto
  have R: "set (l_layers (layer_unlink p s)) = {q \<in> set (l_layers s). ly_ID (l_heap s q) \<noteq> ident}"
    unfolding layer_unlink_layers [OF ok p] set_filter using same by blast
  have "layer_refs (layer_unlink p s) = layer_without (layer_refs s) ident"
    unfolding layer_refs_def layer_without_def heap R image_filter [symmetric] fst_conv ..
  then show ?thesis using layer_unlink_ok [OF ok p] V by (simp add: with_refs_def)
qed

lemma outcome_read_any: "(\<And>x. outcome P (f x) R Q) \<Longrightarrow> outcome P (op_read g f) R Q"
  by (simp add: outcome_def op_read_def)

lemma outcome_with_layer:
  assumes "outcome P (f p) R Q" and "\<And>s. P s \<Longrightarrow> layer_lookup s k = Some p"
  shows "outcome P (with_layer k f) R Q"
  using assms by (simp add: outcome_def with_layer_def op_read_def)

text \<open>Deleting a layer takes that layer out, or leaves all layers when it fails before that.\<close>

definition maybe_without :: "(string \<times> string) set \<Rightarrow> string \<Rightarrow> 'd layerStore \<Rightarrow> bool" where
  "maybe_without V ident s \<longleftrightarrow> layer_ok s \<and> (layer_refs s = V \<or> layer_refs s = layer_without V ident)"

lemma maybe_withoutI: "holding V p ident s \<Longrightarrow> maybe_without V ident s" "with_refs (layer_without V ident) s \<Longrightarrow> maybe_without V ident s"
  by (simp_all add: holding_def with_refs_def maybe_without_def)

lemma internalDelete_refs:
  "outcome (holding V p ident) (internalDelete drv ident) (\<lambda>_. with_refs (layer_without V ident)) (maybe_without V ident)"
proof -
  have flag: "keeps_view (op_read (\<lambda>s. layerHasIncompleteFlag (l_heap s p)) (\<lambda>incomplete.
      if incomplete then op_return ()
      else op_seq (op_update (upd_layer p (\<lambda>l. l\<lparr>ly_Flags := (ly_Flags l)(''incomplete'' \<mapsto> FlagBool True)\<rparr>)))
             (layer_saveFor drv p False)))"
    by (intro keeps_viewI preserves_intros view_update) (auto intro: view_heap)
  have io: "keeps_view io_call" "keeps_view (unless_missing (drive (drv_DeferredRemove drv ident')))" "keeps_view (stage_deletion ident')"
    for ident' by (intro keeps_viewI preserves_intros; simp)+
  have weak: "outcome (holding V p ident) m (\<lambda>_. holding V p ident) (maybe_without V ident)" if "keeps_view m" for m :: "('a, 'b) lop"
    by (rule outcome_weaken [OF keeps_holding [OF that]]) (auto intro: maybe_withoutI)
  have found: "layer_lookup s ident = Some p" if "holding V p ident s" for s :: "'a layerStore"
    using that layers.byid_iff [of s ident p] by (simp add: holding_def layer_lookup_def)
  have unlink: "outcome (holding V p ident) (op_update (layer_unlink p)) (\<lambda>_. with_refs (layer_without V ident)) (maybe_without V ident)"
    by (intro outcome_update unlink_refs)
  show ?thesis
    unfolding internalDelete_def writable_def
    by (rule outcome_read_any, rule outcome_if, rule outcome_fail, erule maybe_withoutI, rule outcome_with_layer [where p = p],
        rule outcome_seq_keep [OF weak [OF flag]], rule outcome_seq_keep [OF weak [OF io(1)]], rule outcome_read_any,
        rule outcome_seq_keep [OF weak [OF io(2)]], rule outcome_seq_keep [OF weak [OF io(3)]], rule unlink, erule found)
qed

lemma deferredDelete_holding:
  "outcome (holding V p ident) (op_read (\<lambda>s. (ly_ID (l_heap s p), mount_turns s p)) (\<lambda>(ident, n).
       op_seq (unmount_loop drv n ident) (op_seq (internalDelete drv ident) (layer_saveFor drv p False))))
     (\<lambda>_. with_refs (layer_without V ident)) (maybe_without V ident)"
proof (rule outcome_read)
  fix x :: "string \<times> nat"
  have keep: "keeps_view (unmount_loop drv n ident')" "keeps_view (layer_saveFor drv p b)" for n ident' b
    by (intro keeps_viewI preserves_intros)+
  have run: "outcome (holding V p ident) (op_seq (unmount_loop drv n ident) (op_seq (internalDelete drv ident) (layer_saveFor drv p False)))
      (\<lambda>_. with_refs (layer_without V ident)) (maybe_without V ident)" for n
    by (rule outcome_seq_keep [OF outcome_weaken [OF keeps_holding [OF keep(1)]]], assumption, assumption, erule maybe_withoutI,
        rule outcome_seq [OF internalDelete_refs], rule outcome_weaken [OF keeps_refs [OF keep(2)]], assumption, assumption, erule maybe_withoutI)
  show "outcome (\<lambda>s. holding V p ident s \<and> (ly_ID (l_heap s p), mount_turns s p) = x) (case x of (ident, n) \<Rightarrow>
       op_seq (unmount_loop drv n ident) (op_seq (internalDelete drv ident) (layer_saveFor drv p False)))
     (\<lambda>_. with_refs (layer_without V ident)) (maybe_without V ident)"
  proof (cases "fst x = ident")
    case True
    then show ?thesis by (cases x) (auto intro: outcome_weaken [OF run])
  next
    case False
    then show ?thesis by (auto simp: outcome_def holding_def)
  qed
qed

lemma deferredDelete_refs:
  assumes "with_refs V s" and "deferredDelete drv k s = (r, t)"
  shows "with_refs V t \<and> layer_lookup s k = None \<and> r = Inl ErrLayerUnknown
    \<or> (\<exists>p. layer_lookup s k = Some p \<and> (case r of
         Inr _ \<Rightarrow> with_refs (layer_without V (ly_ID (l_heap s p))) t
       | Inl _ \<Rightarrow> maybe_without V (ly_ID (l_heap s p)) t))"
proof (cases "layer_lookup s k")
  case None
  then show ?thesis using assms by (simp add: deferredDelete_def with_layer_def op_read_def op_fail_def)
next
  case (Some p)
  then have h: "holding V p (ly_ID (l_heap s p)) s" using assms(1) layers.find_mem [of s k p] by (simp add: holding_def with_refs_def)
  have run: "(op_read (\<lambda>s. (ly_ID (l_heap s p), mount_turns s p)) (\<lambda>(ident, n).
       op_seq (unmount_loop drv n ident) (op_seq (internalDelete drv ident) (layer_saveFor drv p False)))) s = (r, t)"
    using Some assms(2) by (simp add: deferredDelete_def with_layer_def op_read_def)
  show ?thesis
    using outcomeD [OF deferredDelete_holding h] run Some by (cases r) auto
qed

text \<open>A layer that has been deleted is gone, and no layer is added or changed.\<close>

definition gone :: "(string \<times> string) set \<Rightarrow> string set \<Rightarrow> 'd layerStore \<Rightarrow> bool" where
  "gone V D s \<longleftrightarrow> layer_ok s \<and> layer_refs s \<subseteq> V \<and> (\<forall>x \<in> layer_refs s. fst x \<notin> D)"

lemma lookup_ID: "layer_ok s \<Longrightarrow> (l, parent) \<in> layer_refs s \<Longrightarrow> layer_lookup s l = Some p \<Longrightarrow> ly_ID (l_heap s p) = l"
proof -
  assume ok: "layer_ok s" and "(l, parent) \<in> layer_refs s" and p: "layer_lookup s l = Some p"
  then obtain q where q: "q \<in> set (l_layers s)" "ly_ID (l_heap s q) = l" unfolding layer_refs_def by force
  then have "l_byid s l = Some q" using layers.byid_iff [OF ok, of l q] by simp
  with p q show ?thesis by (simp add: layer_lookup_def)
qed

lemma gone_less: "gone V D s \<Longrightarrow> layer_ok t \<Longrightarrow> layer_refs t \<subseteq> layer_refs s \<Longrightarrow> gone V D t"
  unfolding gone_def by blast

lemma without_less: "layer_without V ident \<subseteq> V"
  unfolding layer_without_def by blast

lemma deferredDelete_gone: "outcome (gone V D) (deferredDelete drv l) (\<lambda>_. gone V (insert l D)) (gone V D)"
proof (rule outcomeI)
  fix s x t
  assume s: "gone V D s" and run: "deferredDelete drv l s = (Inr x, t)"
  have ok: "layer_ok s" using s by (simp add: gone_def)
  from deferredDelete_refs [OF _ run, of "layer_refs s"] ok obtain p where
    p: "layer_lookup s l = Some p" and t: "with_refs (layer_without (layer_refs s) (ly_ID (l_heap s p))) t"
    by (auto simp: with_refs_def)
  have "fst y \<noteq> l" if "y \<in> layer_refs t" for y
  proof
    assume l: "fst y = l"
    have "y \<in> layer_without (layer_refs s) (ly_ID (l_heap s p))" using that t by (simp add: with_refs_def)
    then have y: "(l, snd y) \<in> layer_refs s" "fst y \<noteq> ly_ID (l_heap s p)" using l by (simp_all add: layer_without_def prod_eq_iff) force
    then show False using lookup_ID [OF ok y(1) p] l by simp
  qed
  moreover have "gone V D t"
    by (rule gone_less [OF s]) (use t without_less in \<open>simp_all add: with_refs_def\<close>)
  ultimately show "gone V (insert l D) t" by (simp add: gone_def)
next
  fix s e t
  assume s: "gone V D s" and run: "deferredDelete drv l s = (Inl e, t)"
  have "with_refs (layer_refs s) s" using s by (simp add: gone_def with_refs_def)
  from deferredDelete_refs [OF this run] have "layer_ok t \<and> layer_refs t \<subseteq> layer_refs s"
    using without_less by (auto simp: with_refs_def maybe_without_def)
  then show "gone V D t" using gone_less [OF s] by blast
qed

section \<open>Critical sections\<close>

definition stores :: "'d store \<Rightarrow> 'd layerStore \<times> imageStore \<times> containerStore" where
  "stores w = (lk_store (st_layers w), lk_store (st_images w), lk_store (st_containers w))"

definition sec :: "('d layerStore \<Rightarrow> imageStore \<Rightarrow> containerStore \<Rightarrow> bool) \<Rightarrow> 'd store \<Rightarrow> bool" where
  "sec P w \<longleftrightarrow> P (lk_store (st_layers w)) (lk_store (st_images w)) (lk_store (st_containers w))"

lemma sec_stores: "stores w = (l, i, c) \<Longrightarrow> sec P w \<longleftrightarrow> P l i c"
  by (auto simp: sec_def stores_def)

lemma misuse_run: "misuse w = (Inl (Panic ''lock misuse''), w\<lparr>st_misused := True\<rparr>)" "stores (w\<lparr>st_misused := True\<rparr>) = stores w"
  by (simp_all add: misuse_def stores_def)

lemma change_layers:
  assumes "\<And>i c. outcome (\<lambda>l. P l i c) m (\<lambda>x l. R x l i c) (\<lambda>l. Q l i c)" and "\<And>l i c. P l i c \<Longrightarrow> Q l i c"
  shows "outcome (sec P) (change (layer_access env) m) (\<lambda>x. sec (R x)) (sec Q)"
  by (rule outcomeI)
    (auto simp: change_def guarded_def zoom_def layer_access_def locked_call_def misuse_def sec_def split: prod.splits if_splits
      intro: assms(2) outcomeD [OF assms(1)])

lemma change_images:
  assumes "\<And>l c. outcome (\<lambda>i. P l i c) m (\<lambda>x i. R x l i c) (\<lambda>i. Q l i c)" and "\<And>l i c. P l i c \<Longrightarrow> Q l i c"
  shows "outcome (sec P) (change (image_access env) m) (\<lambda>x. sec (R x)) (sec Q)"
  by (rule outcomeI)
    (auto simp: change_def guarded_def zoom_def image_access_def locked_call_def misuse_def sec_def split: prod.splits if_splits
      intro: assms(2) outcomeD [OF assms(1)])

lemma ask_query:
  "ask (layer_access env) (query f) w = (Inr (f (lk_store (st_layers w))), w) \<or> ask (layer_access env) (query f) w = misuse w"
  "ask (image_access env) (query g) w = (Inr (g (lk_store (st_images w))), w) \<or> ask (image_access env) (query g) w = misuse w"
  "ask (container_access env) (query h) w = (Inr (h (lk_store (st_containers w))), w) \<or> ask (container_access env) (query h) w = misuse w"
  by (auto simp: ask_def guarded_def zoom_def layer_access_def image_access_def container_access_def locked_call_def query_def
      op_read_def op_return_def)

section \<open>Deleting a layer\<close>

text \<open>The layers that are referred to and are not there.\<close>

definition dangling_refs :: "'d layerStore \<Rightarrow> imageStore \<Rightarrow> containerStore \<Rightarrow> string set" where
  "dangling_refs l i c = (snd ` layer_refs l \<union> snd ` image_refs i \<union> snd ` container_refs c) - insert '''' (fst ` layer_refs l)"

definition dangling :: "'d store \<Rightarrow> string set" where
  "dangling w = dangling_refs (lk_store (st_layers w)) (lk_store (st_images w)) (lk_store (st_containers w))"

lemma removeMapped_refs: "preserves (\<lambda>s. image_refs s = J) (image_removeMappedTopLayer k layer)"
proof -
  have upd: "image_refs (upd_image p (\<lambda>i. i\<lparr>img_MappedTopLayers := ls\<rparr>) s) = image_refs s" for p ls s
    unfolding image_refs_def by (intro image_cong) simp_all
  have save: "preserves (\<lambda>s. image_refs s = J) image_Save"
    by (rule image_Save_preserves) (simp_all add: image_refs_def)
  show ?thesis
    unfolding image_removeMappedTopLayer_def with_image_def option.case_eq_if
    by (intro preserves_intros preserves_update save) (simp_all only: upd)
qed

definition delete_unused :: "'d store_env \<Rightarrow> Image list \<Rightarrow> string \<Rightarrow> ('d store, unit) op" where
  "delete_unused env images ident =
     op_seq (change (layer_access env) (deferredDelete (se_driver env) ident))
       (op_each (\<lambda>i. if ident \<in> set (img_MappedTopLayers i)
                      then change (image_access env) (image_removeMappedTopLayer (img_ID i) ident)
                      else op_return ()) images)"

lemma ask_step:
  "op_then (ask (layer_access env) (query f)) m w = (r, w') \<Longrightarrow> \<not> (\<exists>e. r = Inl e \<and> stores w' = stores w)
     \<Longrightarrow> m (f (lk_store (st_layers w))) w = (r, w')"
  "op_then (ask (image_access env) (query g)) m' w = (r, w') \<Longrightarrow> \<not> (\<exists>e. r = Inl e \<and> stores w' = stores w)
     \<Longrightarrow> m' (g (lk_store (st_images w))) w = (r, w')"
  "op_then (ask (container_access env) (query h)) m'' w = (r, w') \<Longrightarrow> \<not> (\<exists>e. r = Inl e \<and> stores w' = stores w)
     \<Longrightarrow> m'' (h (lk_store (st_containers w))) w = (r, w')"
  using ask_query(1) [of env f w] ask_query(2) [of env g w] ask_query(3) [of env h w]
  by (auto simp: op_then_def misuse_run)

lemma DeleteLayer_cases:
  assumes "DeleteLayer_locked env k w = (r, w')" and "stores w = (l, i, c)"
  obtains e where "r = Inl e" "stores w' = stores w"
  | p where "layer_lookup l k = Some p" "ly_ID (l_heap l p) \<notin> snd ` (layer_refs l \<union> image_refs i \<union> container_refs c)"
      "delete_unused env (image_Images i) (ly_ID (l_heap l p)) w = (r, w')"
proof -
  have s: "l = lk_store (st_layers w)" "i = lk_store (st_images w)" "c = lk_store (st_containers w)"
    using assms(2) by (simp_all add: stores_def)
  show thesis
  proof (cases "\<exists>e. r = Inl e \<and> stores w' = stores w")
    case False
    then have no: "op_fail e w \<noteq> (r, w')" for e by (auto simp: op_fail_def)
    from ask_step(1) [OF assms(1) [unfolded DeleteLayer_locked_def] False] obtain p where p: "layer_lookup l k = Some p"
      using no by (auto simp: s layer_Get_def split: option.splits)
    note run = ask_step(1) [OF assms(1) [unfolded DeleteLayer_locked_def] False, folded s, unfolded layer_Get_def p option.case sum.case Let_def]
    note run2 = ask_step(1) [OF run False, folded s]
    have a: "\<not> (\<exists>c \<in> set (layer_Layers l). ly_Parent c = ly_ID (l_heap l p))" using run2 no by (auto split: if_splits)
    note run3 = ask_step(2) [OF run2 [unfolded if_not_P [OF a]] False, folded s]
    have b: "\<not> (\<exists>j \<in> set (image_Images i). img_TopLayer j = ly_ID (l_heap l p))" using run3 no by (auto split: if_splits)
    note run4 = ask_step(3) [OF run3 [unfolded if_not_P [OF b]] False, folded s]
    have d: "\<not> (\<exists>j \<in> set (container_Containers c). ctr_LayerID j = ly_ID (l_heap l p))" using run4 no by (auto split: if_splits)
    show thesis
    proof (rule that(2) [OF p])
      show "ly_ID (l_heap l p) \<notin> snd ` (layer_refs l \<union> image_refs i \<union> container_refs c)"
        using a b d by (force simp: layer_refs_def image_refs_def container_refs_def layer_Layers_def image_Images_def container_Containers_def)
      show "delete_unused env (image_Images i) (ly_ID (l_heap l p)) w = (r, w')"
        using run4 unfolding if_not_P [OF d] delete_unused_def .
    qed
  qed (use that(1) in blast)
qed

text \<open>A layer that nothing refers to can go without a reference to it that is left.\<close>

definition kept_refs ::
  "(string \<times> string) set \<Rightarrow> (string \<times> string) set \<Rightarrow> containerStore \<Rightarrow> 'd layerStore \<Rightarrow> imageStore \<Rightarrow> containerStore \<Rightarrow> bool" where
  "kept_refs V J c0 l i c \<longleftrightarrow> layer_ok l \<and> layer_refs l = V \<and> image_refs i = J \<and> c = c0"

lemma delete_unused_refs:
  assumes "layer_ok l" and "stores w = (l, i, c)" and "layer_lookup l ident = Some p" "ly_ID (l_heap l p) = ident"
    and "delete_unused env images ident w = (r, w')"
  shows "sec (kept_refs (layer_without (layer_refs l) ident) (image_refs i) c) w'
    \<or> (\<exists>e. r = Inl e) \<and> sec (kept_refs (layer_refs l) (image_refs i) c) w'"
proof -
  let ?V = "layer_refs l" and ?J = "image_refs i"
  let ?W = "layer_without ?V ident"
  let ?P = "\<lambda>l' i' c'. layer_ok l' \<and> l' = l \<and> image_refs i' = ?J \<and> c' = c"
  let ?Q = "\<lambda>l' i' c'. kept_refs ?W ?J c l' i' c' \<or> kept_refs ?V ?J c l' i' c'"
  have del: "outcome (\<lambda>l'. ?P l' i' c') (deferredDelete drv ident) (\<lambda>_ l'. kept_refs ?W ?J c l' i' c') (\<lambda>l'. ?Q l' i' c')" for drv i' c'
  proof (rule outcomeI)
    fix s x t
    assume s: "?P s i' c'" and run: "deferredDelete drv ident s = (Inr x, t)"
    then show "kept_refs ?W ?J c t i' c'"
      using deferredDelete_refs [OF _ run, of ?V] assms(1,3,4) by (simp add: kept_refs_def with_refs_def)
  next
    fix s e t
    assume s: "?P s i' c'" and run: "deferredDelete drv ident s = (Inl e, t)"
    then show "?Q t i' c'"
      using deferredDelete_refs [OF _ run, of ?V] assms(3,4) by (auto simp: kept_refs_def with_refs_def maybe_without_def)
  qed
  have img: "outcome (\<lambda>i'. kept_refs ?W ?J c l' i' c') (image_removeMappedTopLayer k ident) (\<lambda>_ i'. kept_refs ?W ?J c l' i' c')
      (\<lambda>i'. kept_refs ?W ?J c l' i' c')" for k l' c'
    unfolding kept_refs_def by (intro outcome_preserves) (use removeMapped_refs in \<open>simp add: preserves_def\<close>)
  have each: "outcome (sec (kept_refs ?W ?J c)) (op_each (\<lambda>i. if ident \<in> set (img_MappedTopLayers i)
       then change (image_access env) (image_removeMappedTopLayer (img_ID i) ident) else op_return ()) images)
       (\<lambda>_. sec (kept_refs ?W ?J c)) (sec (kept_refs ?W ?J c))"
    by (intro outcome_each outcome_if outcome_return change_images img)
  have all: "outcome (sec ?P) (delete_unused env images ident) (\<lambda>_. sec (kept_refs ?W ?J c)) (sec ?Q)"
    unfolding delete_unused_def
  proof (rule outcome_seq)
    show "outcome (sec ?P) (change (layer_access env) (deferredDelete (se_driver env) ident)) (\<lambda>_. sec (kept_refs ?W ?J c)) (sec ?Q)"
      by (rule change_layers [OF del]) (simp add: kept_refs_def)
  qed (rule outcome_weaken [OF each]; simp add: sec_def)
  have "sec ?P w" using assms(1,2) by (simp add: sec_stores)
  then show ?thesis using outcomeD [OF all] assms(5) by (cases r) (auto simp: sec_def)
qed

lemma unused_not_dangling:
  assumes "kept_refs V (image_refs i) c l' i' c'" and "V = layer_refs l \<or> V = layer_without (layer_refs l) ident"
    and "ident \<notin> snd ` (layer_refs l \<union> image_refs i \<union> container_refs c)"
  shows "dangling_refs l' i' c' \<subseteq> dangling_refs l i c"
proof
  fix x
  assume x: "x \<in> dangling_refs l' i' c'"
  have V: "layer_refs l' = V" "V \<subseteq> layer_refs l" using assms(1,2) by (auto simp: kept_refs_def layer_without_def)
  have ref: "x \<in> snd ` layer_refs l \<union> snd ` image_refs i \<union> snd ` container_refs c" "x \<noteq> ''''" "x \<notin> fst ` V"
    using x assms(1) V unfolding dangling_refs_def kept_refs_def by auto
  then have "x \<noteq> ident" using assms(3) by blast
  then have "x \<notin> fst ` layer_refs l" using ref(3) assms(2) unfolding layer_without_def by force
  then show "x \<in> dangling_refs l i c" using ref unfolding dangling_refs_def by blast
qed

text \<open>
  C34: \<open>DeleteLayer\<close> leaves no reference to a layer that is not there. Under the locks of the three stores, whatever
  the driver does and whichever call fails, every parent, top layer or layer of a container that names no layer
  afterwards did so before. When it returns without an error, exactly the layer with the given ID or name is gone.
\<close>

theorem DeleteLayer_keeps_references:
  assumes "layer_ok (lk_store (st_layers w))" and "DeleteLayer_locked env k w = (r, w')"
  shows "dangling w' \<subseteq> dangling w
    \<and> (r = Inr () \<longrightarrow> (\<exists>p. layer_lookup (lk_store (st_layers w)) k = Some p
         \<and> layer_refs (lk_store (st_layers w')) = layer_without (layer_refs (lk_store (st_layers w))) (ly_ID (l_heap (lk_store (st_layers w)) p))))
    \<and> image_refs (lk_store (st_images w')) = image_refs (lk_store (st_images w))
    \<and> lk_store (st_containers w') = lk_store (st_containers w)"
proof -
  obtain l i c where s: "stores w = (l, i, c)" by (cases "stores w")
  then have parts: "lk_store (st_layers w) = l" "lk_store (st_images w) = i" "lk_store (st_containers w) = c" by (auto simp: stores_def)
  from assms(2) s show ?thesis
  proof (cases rule: DeleteLayer_cases)
    case (2 p)
    let ?ident = "ly_ID (l_heap l p)"
    have ok: "layer_ok l" using assms(1) parts by simp
    have p: "p \<in> set (l_layers l)" using layers.find_mem [OF ok 2(1)] by simp
    have "layer_lookup l ?ident = Some p" using layers.byid_iff [OF ok, of ?ident p] p by (simp add: layer_lookup_def)
    note kept = delete_unused_refs [OF ok s this refl 2(3)]
    then obtain V where V: "sec (kept_refs V (image_refs i) c) w'" "V = layer_refs l \<or> V = layer_without (layer_refs l) ?ident" by blast
    have "dangling w' \<subseteq> dangling w"
      unfolding dangling_def parts by (rule unused_not_dangling [OF V(1) [unfolded sec_def] V(2) 2(2)])
    moreover have "layer_refs (lk_store (st_layers w')) = layer_without (layer_refs l) ?ident" if "r = Inr ()"
      using kept that by (auto simp: sec_def kept_refs_def)
    ultimately show ?thesis using V(1) 2(1) by (simp add: parts sec_def kept_refs_def)
  qed (auto simp: stores_def dangling_def)
qed

text \<open>A store with one layer, locked as it is in the critical section.\<close>

definition layered_store :: "unit store" where
  "layered_store = (new_store [] [])\<lparr>st_layers := held_as Writing sample_layers, st_images := held_as Writing empty_images,
     st_containers := held_as Writing empty_containers\<rparr>"

lemma sample_layers_refs: "layer_refs sample_layers = {(''a1'', '''')}" "layer_lookup sample_layers ''base'' = Some 0"
    "ly_ID (l_heap sample_layers 0) = ''a1''"
  by (simp_all add: layer_refs_def sample_layers_def empty_layers_def null_driver_def plain_layer_def toc_output_def layer_run_simps
      layer_state_simps del: op_each.simps)

lemma layered_store_run: "fst (DeleteLayer_locked plain_env ''base'' layered_store) = Inr ()"
  by (simp add: DeleteLayer_locked_def layered_store_def new_store_def plain_env_def ask_def change_def guarded_def zoom_def query_def modes_def
      layer_access_def image_access_def container_access_def locked_call_def held_as_def layer_Get_def layer_Layers_def image_Images_def
      container_Containers_def empty_images_def empty_containers_def deferredDelete_def mount_turns_def unmount_locked_def
      sample_layers_def empty_layers_def null_driver_def plain_layer_def toc_output_def layer_run_simps layer_state_simps del: op_each.simps)

theorem DeleteLayer_keeps_references_witness:
  "layer_refs (lk_store (st_layers layered_store)) = {(''a1'', '''')}
   \<and> layer_refs (lk_store (st_layers (snd (DeleteLayer_locked plain_env ''base'' layered_store)))) = {}
   \<and> dangling (snd (DeleteLayer_locked plain_env ''base'' layered_store)) = {}"
proof -
  have l: "lk_store (st_layers layered_store) = sample_layers" by (simp add: layered_store_def held_as_def)
  have ok: "layer_ok sample_layers" by (rule layer_reach_ok [OF sample_layers_reach empty_layers_ok])
  have run: "DeleteLayer_locked plain_env ''base'' layered_store = (Inr (), snd (DeleteLayer_locked plain_env ''base'' layered_store))"
    using layered_store_run by (simp add: prod_eq_iff)
  have none: "dangling layered_store = {}"
    by (simp add: dangling_def dangling_refs_def l sample_layers_refs)
       (simp add: layered_store_def held_as_def image_refs_def container_refs_def empty_images_def empty_containers_def)
  from DeleteLayer_keeps_references [OF _ run] ok none show ?thesis
    by (simp add: l sample_layers_refs layer_without_def)
qed

section \<open>Deleting an image\<close>

text \<open>
  What the loop over the parents has found when it ends: the mapped top layers, and layers that are not in use
  and whose children are all among those found.
\<close>

definition chain_found :: "(string \<Rightarrow> bool) \<Rightarrow> Layer list \<Rightarrow> string list \<Rightarrow> string list \<Rightarrow> bool" where
  "chain_found used layers slated r \<longleftrightarrow>
     set slated \<subseteq> set r \<and> (\<forall>x \<in> set r - set slated. \<not> used x \<and> set (children layers x) \<subseteq> set r)"

lemma removal_chain_found:
  assumes "removal_chain used parent_of layers img slated layer = Some r"
  shows "chain_found used layers slated r"
proof (rule removal_chain.raw_induct [OF _ assms])
  fix chain and used :: "string \<Rightarrow> bool" and parent_of layers img slated layer r
  assume IH: "\<And>used parent_of layers img slated layer r. chain used parent_of layers img slated layer = Some r \<Longrightarrow> chain_found used layers slated r"
    and step: "(if layer = '''' \<or> used layer \<or> hasChildrenNotBeingRemoved layers img slated layer then Some slated
       else chain used parent_of layers img (slated @ [layer]) (parent_of layer)) = Some r"
  show "chain_found used layers slated r"
  proof (cases "layer = '''' \<or> used layer \<or> hasChildrenNotBeingRemoved layers img slated layer")
    case False
    then have "chain_found used layers (slated @ [layer]) r" using IH [of used parent_of layers img "slated @ [layer]" "parent_of layer" r] step by simp
    moreover have "set (children layers layer) \<subseteq> set slated"
      using False unfolding hasChildrenNotBeingRemoved_def by (auto split: if_splits)
    ultimately show ?thesis using False unfolding chain_found_def by auto
  qed (use step in \<open>simp add: chain_found_def\<close>)
qed

lemma ask_layers:
  assumes "\<And>i c. outcome (\<lambda>l. P l i c) m (\<lambda>x l. R x l i c) (\<lambda>l. Q l i c)" and "\<And>l i c. P l i c \<Longrightarrow> Q l i c"
  shows "outcome (sec P) (ask (layer_access env) m) (\<lambda>x. sec (R x)) (sec Q)"
  by (rule outcomeI)
    (auto simp: ask_def guarded_def zoom_def layer_access_def locked_call_def misuse_def sec_def split: prod.splits if_splits
      intro: assms(2) outcomeD [OF assms(1)])

lemma gone_view: "keeps_view m \<Longrightarrow> outcome (gone V D) m (\<lambda>_. gone V D) (gone V D)"
  by (rule outcome_preserves, erule keeps_view_preserves) (auto simp: gone_def dest: layer_refs_view layer_ok_view)

lemma query_res_preserves: "preserves P (query_res f)"
  by (simp add: preserves_def query_res_def)

lemma view_layer_size: "keeps_view (layer_size env l)"
  unfolding layer_size_def layer_DiffSize_def case_prod_beta
  by (intro keeps_viewI preserves_intros query_res_preserves) simp

text \<open>The last part of \<open>deleteImage\<close> touches the layer store only.\<close>

definition layers_gone ::
  "(string \<times> string) set \<Rightarrow> imageStore \<Rightarrow> containerStore \<Rightarrow> string set \<Rightarrow> 'd layerStore \<Rightarrow> imageStore \<Rightarrow> containerStore \<Rightarrow> bool" where
  "layers_gone V i0 c0 D l i c \<longleftrightarrow> gone V D l \<and> i = i0 \<and> c = c0"

lemma outcome_conj: "(b \<Longrightarrow> outcome P m R Q) \<Longrightarrow> outcome (\<lambda>s. P s \<and> b) m (\<lambda>x s. R x s \<and> b) (\<lambda>s. Q s \<and> b)"
  by (rule outcomeI) (blast dest: outcomeD)+

lemma layer_sizes_gone:
  "outcome (sec (layers_gone V i0 c0 D)) (layer_sizes env ls) (\<lambda>_. sec (layers_gone V i0 c0 D)) (sec (layers_gone V i0 c0 D))"
proof (induction ls)
  case (Cons l ls)
  have "outcome (sec (layers_gone V i0 c0 D)) (ask (layer_access env) (layer_size env l)) (\<lambda>_. sec (layers_gone V i0 c0 D)) (sec (layers_gone V i0 c0 D))"
    unfolding layers_gone_def by (intro ask_layers outcome_conj gone_view view_layer_size)
  with Cons show ?case by (auto intro!: outcome_then outcome_return)
qed (simp add: outcome_return)

lemma delete_layers_gone:
  "outcome (sec (layers_gone V i0 c0 D)) (op_each (\<lambda>l. change (layer_access env) (deferredDelete drv l)) ls)
     (\<lambda>_. sec (layers_gone V i0 c0 (D \<union> set ls))) (\<lambda>_. True)"
proof (induction ls arbitrary: D)
  case (Cons l ls)
  have "outcome (sec (layers_gone V i0 c0 D)) (change (layer_access env) (deferredDelete drv l))
      (\<lambda>_. sec (layers_gone V i0 c0 (insert l D))) (sec (layers_gone V i0 c0 D))"
    unfolding layers_gone_def by (intro change_layers outcome_conj deferredDelete_gone)
  then have "outcome (sec (layers_gone V i0 c0 D)) (change (layer_access env) (deferredDelete drv l))
      (\<lambda>_. sec (layers_gone V i0 c0 (insert l D))) (\<lambda>_. True)" by (rule outcome_weaken) simp_all
  from outcome_seq [OF this Cons] show ?case by simp
qed (simp add: outcome_return)

lemma finish_deletion_gone:
  "outcome (sec (layers_gone V i0 c0 {})) (finish_deletion env True withSize (True, ls, n))
     (\<lambda>r. sec (\<lambda>l i c. layers_gone V i0 c0 (set ls) l i c \<and> fst r = ls)) (\<lambda>_. True)"
proof -
  let ?S = "sec (layers_gone V i0 c0 {})"
  have size: "outcome ?S (if withSize then op_then (layer_sizes env ls) (\<lambda>m. op_return (n + m)) else op_return 0) (\<lambda>_. ?S) (\<lambda>_. True)"
    by (intro outcome_if outcome_then [OF outcome_weaken [OF layer_sizes_gone]] outcome_return) simp_all
  have del: "outcome ?S (op_each (\<lambda>l. change (layer_access env) (deferredDelete (se_driver env) l)) ls)
     (\<lambda>_. sec (layers_gone V i0 c0 (set ls))) (\<lambda>_. True)" using delete_layers_gone [of V i0 c0 "{}"] by simp
  show ?thesis
    unfolding finish_deletion_def prod.case not_True_eq_False if_False if_True
    by (rule outcome_then [OF size], rule outcome_seq [OF del], rule outcome_return) (simp add: sec_def)
qed

text \<open>The image goes from the image store.\<close>

lemma image_unlink_refs:
  assumes "image_ok valid s" and "p \<in> set (i_images s)"
  shows "image_refs (image_unlink p s) = {x \<in> image_refs s. fst x \<noteq> img_ID (i_heap s p)}"
proof -
  have heap: "i_heap (image_unlink p s) = i_heap s" by (simp add: image_unlink_def Let_def)
  have R: "set (i_images (image_unlink p s)) = {q \<in> set (i_images s). img_ID (i_heap s q) \<noteq> img_ID (i_heap s p)}"
    by (simp add: image_unlink_def Let_def)
  show ?thesis unfolding image_refs_def heap R image_filter [symmetric] fst_conv ..
qed

lemma image_Delete_refs:
  assumes ok: "image_ok valid s" and p: "image_lookup s k = Some p"
  shows "image_Delete k s = (Inr x, t) \<Longrightarrow> image_refs t = {x \<in> image_refs s. fst x \<noteq> img_ID (i_heap s p)}"
proof -
  assume run: "image_Delete k s = (Inr x, t)"
  let ?J = "{x \<in> image_refs s. fst x \<noteq> img_ID (i_heap s p)}"
  have mem: "p \<in> set (i_images s)" using images.find_mem [OF ok p] by simp
  have "preserves (\<lambda>s. image_refs s = ?J) (op_seq image_Save (op_seq io_call
      (op_update (\<lambda>s. s\<lparr>i_data := (\<lambda>(j, key). if j = ident then None else i_data s (j, key))\<rparr>))))" for ident
    by (intro preserves_intros preserves_update image_Save_preserves) (simp_all add: image_refs_def)
  from preservesD [OF this [of "img_ID (i_heap s p)"] image_unlink_refs [OF ok mem]] run p show ?thesis
    by (auto simp: image_Delete_def Image_Store.writable_def with_image_def op_read_def op_fail_def op_seq_def [of "op_update _"]
        op_then_def [of "op_update _"] op_update_def [of "image_unlink _"] split: if_splits)
qed

lemma change_images_run:
  assumes "change (image_access env) m w = (Inr x, w')"
  obtains i where "m (lk_store (st_images w)) = (Inr x, i)" "w' = w\<lparr>st_images := (st_images w)\<lparr>lk_store := i\<rparr>\<rparr>"
  using assms by (auto simp: change_def guarded_def zoom_def image_access_def locked_call_def misuse_def split: if_splits prod.splits)

lemma delete_from_run:
  assumes "delete_from env (image_access env) True img w = (Inr slated, w1)" and "stores w = (l, i, c)"
  obtains i' x where "image_Delete (img_ID img) i = (Inr x, i')" "w1 = w\<lparr>st_images := (st_images w)\<lparr>lk_store := i'\<rparr>\<rparr>"
    "chain_found (\<lambda>l. container_Exists c l \<or> l \<in> set (other_top_layers (image_Images i) (img_ID img))) (layer_Layers l)
       (img_MappedTopLayers img) slated"
proof -
  have s: "l = lk_store (st_layers w)" "i = lk_store (st_images w)" "c = lk_store (st_containers w)"
    using assms(2) by (simp_all add: stores_def)
  have no: "\<not> (\<exists>e. Inr slated = Inl e \<and> stores w1 = stores w)" by simp
  note run = ask_step(3) [OF assms(1) [unfolded delete_from_def Let_def] no, folded s]
  have a: "\<not> (\<exists>c \<in> set (container_Containers c). ctr_ImageID c = img_ID img)" using run by (auto simp: op_fail_def split: if_splits)
  note run2 = ask_step(2) [OF run [unfolded if_not_P [OF a]] no, folded s]
  note run3 = ask_step(1) [OF run2 no, folded s]
  note run4 = ask_step(3) [OF run3 no, folded s, unfolded if_True op_seq_def]
  then obtain x w2 where x: "change (image_access env) (image_Delete (img_ID img)) w = (Inr x, w2)"
    by (auto simp: op_then_def split: prod.splits sum.splits)
  from run4 x have "w1 = w2" and chain: "removal_chain (\<lambda>l. container_Exists c l \<or> l \<in> set (other_top_layers (image_Images i) (img_ID img)))
      (parent_in l) (layer_Layers l) img (img_MappedTopLayers img) (img_TopLayer img) = Some slated"
    by (auto simp: op_then_def op_fail_def op_return_def split: option.splits)
  with change_images_run [OF x] that removal_chain_found [OF chain] show thesis by (auto simp: s)
qed

lemma deleteImage_run:
  assumes "deleteImage_locked env k True withSize w = (Inr (ls, n), w')" and s: "stores w = (l, i, c)"
    and "st_rwImages w = []" and get: "image_Get i k = Inr img" and ok: "layer_ok l"
  obtains i' x where "image_Delete (img_ID img) i = (Inr x, i')" "sec (layers_gone (layer_refs l) i' c (set ls)) w'"
    "chain_found (\<lambda>l. container_Exists c l \<or> l \<in> set (other_top_layers (image_Images i) (img_ID img))) (layer_Layers l)
       (img_MappedTopLayers img) ls"
proof -
  have i: "lk_store (st_images w) = i" using s by (simp add: stores_def)
  have no: "\<not> (\<exists>e. Inr (ls, n) = Inl e \<and> stores w' = stores w)" by simp
  note run = ask_step(2) [OF assms(1) [unfolded deleteImage_locked_def delete_step_def] no, unfolded i get sum.case]
  then obtain slated w1 where d: "delete_from env (image_access env) True img w = (Inr slated, w1)"
    by (auto simp: op_then_def split: prod.splits sum.splits)
  from delete_from_run [OF d s] obtain i' x where f: "image_Delete (img_ID img) i = (Inr x, i')"
    "w1 = w\<lparr>st_images := (st_images w)\<lparr>lk_store := i'\<rparr>\<rparr>"
    "chain_found (\<lambda>l. container_Exists c l \<or> l \<in> set (other_top_layers (image_Images i) (img_ID img))) (layer_Layers l)
       (img_MappedTopLayers img) slated" .
  have "st_rwImages w1 = []" using f(2) assms(3) by simp
  with run d obtain m where fin: "finish_deletion env True withSize (True, slated, m) w1 = (Inr (ls, n), w')"
    by (auto simp: op_then_def op_read_def)
  have "sec (layers_gone (layer_refs l) i' c {}) w1"
    using s f(2) ok by (simp add: sec_def stores_def layers_gone_def gone_def)
  from outcomeD(1) [OF finish_deletion_gone this fin] have "sec (layers_gone (layer_refs l) i' c (set ls)) w'" "slated = ls"
    by (simp_all add: sec_def)
  with f show thesis using that by blast
qed

lemma child_found:
  assumes "chain_found used (layer_Layers l) mapped layers" and "gone (layer_refs l) (set layers) l'"
  shows "snd ` layer_refs l' \<inter> set layers \<subseteq> set mapped"
proof
  fix parent
  assume "parent \<in> snd ` layer_refs l' \<inter> set layers"
  then obtain x where x: "(x, parent) \<in> layer_refs l'" and parent: "parent \<in> set layers" by force
  have "(x, parent) \<in> layer_refs l" "x \<notin> set layers" using assms(2) x by (auto simp: gone_def)
  then have "x \<in> set (children (layer_Layers l) parent)" by (auto simp: layer_refs_def children_def layer_Layers_def)
  then show "parent \<in> set mapped" using assms(1) parent \<open>x \<notin> set layers\<close> unfolding chain_found_def by blast
qed

lemma top_found:
  assumes "chain_found used ls mapped layers" and "\<And>x. x \<in> set (other_top_layers (image_Images i) ident) \<Longrightarrow> used x"
    and "J = {x \<in> image_refs i. fst x \<noteq> ident}"
  shows "snd ` J \<inter> set layers \<subseteq> set mapped"
proof
  fix top
  assume "top \<in> snd ` J \<inter> set layers"
  then obtain p where "p \<in> set (i_images i)" "img_ID (i_heap i p) \<noteq> ident" "img_TopLayer (i_heap i p) = top" and top: "top \<in> set layers"
    unfolding assms(3) image_refs_def by auto
  then have "top \<in> set (other_top_layers (image_Images i) ident)"
    by (auto simp: other_top_layers_def image_Images_def)
  then show "top \<in> set mapped" using assms(1,2) top unfolding chain_found_def by blast
qed


text \<open>A store with one image and its top layer.\<close>

definition top_layers :: "unit layerStore" where
  "top_layers = snd (layer_create null_driver 1 [] ''l1'' None [] '''' plain_layer True (StagingDirectory toc_output) (empty_layers ()))"

definition imaged_store :: "unit store" where
  "imaged_store = layered_store\<lparr>st_layers := held_as Writing top_layers, st_images := held_as Writing sample_images\<rparr>"

lemma removal_chain_one:
  assumes "layer \<noteq> ''''" and "\<not> used layer" and "\<not> hasChildrenNotBeingRemoved layers img slated layer" and "parent_of layer = ''''"
  shows "removal_chain used parent_of layers img slated layer = Some (slated @ [layer])"
  using assms by (simp add: removal_chain.simps [of used parent_of layers img slated layer]
      removal_chain.simps [of used parent_of layers img "slated @ [layer]" "''''"])

lemma no_containers: "container_Exists empty_containers k = False" "container_Containers empty_containers = []"
  using containers.find_mem [OF empty_containers_ok, of k]
  by (cases "container_lookup empty_containers k"; simp add: container_Exists_def container_Containers_def empty_containers_def)+

lemma imaged_store_run: "fst (deleteImage_locked plain_env ''busybox'' True False imaged_store) = Inr ([''l1''], 0)"
  by (simp add: deleteImage_locked_def delete_step_def delete_from_def finish_deletion_def imaged_store_def layered_store_def new_store_def
      plain_env_def ask_def change_def guarded_def zoom_def query_def modes_def image_Get_def image_lookup_def
      layer_access_def image_access_def container_access_def locked_call_def held_as_def layer_Get_def layer_Layers_def image_Images_def
      no_containers deferredDelete_def mount_turns_def unmount_locked_def removal_chain_one hasChildrenNotBeingRemoved_def
      children_def other_top_layers_def parent_in_def image_Delete_def Image_Store.writable_def with_image_def image_unlink_def
      sample_images_def image_run_simps
      top_layers_def empty_layers_def null_driver_def plain_layer_def toc_output_def layer_run_simps layer_state_simps)


end
