(* ===== verification/Lock_File.thy ===== *)
theory Lock_File
  imports Store_Base "HOL-Library.Word"
begin

text \<open>
  \<open>storage/pkg/lockfile\<close> and \<open>storage/internal/rawfilelock\<close>: a lock shared by the goroutines of a process and, through a
  lock on a file, by processes. The goroutines of all processes interleave in any order; a step is what happens
  between two synchronisations. A mutex of the package \<open>sync\<close> is a flag, a \<open>sync.RWMutex\<close> a flag and a number of readers;
  a lock on the file belongs to a process and is lost when the process closes a handle of the file, as
  \<open>fcntl\<close> documents.

  The second part is the mark of the last write that the file carries.
\<close>

section \<open>Data\<close>

datatype LockType = ReadLock | WriteLock

record RWMutex =
  rw_readers :: nat
  rw_writer :: bool

definition rw_free :: "LockType \<Rightarrow> RWMutex \<Rightarrow> bool" where
  "rw_free t m \<longleftrightarrow> \<not> rw_writer m \<and> (t = WriteLock \<longrightarrow> rw_readers m = 0)"

fun rw_take :: "LockType \<Rightarrow> RWMutex \<Rightarrow> RWMutex" where
  "rw_take ReadLock m = m\<lparr>rw_readers := Suc (rw_readers m)\<rparr>"
| "rw_take WriteLock m = m\<lparr>rw_writer := True\<rparr>"

text \<open>\<open>None\<close> is the fatal error of a mutex that is unlocked without being locked.\<close>

fun rw_drop :: "LockType \<Rightarrow> RWMutex \<Rightarrow> RWMutex option" where
  "rw_drop ReadLock m = (if rw_readers m = 0 then None else Some (m\<lparr>rw_readers := rw_readers m - 1\<rparr>))"
| "rw_drop WriteLock m = (if \<not> rw_writer m then None else Some (m\<lparr>rw_writer := False\<rparr>))"

text \<open>\<open>lf_fd\<close> is the lock that the process has on the file.\<close>

record LockFile =
  lf_file :: string
  lf_ro :: bool
  lf_rwMutex :: RWMutex
  lf_stateMutex :: bool
  lf_counter :: int
  lf_lockType :: LockType
  lf_locked :: bool
  lf_fd :: "LockType option"

definition lf_IsReadWrite :: "LockFile \<Rightarrow> bool" where
  "lf_IsReadWrite l \<longleftrightarrow> \<not> lf_ro l"

text \<open>\<open>opens\<close>: whether the file, or the directory and then the file, can be opened.\<close>

definition createLockFileForPath :: "string \<Rightarrow> bool \<Rightarrow> bool \<Rightarrow> LockFile res" where
  "createLockFileForPath path ro opens =
     (if \<not> opens then Inl ErrIO
      else Inr \<lparr>lf_file = path, lf_ro = ro, lf_rwMutex = \<lparr>rw_readers = 0, rw_writer = False\<rparr>, lf_stateMutex = False, lf_counter = 0,
                lf_lockType = (if ro then ReadLock else WriteLock), lf_locked = False, lf_fd = None\<rparr>)"

text \<open>
  The table of the process has one object for a path. The objects are at addresses below \<open>lt_next\<close>; the path is
  absolute and clean.
\<close>

record lock_table =
  lt_lockFiles :: "string \<rightharpoonup> nat"
  lt_heap :: "nat \<Rightarrow> LockFile"
  lt_next :: nat

definition getLockfile :: "string \<Rightarrow> bool \<Rightarrow> bool \<Rightarrow> (lock_table, nat) op" where
  "getLockfile cleanPath ro opens s =
     (case lt_lockFiles s cleanPath of
        Some a \<Rightarrow>
          if ro \<and> lf_IsReadWrite (lt_heap s a) then (Inl (ErrFmt ''is not a read-only lock''), s)
          else if \<not> ro \<and> \<not> lf_IsReadWrite (lt_heap s a) then (Inl (ErrFmt ''is not a read-write lock''), s)
          else (Inr a, s)
      | None \<Rightarrow>
          (case createLockFileForPath cleanPath ro opens of
             Inl e \<Rightarrow> (Inl e, s)
           | Inr l \<Rightarrow> (Inr (lt_next s), s\<lparr>lt_lockFiles := (lt_lockFiles s)(cleanPath \<mapsto> lt_next s), lt_heap := (lt_heap s)(lt_next s := l),
                                      lt_next := Suc (lt_next s)\<rparr>)))"

definition GetLockFile :: "string \<Rightarrow> bool \<Rightarrow> (lock_table, nat) op" where
  "GetLockFile cleanPath opens = getLockfile cleanPath False opens"

definition GetROLockFile :: "string \<Rightarrow> bool \<Rightarrow> (lock_table, nat) op" where
  "GetROLockFile cleanPath opens = getLockfile cleanPath True opens"

section \<open>Locking and unlocking\<close>

text \<open>
  Where a goroutine is. The flag tells \<open>tryLock\<close> from \<open>lock\<close>. \<open>OpenFailed\<close> is the panic of \<open>lock\<close>, which releases
  \<open>stateMutex\<close> but not \<open>rwMutex\<close>.
\<close>

datatype pc =
    Idle
  | Wants bool LockType
  | HasMutex bool LockType
  | HasState bool LockType
  | Holding LockType
  | Releasing LockType
  | OpenFailed LockType
  | Panicked string

text \<open>The start of \<open>Lock\<close>, \<open>RLock\<close>, \<open>TryLock\<close> and \<open>TryRLock\<close>.\<close>

definition call_lock :: "bool \<Rightarrow> LockType \<Rightarrow> LockFile \<Rightarrow> pc" where
  "call_lock nb t l =
     (if t = WriteLock \<and> lf_ro l then Panicked ''can't take write lock on read-only lock file'' else Wants nb t)"

definition drop_mutex :: "LockType \<Rightarrow> LockFile \<Rightarrow> pc \<times> LockFile" where
  "drop_mutex t l =
     (case rw_drop t (lf_rwMutex l) of
        None \<Rightarrow> (Panicked ''unlock of unlocked RWMutex'', l)
      | Some m \<Rightarrow> (Idle, l\<lparr>lf_rwMutex := m\<rparr>))"

text \<open>
  The rest of \<open>lock\<close> and \<open>tryLock\<close>, with \<open>stateMutex\<close> held. \<open>free\<close>: whether other processes leave the lock on the file free;
  \<open>lock\<close> waits for that, \<open>None\<close>, and \<open>tryLock\<close> closes the handle again.
\<close>

definition enter_lock :: "bool \<Rightarrow> LockType \<Rightarrow> bool \<Rightarrow> bool \<Rightarrow> LockFile \<Rightarrow> (pc \<times> LockFile) option" where
  "enter_lock nb t opens free l =
     (if lf_counter l = 0
      then if \<not> opens then Some (if nb then drop_mutex t (l\<lparr>lf_stateMutex := False\<rparr>) else (OpenFailed t, l\<lparr>lf_stateMutex := False\<rparr>))
           else if \<not> free then (if nb then Some (drop_mutex t (l\<lparr>lf_fd := None, lf_stateMutex := False\<rparr>)) else None)
           else Some (Holding t, l\<lparr>lf_fd := Some t, lf_lockType := t, lf_locked := True, lf_counter := 1, lf_stateMutex := False\<rparr>)
      else Some (Holding t, l\<lparr>lf_counter := lf_counter l + 1, lf_stateMutex := False\<rparr>))"

text \<open>\<open>Unlock\<close>, with \<open>stateMutex\<close> held; its panics leave \<open>stateMutex\<close> locked.\<close>

definition leave_lock :: "LockFile \<Rightarrow> pc \<times> LockFile" where
  "leave_lock l =
     (if \<not> lf_locked l then (Panicked ''calling Unlock on unlocked lock'', l)
      else let l1 = l\<lparr>lf_counter := lf_counter l - 1\<rparr>
           in if lf_counter l1 < 0 then (Panicked ''has been unlocked too often'', l1)
              else let l2 = (if lf_counter l1 = 0 then l1\<lparr>lf_locked := False, lf_fd := None\<rparr> else l1)
                   in case drop_mutex (lf_lockType l2) l2 of
                        (Idle, l3) \<Rightarrow> (Idle, l3\<lparr>lf_stateMutex := False\<rparr>)
                      | failed \<Rightarrow> failed)"

inductive thread_step :: "(LockType \<Rightarrow> bool) \<Rightarrow> LockFile \<Rightarrow> pc \<Rightarrow> LockFile \<Rightarrow> pc \<Rightarrow> bool" where
  ts_call: "thread_step free l Idle l (call_lock nb t l)"
| ts_mutex: "rw_free t (lf_rwMutex l) \<Longrightarrow> thread_step free l (Wants nb t) (l\<lparr>lf_rwMutex := rw_take t (lf_rwMutex l)\<rparr>) (HasMutex nb t)"
| ts_mutex_busy: "thread_step free l (Wants True t) l Idle"
| ts_state: "\<not> lf_stateMutex l \<Longrightarrow> thread_step free l (HasMutex nb t) (l\<lparr>lf_stateMutex := True\<rparr>) (HasState nb t)"
| ts_state_busy: "drop_mutex t l = (c, l') \<Longrightarrow> thread_step free l (HasMutex True t) l' c"
| ts_enter: "enter_lock nb t opens (free t) l = Some (c, l') \<Longrightarrow> thread_step free l (HasState nb t) l' c"
| ts_unlock: "\<not> lf_stateMutex l \<Longrightarrow> thread_step free l (Holding t) (l\<lparr>lf_stateMutex := True\<rparr>) (Releasing t)"
| ts_leave: "leave_lock l = (c, l') \<Longrightarrow> thread_step free l (Releasing t) l' c"

text \<open>All processes that use the file, each with its object and its goroutines.\<close>

type_synonym world = "(LockFile \<times> pc list) list"

definition file_free :: "world \<Rightarrow> nat \<Rightarrow> LockType \<Rightarrow> bool" where
  "file_free w p t \<longleftrightarrow>
     list_all (\<lambda>q. q = p \<or> (case lf_fd (fst (w ! q)) of None \<Rightarrow> True | Some t' \<Rightarrow> t = ReadLock \<and> t' = ReadLock)) [0 ..< length w]"

inductive world_step :: "world \<Rightarrow> world \<Rightarrow> bool" where
  world_step: "p < length w \<Longrightarrow> w ! p = (l, cs) \<Longrightarrow> i < length cs \<Longrightarrow> thread_step (file_free w p) l (cs ! i) l' c
     \<Longrightarrow> world_step w (w[p := (l', cs[i := c])])"

inductive world_reach :: "world \<Rightarrow> world \<Rightarrow> bool" for w where
  wr_refl: "world_reach w w"
| wr_step: "world_reach w u \<Longrightarrow> world_step u v \<Longrightarrow> world_reach w v"

definition new_process :: "LockFile \<times> pc list \<Rightarrow> bool" where
  "new_process x \<longleftrightarrow> (\<exists>path ro. createLockFileForPath path ro True = Inr (fst x)) \<and> list_all (\<lambda>c. c = Idle) (snd x)"

section \<open>The invariant of a process\<close>

fun in_mutex :: "LockType \<Rightarrow> pc \<Rightarrow> bool" where
  "in_mutex t (HasMutex _ u) \<longleftrightarrow> u = t"
| "in_mutex t (HasState _ u) \<longleftrightarrow> u = t"
| "in_mutex t (Holding u) \<longleftrightarrow> u = t"
| "in_mutex t (Releasing u) \<longleftrightarrow> u = t"
| "in_mutex t (OpenFailed u) \<longleftrightarrow> u = t"
| "in_mutex t _ \<longleftrightarrow> False"

fun in_state :: "pc \<Rightarrow> bool" where
  "in_state (HasState _ _) \<longleftrightarrow> True"
| "in_state (Releasing _) \<longleftrightarrow> True"
| "in_state _ \<longleftrightarrow> False"

fun in_lock :: "LockType \<Rightarrow> pc \<Rightarrow> bool" where
  "in_lock t (Holding u) \<longleftrightarrow> u = t"
| "in_lock t (Releasing u) \<longleftrightarrow> u = t"
| "in_lock t _ \<longleftrightarrow> False"

fun entering :: "LockType \<Rightarrow> pc \<Rightarrow> bool" where
  "entering t (HasState _ u) \<longleftrightarrow> u = t"
| "entering t _ \<longleftrightarrow> False"

fun misused :: "pc \<Rightarrow> bool" where
  "misused (Panicked m) \<longleftrightarrow> m \<noteq> ''can't take write lock on read-only lock file''"
| "misused _ \<longleftrightarrow> False"

definition count_pc :: "(pc \<Rightarrow> bool) \<Rightarrow> pc list \<Rightarrow> nat" where
  "count_pc P cs = length (filter P cs)"

lemma count_pc_upd:
  assumes "i < length cs"
  shows "P (cs ! i) = P c \<Longrightarrow> count_pc P (cs[i := c]) = count_pc P cs"
    and "\<not> P (cs ! i) \<Longrightarrow> P c \<Longrightarrow> count_pc P (cs[i := c]) = Suc (count_pc P cs)"
    and "P (cs ! i) \<Longrightarrow> \<not> P c \<Longrightarrow> Suc (count_pc P (cs[i := c])) = count_pc P cs"
proof -
  have "(P (cs ! i) = P c \<longrightarrow> count_pc P (cs[i := c]) = count_pc P cs)
    \<and> (\<not> P (cs ! i) \<longrightarrow> P c \<longrightarrow> count_pc P (cs[i := c]) = Suc (count_pc P cs))
    \<and> (P (cs ! i) \<longrightarrow> \<not> P c \<longrightarrow> Suc (count_pc P (cs[i := c])) = count_pc P cs)"
    using assms
  proof (induction cs arbitrary: i)
    case (Cons d cs)
    then show ?case by (cases i) (simp_all add: count_pc_def)
  qed simp
  then show "P (cs ! i) = P c \<Longrightarrow> count_pc P (cs[i := c]) = count_pc P cs"
    "\<not> P (cs ! i) \<Longrightarrow> P c \<Longrightarrow> count_pc P (cs[i := c]) = Suc (count_pc P cs)"
    "P (cs ! i) \<Longrightarrow> \<not> P c \<Longrightarrow> Suc (count_pc P (cs[i := c])) = count_pc P cs" by blast+
qed

lemma count_pc_0: "count_pc P cs = 0 \<longleftrightarrow> (\<forall>c \<in> set cs. \<not> P c)"
  by (simp add: count_pc_def filter_empty_conv)

lemma count_pc_pos: "i < length cs \<Longrightarrow> P (cs ! i) \<Longrightarrow> 0 < count_pc P cs"
  using count_pc_0 [of P cs] nth_mem [of i cs] by auto

lemma count_pc_less: "(\<And>c. P c \<Longrightarrow> Q c) \<Longrightarrow> count_pc P cs \<le> count_pc Q cs"
  unfolding count_pc_def by (induction cs) auto

lemma count_pc_two:
  assumes "i < length cs" "j < length cs" "i \<noteq> j" "P (cs ! i)" "P (cs ! j)"
  shows "2 \<le> count_pc P cs"
proof -
  have "{i, j} \<subseteq> {k. k < length cs \<and> P (cs ! k)}" using assms by auto
  from card_mono [OF _ this] assms(3) show ?thesis by (simp add: count_pc_def length_filter_conv_card)
qed

text \<open>What the fields of the object count.\<close>

fun rw_count :: "LockType \<Rightarrow> RWMutex \<Rightarrow> nat" where
  "rw_count ReadLock m = rw_readers m"
| "rw_count WriteLock m = (if rw_writer m then 1 else 0)"

definition proc_ok :: "LockFile \<Rightarrow> pc list \<Rightarrow> bool" where
  "proc_ok l cs \<longleftrightarrow>
     (\<forall>t. count_pc (in_mutex t) cs = rw_count t (lf_rwMutex l))
     \<and> (rw_writer (lf_rwMutex l) \<longrightarrow> rw_readers (lf_rwMutex l) = 0)
     \<and> count_pc in_state cs = (if lf_stateMutex l then 1 else 0)
     \<and> lf_counter l = int (if lf_locked l then count_pc (in_lock (lf_lockType l)) cs else 0)
     \<and> (lf_locked l \<longrightarrow> 0 < count_pc (in_lock (lf_lockType l)) cs)
     \<and> (\<forall>t. count_pc (in_lock t) cs = 0 \<or> lf_locked l \<and> t = lf_lockType l)
     \<and> lf_fd l = (if lf_locked l then Some (lf_lockType l) else None)
     \<and> count_pc misused cs = 0"

lemma proc_okD:
  assumes "proc_ok l cs"
  shows "count_pc (in_mutex t) cs = rw_count t (lf_rwMutex l)" "rw_writer (lf_rwMutex l) \<Longrightarrow> rw_readers (lf_rwMutex l) = 0"
    "count_pc in_state cs = (if lf_stateMutex l then 1 else 0)"
    "lf_counter l = int (if lf_locked l then count_pc (in_lock (lf_lockType l)) cs else 0)"
    "lf_locked l \<Longrightarrow> 0 < count_pc (in_lock (lf_lockType l)) cs"
    "count_pc (in_lock t) cs = 0 \<or> lf_locked l \<and> t = lf_lockType l"
    "lf_fd l = (if lf_locked l then Some (lf_lockType l) else None)" "count_pc misused cs = 0"
  using assms unfolding proc_ok_def by blast+

text \<open>A step that takes no lock and gives none back.\<close>

lemma proc_ok_frame:
  assumes ok: "proc_ok l cs" and i: "i < length cs"
    and lock: "\<And>t. in_lock t (cs ! i) = in_lock t c" and "\<not> misused c"
    and mutex: "\<And>t. count_pc (in_mutex t) (cs[i := c]) = rw_count t (lf_rwMutex l')" "rw_writer (lf_rwMutex l') \<Longrightarrow> rw_readers (lf_rwMutex l') = 0"
    and state: "count_pc in_state (cs[i := c]) = (if lf_stateMutex l' then 1 else 0)"
    and same: "lf_counter l' = lf_counter l" "lf_locked l' = lf_locked l" "lf_lockType l' = lf_lockType l" "lf_fd l' = lf_fd l"
  shows "proc_ok l' (cs[i := c])"
proof -
  note d = proc_okD [OF ok]
  have l: "count_pc (in_lock t) (cs[i := c]) = count_pc (in_lock t) cs" for t by (rule count_pc_upd(1) [OF i lock])
  have "\<not> misused (cs ! i)" using d(8) i by (simp add: count_pc_0)
  then have "count_pc misused (cs[i := c]) = 0" using count_pc_upd(1) [OF i, of misused c] assms(4) d(8) by simp
  then show ?thesis unfolding proc_ok_def l same using mutex state d(4-7) by blast
qed

lemma mutex_taken:
  assumes "proc_ok l cs" and "i < length cs" and "rw_free t (lf_rwMutex l)" and "\<And>u. \<not> in_mutex u (cs ! i)" and "\<And>u. in_mutex u c \<longleftrightarrow> u = t"
  shows "count_pc (in_mutex u) (cs[i := c]) = rw_count u (rw_take t (lf_rwMutex l))"
    and "rw_writer (rw_take t (lf_rwMutex l)) \<Longrightarrow> rw_readers (rw_take t (lf_rwMutex l)) = 0"
proof -
  note d = proc_okD(1) [OF assms(1), of u]
  show "count_pc (in_mutex u) (cs[i := c]) = rw_count u (rw_take t (lf_rwMutex l))"
  proof (cases "u = t")
    case True
    then have "count_pc (in_mutex u) (cs[i := c]) = Suc (count_pc (in_mutex u) cs)" using count_pc_upd(2) [OF assms(2)] assms(4,5) by blast
    then show ?thesis using d True assms(3) by (cases t) (simp_all add: rw_free_def)
  next
    case False
    then have "count_pc (in_mutex u) (cs[i := c]) = count_pc (in_mutex u) cs" using count_pc_upd(1) [OF assms(2)] assms(4,5) by blast
    then show ?thesis using d False by (cases t; cases u) simp_all
  qed
  show "rw_writer (rw_take t (lf_rwMutex l)) \<Longrightarrow> rw_readers (rw_take t (lf_rwMutex l)) = 0"
    using assms(3) by (cases t) (simp_all add: rw_free_def)
qed

lemma mutex_dropped:
  assumes "proc_ok l cs" and "i < length cs" and "\<And>u. in_mutex u (cs ! i) \<longleftrightarrow> u = t" and "\<And>u. \<not> in_mutex u c"
  obtains m where "rw_drop t (lf_rwMutex l) = Some m" "\<And>u. count_pc (in_mutex u) (cs[i := c]) = rw_count u m" "rw_writer m \<Longrightarrow> rw_readers m = 0"
proof -
  note d = proc_okD(1) [OF assms(1)] and w = proc_okD(2) [OF assms(1)]
  have t: "Suc (count_pc (in_mutex t) (cs[i := c])) = rw_count t (lf_rwMutex l)"
    using count_pc_upd(3) [OF assms(2), of "in_mutex t" c] assms(3,4) d by simp
  have u: "count_pc (in_mutex u) (cs[i := c]) = rw_count u (lf_rwMutex l)" if "u \<noteq> t" for u
    using count_pc_upd(1) [OF assms(2), of "in_mutex u" c] assms(3,4) d that by simp
  show thesis
  proof (cases t)
    case ReadLock
    have "count_pc (in_mutex v) (cs[i := c]) = rw_count v (lf_rwMutex l\<lparr>rw_readers := rw_readers (lf_rwMutex l) - 1\<rparr>)" for v
      using t u [of v] ReadLock by (cases v) auto
    then show thesis by (intro that) (use ReadLock t w in auto)
  next
    case WriteLock
    have "count_pc (in_mutex v) (cs[i := c]) = rw_count v (lf_rwMutex l\<lparr>rw_writer := False\<rparr>)" for v
      using t u [of v] WriteLock by (cases v) (auto split: if_splits)
    then show thesis by (intro that) (use WriteLock t in \<open>auto split: if_splits\<close>)
  qed
qed

lemma state_dropped:
  assumes "proc_ok l cs" and "i < length cs" and "in_state (cs ! i)" and "\<not> in_state c"
  shows "count_pc in_state (cs[i := c]) = 0"
  using count_pc_upd(3) [OF assms(2), of in_state c] assms(3,4) proc_okD(3) [OF assms(1)] by (simp split: if_splits)

lemma in_lock_mutex: "count_pc (in_lock t) cs \<le> count_pc (in_mutex t) cs"
proof (rule count_pc_less)
  fix c show "in_lock t c \<Longrightarrow> in_mutex t c" by (cases c) simp_all
qed

text \<open>The reader-writer mutex admits one kind of lock at a time.\<close>

lemma one_kind:
  assumes ok: "proc_ok l cs" and "0 < count_pc (in_mutex t) cs" and "0 < count_pc (in_mutex u) cs"
  shows "t = u"
  using assms(2,3) proc_okD(1) [OF ok, of t] proc_okD(1) [OF ok, of u] proc_okD(2) [OF ok] by (cases t; cases u) (auto split: if_splits)

lemma step_back:
  assumes ok: "proc_ok l cs" and i: "i < length cs" and old: "cs ! i = HasMutex nb t \<or> cs ! i = HasState nb t"
    and same: "lf_rwMutex l' = lf_rwMutex l" "lf_counter l' = lf_counter l" "lf_locked l' = lf_locked l" "lf_lockType l' = lf_lockType l"
      "lf_fd l' = lf_fd l" "lf_stateMutex l' \<longleftrightarrow> lf_stateMutex l \<and> \<not> in_state (cs ! i)"
    and run: "drop_mutex t l' = (c, l'')"
  shows "proc_ok l'' (cs[i := c])"
proof -
  have m: "in_mutex u (cs ! i) \<longleftrightarrow> u = t" for u using old by auto
  from mutex_dropped [OF ok i m, of Idle] obtain m where m: "rw_drop t (lf_rwMutex l) = Some m"
    "\<And>u. count_pc (in_mutex u) (cs[i := Idle]) = rw_count u m" "rw_writer m \<Longrightarrow> rw_readers m = 0" by auto
  then have c: "c = Idle" "l'' = l'\<lparr>lf_rwMutex := m\<rparr>" using run same(1) by (simp_all add: drop_mutex_def)
  have s: "count_pc in_state (cs[i := Idle]) = (if lf_stateMutex l' then 1 else 0)"
  proof (cases "in_state (cs ! i)")
    case True
    then show ?thesis using state_dropped [OF ok i True, of Idle] same(6) by simp
  next
    case False
    then show ?thesis using count_pc_upd(1) [OF i, of in_state Idle] proc_okD(3) [OF ok] same(6) by simp
  qed
  show ?thesis unfolding c
    by (rule proc_ok_frame [OF ok i]) (use old m(2,3) s same in auto)
qed

lemma lock_taken:
  assumes ok: "proc_ok l cs" and i: "i < length cs" and old: "cs ! i = HasState nb t"
    and kind: "\<And>u. count_pc (in_lock u) cs = 0 \<or> u = t" and c: "c = Holding t"
    and new: "lf_rwMutex l' = lf_rwMutex l" "\<not> lf_stateMutex l'" "lf_locked l'" "lf_lockType l' = t" "lf_fd l' = Some t"
      "lf_counter l' = int (Suc (count_pc (in_lock t) cs))"
  shows "proc_ok l' (cs[i := c])"
proof -
  note d = proc_okD [OF ok]
  have m: "count_pc (in_mutex u) (cs[i := c]) = count_pc (in_mutex u) cs" for u
    by (rule count_pc_upd(1) [OF i]) (simp add: old c)
  have t: "count_pc (in_lock t) (cs[i := c]) = Suc (count_pc (in_lock t) cs)" by (rule count_pc_upd(2) [OF i]) (simp_all add: old c)
  have u: "count_pc (in_lock u) (cs[i := c]) = 0" if "u \<noteq> t" for u
    using count_pc_upd(1) [OF i, of "in_lock u" c] kind [of u] that by (simp add: old c)
  have x: "count_pc misused (cs[i := c]) = count_pc misused cs" by (rule count_pc_upd(1) [OF i]) (simp add: old c)
  have s: "count_pc in_state (cs[i := c]) = 0" by (rule state_dropped [OF ok i]) (simp_all add: old c)
  show ?thesis unfolding proc_ok_def new(1,4) m x s
    using d(1,2,8) new t u by auto
qed

lemma enter_cases:
  assumes "enter_lock nb t opens free l = Some (c, l')"
  shows "(\<exists>l1. drop_mutex t l1 = (c, l') \<and> (l1 = l\<lparr>lf_stateMutex := False\<rparr> \<or> lf_counter l = 0 \<and> l1 = l\<lparr>lf_fd := None, lf_stateMutex := False\<rparr>))
    \<or> c = OpenFailed t \<and> l' = l\<lparr>lf_stateMutex := False\<rparr>
    \<or> lf_counter l = 0 \<and> c = Holding t
       \<and> l' = l\<lparr>lf_fd := Some t, lf_lockType := t, lf_locked := True, lf_counter := 1, lf_stateMutex := False\<rparr>
    \<or> lf_counter l \<noteq> 0 \<and> c = Holding t \<and> l' = l\<lparr>lf_counter := lf_counter l + 1, lf_stateMutex := False\<rparr>"
proof (cases "lf_counter l = 0")
  case True
  then show ?thesis using assms unfolding enter_lock_def by (cases opens; cases free; cases nb; simp; blast)
next
  case False
  then show ?thesis using assms unfolding enter_lock_def by simp
qed

lemma step_enter:
  assumes ok: "proc_ok l cs" and i: "i < length cs" and old: "cs ! i = HasState nb t" and run: "enter_lock nb t opens free l = Some (c, l')"
  shows "proc_ok l' (cs[i := c])"
proof -
  note d = proc_okD [OF ok]
  have st: "lf_stateMutex l" using d(3) count_pc_pos [OF i, of in_state] old by (simp split: if_splits)
  consider (undo) l1 where "drop_mutex t l1 = (c, l')" "l1 = l\<lparr>lf_stateMutex := False\<rparr> \<or> lf_counter l = 0 \<and> l1 = l\<lparr>lf_fd := None, lf_stateMutex := False\<rparr>"
    | (fail) "c = OpenFailed t" "l' = l\<lparr>lf_stateMutex := False\<rparr>"
    | (first) "lf_counter l = 0" "c = Holding t" "l' = l\<lparr>lf_fd := Some t, lf_lockType := t, lf_locked := True, lf_counter := 1, lf_stateMutex := False\<rparr>"
    | (more) "lf_counter l \<noteq> 0" "c = Holding t" "l' = l\<lparr>lf_counter := lf_counter l + 1, lf_stateMutex := False\<rparr>"
    using enter_cases [OF run] by metis
  then show ?thesis
  proof cases
    case undo
    have "lf_fd l1 = lf_fd l"
    proof (cases "lf_locked l")
      case True
      then show ?thesis using undo(2) d(4) d(5) [OF True] by auto
    qed (use undo(2) d(7) in auto)
    moreover have "lf_rwMutex l1 = lf_rwMutex l" "lf_counter l1 = lf_counter l" "lf_locked l1 = lf_locked l" "lf_lockType l1 = lf_lockType l"
      "\<not> lf_stateMutex l1" using undo(2) by auto
    ultimately show ?thesis using old by (intro step_back [OF ok i _ _ _ _ _ _ _ undo(1), of nb]) simp_all
  next
    case fail
    have "count_pc (in_mutex u) (cs[i := OpenFailed t]) = rw_count u (lf_rwMutex l)" for u
      using count_pc_upd(1) [OF i, of "in_mutex u" "OpenFailed t"] old d(1) [of u] by simp
    then show ?thesis unfolding fail
      by (intro proc_ok_frame [OF ok i]) (use old d(2) state_dropped [OF ok i, of "OpenFailed t"] in simp_all)
  next
    case first
    have "\<not> lf_locked l"
    proof
      assume l: "lf_locked l"
      then show False using d(4) d(5) [OF l] first(1) by simp
    qed
    then have "count_pc (in_lock u) cs = 0" for u using d(6) [of u] by simp
    then show ?thesis using first by (intro lock_taken [OF ok i old]) simp_all
  next
    case more
    have l: "lf_locked l" using d(4) more(1) by (simp split: if_splits)
    have "0 < count_pc (in_mutex (lf_lockType l)) cs" using d(5) [OF l] in_lock_mutex [of "lf_lockType l" cs] by simp
    moreover have "0 < count_pc (in_mutex t) cs" by (rule count_pc_pos [OF i]) (simp add: old)
    ultimately have t: "lf_lockType l = t" by (rule one_kind [OF ok])
    have "count_pc (in_lock u) cs = 0 \<or> u = t" for u using d(6) [of u] t by blast
    moreover have "lf_counter l = int (count_pc (in_lock t) cs)" "lf_fd l = Some t" using d(4,7) l t by simp_all
    ultimately show ?thesis using more l t by (intro lock_taken [OF ok i old]) simp_all
  qed
qed

lemma step_leave:
  assumes ok: "proc_ok l cs" and i: "i < length cs" and old: "cs ! i = Releasing t" and run: "leave_lock l = (c, l')"
  shows "proc_ok l' (cs[i := c])"
proof -
  note d = proc_okD [OF ok]
  have pos: "0 < count_pc (in_lock t) cs" by (rule count_pc_pos [OF i]) (simp add: old)
  then have l: "lf_locked l" "lf_lockType l = t" using d(6) [of t] by auto
  have m: "in_mutex u (cs ! i) \<longleftrightarrow> u = t" for u by (auto simp: old)
  from mutex_dropped [OF ok i m, of Idle] obtain m where m: "rw_drop t (lf_rwMutex l) = Some m"
    "\<And>u. count_pc (in_mutex u) (cs[i := Idle]) = rw_count u m" "rw_writer m \<Longrightarrow> rw_readers m = 0" by auto
  have t: "Suc (count_pc (in_lock t) (cs[i := Idle])) = count_pc (in_lock t) cs" by (rule count_pc_upd(3) [OF i]) (simp_all add: old)
  have u: "count_pc (in_lock u) (cs[i := Idle]) = 0" if "u \<noteq> t" for u
    using count_pc_upd(1) [OF i, of "in_lock u" Idle] d(6) [of u] that l by (simp add: old)
  have x: "count_pc misused (cs[i := Idle]) = count_pc misused cs" by (rule count_pc_upd(1) [OF i]) (simp add: old)
  have s: "count_pc in_state (cs[i := Idle]) = 0" by (rule state_dropped [OF ok i]) (simp_all add: old)
  let ?n = "count_pc (in_lock t) (cs[i := Idle])"
  have n: "lf_counter l - 1 = int ?n" using d(4) l t by simp
  have c: "c = Idle" and l': "l' = (if ?n = 0 then l\<lparr>lf_counter := int ?n, lf_locked := False, lf_fd := None\<rparr> else l\<lparr>lf_counter := int ?n\<rparr>)
      \<lparr>lf_rwMutex := m, lf_stateMutex := False\<rparr>"
    using run m(1) l by (cases "?n = 0"; simp add: leave_lock_def Let_def n drop_mutex_def)+
  show ?thesis
  proof (cases "?n = 0")
    case True
    then have "count_pc (in_lock u) (cs[i := Idle]) = 0" for u using u [of u] by (cases "u = t") simp_all
    then show ?thesis unfolding proc_ok_def c l' x using True m(2,3) s d(8) by simp
  next
    case False
    then show ?thesis unfolding proc_ok_def c l' x using m(2,3) s d(7,8) l u by auto
  qed
qed

lemma thread_step_ok:
  assumes ok: "proc_ok l cs" and i: "i < length cs" and step: "thread_step free l (cs ! i) l' c"
  shows "proc_ok l' (cs[i := c])"
  using step
proof (cases rule: thread_step.cases)
  case (ts_call nb t)
  then have "in_mutex u c = in_mutex u (cs ! i)" "in_lock u c = in_lock u (cs ! i)" "in_state c = in_state (cs ! i)" "\<not> misused c" for u
    by (simp_all add: call_lock_def)
  then show ?thesis using ts_call proc_okD(1-3) [OF ok] by (intro proc_ok_frame [OF ok i]) (simp_all add: count_pc_upd(1) [OF i])
next
  case (ts_mutex t nb)
  then show ?thesis
    using mutex_taken [OF ok i, of t c] proc_okD(3) [OF ok] count_pc_upd(1) [OF i, of in_state c]
    by (intro proc_ok_frame [OF ok i]) auto
next
  case (ts_mutex_busy t)
  then show ?thesis using proc_okD(1-3) [OF ok] by (intro proc_ok_frame [OF ok i]) (simp_all add: count_pc_upd(1) [OF i])
next
  case (ts_state nb t)
  then have "count_pc in_state (cs[i := c]) = 1" using count_pc_upd(2) [OF i, of in_state c] proc_okD(3) [OF ok] by simp
  then show ?thesis using ts_state proc_okD(1,2) [OF ok] by (intro proc_ok_frame [OF ok i]) (simp_all add: count_pc_upd(1) [OF i])
next
  case (ts_state_busy t)
  then show ?thesis by (intro step_back [OF ok i, of True t l]) simp_all
next
  case (ts_enter nb t opens)
  then show ?thesis using step_enter [OF ok i] by blast
next
  case (ts_unlock t)
  then have "count_pc in_state (cs[i := c]) = 1" using count_pc_upd(2) [OF i, of in_state c] proc_okD(3) [OF ok] by simp
  then show ?thesis using ts_unlock proc_okD(1,2) [OF ok] by (intro proc_ok_frame [OF ok i]) (simp_all add: count_pc_upd(1) [OF i])
next
  case (ts_leave t)
  then show ?thesis using step_leave [OF ok i] by blast
qed

section \<open>All processes\<close>

text \<open>At most one process has the lock on the file for writing, and then no other has one.\<close>

definition files_ok :: "world \<Rightarrow> bool" where
  "files_ok w \<longleftrightarrow> (\<forall>p q. p < length w \<longrightarrow> q < length w \<longrightarrow> p \<noteq> q \<longrightarrow> lf_fd (fst (w ! p)) = Some WriteLock \<longrightarrow> lf_fd (fst (w ! q)) = None)"

definition world_ok :: "world \<Rightarrow> bool" where
  "world_ok w \<longleftrightarrow> (\<forall>x \<in> set w. proc_ok (fst x) (snd x)) \<and> files_ok w"

text \<open>A step leaves the lock on the file, releases it, or takes it when it is free.\<close>

lemma drop_mutex_fd: "drop_mutex t l = (c, l') \<Longrightarrow> lf_fd l' = lf_fd l"
  by (auto simp: drop_mutex_def split: option.splits)

lemma leave_fd:
  assumes "leave_lock l = (c, l')"
  shows "lf_fd l' = lf_fd l \<or> lf_fd l' = None"
proof (cases "drop_mutex (lf_lockType l) (if lf_counter l - 1 = 0 then l\<lparr>lf_counter := lf_counter l - 1, lf_locked := False, lf_fd := None\<rparr>
      else l\<lparr>lf_counter := lf_counter l - 1\<rparr>)")
  case (Pair d l3)
  note fd = drop_mutex_fd [OF Pair]
  show ?thesis using assms fd Pair by (cases "lf_counter l = 1"; cases d) (auto simp: leave_lock_def Let_def split: if_splits)
qed

lemma thread_step_fd:
  assumes "thread_step free l c0 l' c"
  shows "lf_fd l' = lf_fd l \<or> lf_fd l' = None \<or> (\<exists>t. lf_fd l' = Some t \<and> free t)"
  using assms
proof (cases rule: thread_step.cases)
  case (ts_enter nb t opens)
  then show ?thesis
    by (cases nb; cases opens; cases "free t"; cases "lf_counter l = 0") (auto simp: enter_lock_def dest: drop_mutex_fd)
qed (auto dest: drop_mutex_fd leave_fd)

lemma file_free_other:
  assumes "file_free w p t" and "q < length w" and "q \<noteq> p"
  shows "lf_fd (fst (w ! q)) = None \<or> t = ReadLock \<and> lf_fd (fst (w ! q)) = Some ReadLock"
  using assms by (auto simp: file_free_def list_all_iff split: option.splits)

lemma world_step_ok:
  assumes "world_step w v" and "world_ok w"
  shows "world_ok v"
  using assms(1)
proof (cases rule: world_step.cases)
  case (world_step p l cs i l' c)
  have proc: "\<forall>x \<in> set w. proc_ok (fst x) (snd x)" and files: "files_ok w" using assms(2) by (simp_all add: world_ok_def)
  have "proc_ok l cs" using proc nth_mem [OF world_step(2)] world_step(3) by force
  then have new: "proc_ok l' (cs[i := c])" using thread_step_ok world_step(4,5) by blast
  have "\<forall>x \<in> set v. proc_ok (fst x) (snd x)"
    using proc new set_update_subset_insert [of w p "(l', cs[i := c])"] unfolding world_step(1) by auto
  moreover have "files_ok v"
    unfolding files_ok_def
  proof (intro allI impI)
    fix a b
    assume a: "a < length v" and b: "b < length v" and ab: "a \<noteq> b" and wr: "lf_fd (fst (v ! a)) = Some WriteLock"
    have len: "length v = length w" by (simp add: world_step(1))
    have at: "v ! p = (l', cs[i := c])" and others: "\<And>q. q \<noteq> p \<Longrightarrow> v ! q = w ! q" using world_step(1,2) by simp_all
    have old: "lf_fd (fst (w ! x)) = Some WriteLock \<Longrightarrow> x < length w \<Longrightarrow> y < length w \<Longrightarrow> x \<noteq> y \<Longrightarrow> lf_fd (fst (w ! y)) = None" for x y
      using files by (simp add: files_ok_def)
    note fd = thread_step_fd [OF world_step(5)]
    consider "a = p" | "b = p" | "a \<noteq> p" "b \<noteq> p" by blast
    then show "lf_fd (fst (v ! b)) = None"
    proof cases
      case 1
      then have "lf_fd l' = Some WriteLock" using wr at by simp
      then consider "lf_fd l = Some WriteLock" | "file_free w p WriteLock" using fd by auto
      then show ?thesis using old [of p b] file_free_other [of w p WriteLock b] 1 ab a b len others [of b] world_step(3) by cases auto
    next
      case 2
      then have "lf_fd (fst (w ! a)) = Some WriteLock" using wr others ab by simp
      then have "lf_fd l = None" "\<not> file_free w p t" for t
        using old [of a p] file_free_other [of w p t a] 2 ab a b len world_step(3) by auto
      then show ?thesis using fd at 2 by auto
    next
      case 3
      then show ?thesis using old [of a b] wr others a b len ab by simp
    qed
  qed
  ultimately show ?thesis by (simp add: world_ok_def)
qed

lemma new_process_ok:
  assumes "new_process x"
  shows "proc_ok (fst x) (snd x)" "lf_fd (fst x) = None"
proof -
  from assms obtain path ro where l: "createLockFileForPath path ro True = Inr (fst x)" and cs: "\<forall>c \<in> set (snd x). c = Idle"
    by (auto simp: new_process_def list_all_iff)
  have zero: "count_pc P (snd x) = 0" if "\<not> P Idle" for P using cs that by (auto simp: count_pc_0)
  have fields: "fst x = \<lparr>lf_file = path, lf_ro = ro, lf_rwMutex = \<lparr>rw_readers = 0, rw_writer = False\<rparr>, lf_stateMutex = False, lf_counter = 0,
      lf_lockType = (if ro then ReadLock else WriteLock), lf_locked = False, lf_fd = None\<rparr>" using l by (simp add: createLockFileForPath_def)
  have "rw_count t \<lparr>rw_readers = 0, rw_writer = False\<rparr> = 0" for t by (cases t) simp_all
  then show "proc_ok (fst x) (snd x)" unfolding proc_ok_def fields by (simp add: zero)
  show "lf_fd (fst x) = None" by (simp add: fields)
qed

lemma world_reach_ok:
  assumes "world_reach w v" and "list_all new_process w"
  shows "world_ok v"
  using assms
proof (induction rule: world_reach.induct)
  case wr_refl
  then show ?case using new_process_ok by (auto simp: world_ok_def files_ok_def list_all_iff)
next
  case (wr_step u v)
  then show ?case using world_step_ok by blast
qed

lemma holder_fd:
  assumes "proc_ok l cs" and "i < length cs" and "cs ! i = Holding t"
  shows "lf_fd l = Some t"
proof -
  have "0 < count_pc (in_lock t) cs" by (rule count_pc_pos [OF assms(2)]) (simp add: assms(3))
  then show ?thesis using proc_okD(6) [OF assms(1), of t] proc_okD(7) [OF assms(1)] by auto
qed

lemma writer_alone:
  assumes ok: "proc_ok l cs" and i: "i < length cs" "cs ! i = Holding WriteLock" and j: "j < length cs" "cs ! j = Holding t"
  shows "i = j"
proof (rule ccontr)
  assume ij: "i \<noteq> j"
  have "t = WriteLock" using holder_fd [OF ok i] holder_fd [OF ok j] by simp
  then have "2 \<le> count_pc (in_mutex WriteLock) cs" using i j by (intro count_pc_two [OF i(1) j(1) ij]) simp_all
  then show False using proc_okD(1) [OF ok, of WriteLock] by (simp split: if_splits)
qed

text \<open>
  C38: the lock file keeps writers apart. Whatever the goroutines of any number of processes do with \<open>Lock\<close>, \<open>RLock\<close>, \<open>TryLock\<close>,
  \<open>TryRLock\<close> and \<open>Unlock\<close> on a lock they hold, in any order and wherever opening or locking the file fails: a goroutine that
  holds the lock for writing is the only one that holds it, in its process and in all others, and \<open>Unlock\<close> never panics.
\<close>

theorem lock_file_exclusive:
  assumes "list_all new_process w" and "world_reach w v" and "p < length v" and "i < length (snd (v ! p))"
  shows "(snd (v ! p) ! i = Holding WriteLock \<and> q < length v \<and> j < length (snd (v ! q)) \<and> snd (v ! q) ! j = Holding t \<longrightarrow> q = p \<and> j = i)
    \<and> (snd (v ! p) ! i = Panicked m \<longrightarrow> m = ''can't take write lock on read-only lock file'')"
proof (intro conjI impI)
  have ok: "world_ok v" by (rule world_reach_ok [OF assms(2,1)])
  then have proc: "proc_ok (fst (v ! k)) (snd (v ! k))" if "k < length v" for k using that by (simp add: world_ok_def)
  assume "snd (v ! p) ! i = Holding WriteLock \<and> q < length v \<and> j < length (snd (v ! q)) \<and> snd (v ! q) ! j = Holding t"
  then have pi: "snd (v ! p) ! i = Holding WriteLock" and q: "q < length v" and j: "j < length (snd (v ! q))" "snd (v ! q) ! j = Holding t" by simp_all
  have "lf_fd (fst (v ! p)) = Some WriteLock" "lf_fd (fst (v ! q)) = Some t"
    using holder_fd [OF proc [OF assms(3)] assms(4) pi] holder_fd [OF proc [OF q] j] by simp_all
  then show qp: "q = p" using ok assms(3) q unfolding world_ok_def files_ok_def by (metis option.distinct(1))
  show "j = i" using writer_alone [OF proc [OF assms(3)] assms(4) pi, of j t] j qp by simp
next
  assume m: "snd (v ! p) ! i = Panicked m"
  have "proc_ok (fst (v ! p)) (snd (v ! p))" using world_reach_ok [OF assms(2,1)] assms(3) by (simp add: world_ok_def)
  then have "\<not> misused (snd (v ! p) ! i)" using proc_okD(8) assms(4) by (simp add: count_pc_0)
  then show "m = ''can't take write lock on read-only lock file''" using m by simp
qed

definition sample_lock :: LockFile where
  "sample_lock = \<lparr>lf_file = ''/run/layers.lock'', lf_ro = False, lf_rwMutex = \<lparr>rw_readers = 0, rw_writer = False\<rparr>, lf_stateMutex = False,
     lf_counter = 0, lf_lockType = WriteLock, lf_locked = False, lf_fd = None\<rparr>"

lemma sample_lock_taken:
  "world_reach [(sample_lock, [Idle]), (sample_lock, [Idle])]
     [(sample_lock\<lparr>lf_rwMutex := \<lparr>rw_readers = 0, rw_writer = True\<rparr>, lf_fd := Some WriteLock, lf_locked := True, lf_counter := 1\<rparr>,
       [Holding WriteLock]), (sample_lock, [Idle])]"
proof -
  let ?m = "sample_lock\<lparr>lf_rwMutex := \<lparr>rw_readers = 0, rw_writer = True\<rparr>\<rparr>"
  let ?w = "\<lambda>l c. [(l, [c]), (sample_lock, [Idle])]"
  have step: "world_step (?w l c) (?w l' c')" if "thread_step (file_free (?w l c) 0) l c l' c'" for l c l' c'
    using world_step.intros [of 0 "?w l c" l "[c]" 0 l' c'] that by simp
  have "world_step (?w sample_lock Idle) (?w sample_lock (Wants False WriteLock))"
    using ts_call [of _ sample_lock False WriteLock] by (intro step) (simp add: call_lock_def sample_lock_def)
  moreover have "world_step (?w sample_lock (Wants False WriteLock)) (?w ?m (HasMutex False WriteLock))"
    using ts_mutex [of WriteLock sample_lock] by (intro step) (simp add: rw_free_def sample_lock_def)
  moreover have "world_step (?w ?m (HasMutex False WriteLock)) (?w (?m\<lparr>lf_stateMutex := True\<rparr>) (HasState False WriteLock))"
    by (intro step ts_state) (simp add: sample_lock_def)
  moreover have "world_step (?w (?m\<lparr>lf_stateMutex := True\<rparr>) (HasState False WriteLock))
      (?w (sample_lock\<lparr>lf_rwMutex := \<lparr>rw_readers = 0, rw_writer = True\<rparr>, lf_fd := Some WriteLock, lf_locked := True, lf_counter := 1\<rparr>) (Holding WriteLock))"
    by (intro step ts_enter [where opens = True]) (simp add: enter_lock_def file_free_def sample_lock_def)
  ultimately show ?thesis using wr_refl wr_step by blast
qed

theorem lock_file_exclusive_witness:
  "\<exists>v. world_reach [(sample_lock, [Idle]), (sample_lock, [Idle])] v \<and> snd (v ! 0) ! 0 = Holding WriteLock \<and> snd (v ! 1) ! 0 \<noteq> Holding ReadLock"
proof -
  let ?v = "[(sample_lock\<lparr>lf_rwMutex := \<lparr>rw_readers = 0, rw_writer = True\<rparr>, lf_fd := Some WriteLock, lf_locked := True, lf_counter := 1\<rparr>,
       [Holding WriteLock]), (sample_lock, [Idle])]"
  have "new_process (sample_lock, [Idle])"
    by (auto simp: new_process_def createLockFileForPath_def sample_lock_def intro!: exI [of _ False])
  then have "list_all new_process [(sample_lock, [Idle]), (sample_lock, [Idle])]" by simp
  from lock_file_exclusive [OF this sample_lock_taken, of 0 0 1 0 ReadLock] show ?thesis
    using sample_lock_taken by (intro exI [of _ ?v]) auto
qed

section \<open>The table of lock files\<close>

text \<open>
  What happens to the table of a process: requests for locks, and steps of goroutines on one of the objects.
\<close>

inductive table_step :: "lock_table \<Rightarrow> lock_table \<Rightarrow> bool" where
  tb_get: "getLockfile path ro opens s = (r, s') \<Longrightarrow> table_step s s'"
| tb_use: "lt_lockFiles s path = Some a \<Longrightarrow> thread_step free (lt_heap s a) c l' c' \<Longrightarrow> table_step s (s\<lparr>lt_heap := (lt_heap s)(a := l')\<rparr>)"

inductive table_reach :: "lock_table \<Rightarrow> lock_table \<Rightarrow> bool" for s where
  tr_refl: "table_reach s s"
| tr_step: "table_reach s t \<Longrightarrow> table_step t u \<Longrightarrow> table_reach s u"

definition table_ok :: "lock_table \<Rightarrow> bool" where
  "table_ok s \<longleftrightarrow> (\<forall>path a. lt_lockFiles s path = Some a \<longrightarrow> a < lt_next s \<and> lf_file (lt_heap s a) = path)"

text \<open>A later table has the same objects for the paths of an earlier one, with the same mode.\<close>

definition table_extends :: "lock_table \<Rightarrow> lock_table \<Rightarrow> bool" where
  "table_extends s t \<longleftrightarrow> (\<forall>path a. lt_lockFiles s path = Some a \<longrightarrow> lt_lockFiles t path = Some a \<and> lf_ro (lt_heap t a) = lf_ro (lt_heap s a))"

lemma drop_mutex_file: "drop_mutex t l = (c, l') \<Longrightarrow> lf_file l' = lf_file l \<and> lf_ro l' = lf_ro l"
  by (auto simp: drop_mutex_def split: option.splits)

lemma thread_step_file:
  assumes "thread_step free l c0 l' c"
  shows "lf_file l' = lf_file l \<and> lf_ro l' = lf_ro l"
  using assms
proof (cases rule: thread_step.cases)
  case (ts_enter nb t opens)
  then show ?thesis using enter_cases [OF ts_enter(2)] drop_mutex_file by fastforce
next
  case (ts_leave t)
  then show ?thesis
    by (auto simp: leave_lock_def Let_def dest!: drop_mutex_file split: if_splits prod.splits pc.splits)
qed (auto dest: drop_mutex_file)

lemma table_step_ok:
  assumes "table_step s t" and ok: "table_ok s"
  shows "table_ok t \<and> table_extends s t"
  using assms(1)
proof (cases rule: table_step.cases)
  case (tb_get path ro opens r)
  have old: "a < lt_next s \<and> a \<noteq> lt_next s \<and> lf_file (lt_heap s a) = p" if "lt_lockFiles s p = Some a" for p a
    using ok that by (auto simp: table_ok_def)
  show ?thesis
  proof (cases "t = s")
    case False
    then obtain l where new: "lt_lockFiles s path = None" "createLockFileForPath path ro opens = Inr l"
      and t: "t = s\<lparr>lt_lockFiles := (lt_lockFiles s)(path \<mapsto> lt_next s), lt_heap := (lt_heap s)(lt_next s := l), lt_next := Suc (lt_next s)\<rparr>"
      using tb_get by (auto simp: getLockfile_def split: option.splits sum.splits if_splits)
    have "lf_file l = path" using new(2) by (auto simp: createLockFileForPath_def split: if_splits)
    moreover have "a < Suc (lt_next s) \<and> lf_file (((lt_heap s)(lt_next s := l)) a) = p"
      if "((lt_lockFiles s)(path \<mapsto> lt_next s)) p = Some a" for p a
      using that old [of p a] \<open>lf_file l = path\<close> by (cases "p = path") auto
    ultimately show ?thesis unfolding t table_ok_def table_extends_def using old new(1) by auto
  qed (use ok in \<open>simp add: table_extends_def\<close>)
next
  case (tb_use path a free c l' c')
  have "lf_file (lt_heap t b) = lf_file (lt_heap s b)" "lf_ro (lt_heap t b) = lf_ro (lt_heap s b)" for b
    using thread_step_file [OF tb_use(3)] by (simp_all add: tb_use(1))
  moreover have "lt_lockFiles t = lt_lockFiles s" "lt_next t = lt_next s" by (simp_all add: tb_use(1))
  ultimately show ?thesis using ok by (simp add: table_ok_def table_extends_def)
qed

lemma table_reach_ok: "table_reach s t \<Longrightarrow> table_ok s \<Longrightarrow> table_ok t \<and> table_extends s t"
proof (induction rule: table_reach.induct)
  case (tr_step t u)
  then have "table_ok t" "table_extends s t" "table_ok u" "table_extends t u" using table_step_ok by blast+
  then show ?case unfolding table_extends_def by metis
qed (simp add: table_extends_def)

text \<open>
  C40: a lock keeps its type. In a process that starts without lock files, a lock that \<open>GetLockFile\<close> has returned is for the
  requested path and for reading and writing; it stays so whatever is done with the locks of the process, so that \<open>Lock\<close> and
  \<open>TryLock\<close> on it never panic; and a request for the same path later gives the same object, or fails when it asks for a read-only lock.
\<close>

theorem lock_file_typed:
  assumes "lt_lockFiles s0 = Map.empty" and "table_reach s0 s" and "GetLockFile path opens s = (Inr a, s1)" and "table_reach s1 t"
  shows "lf_file (lt_heap t a) = path \<and> lf_IsReadWrite (lt_heap t a) \<and> call_lock nb k (lt_heap t a) = Wants nb k
    \<and> GetLockFile path opens' t = (Inr a, t) \<and> (\<exists>e. GetROLockFile path opens' t = (Inl e, t))"
proof -
  have "table_ok s0" by (simp add: table_ok_def assms(1))
  then have "table_ok s" using table_reach_ok assms(2) by blast
  moreover have "table_step s s1" using tb_get assms(3) unfolding GetLockFile_def by blast
  ultimately have ok: "table_ok s1" using table_step_ok by blast
  have a: "lt_lockFiles s1 path = Some a" "\<not> lf_ro (lt_heap s1 a)"
    using assms(3) by (auto simp: GetLockFile_def getLockfile_def createLockFileForPath_def lf_IsReadWrite_def split: option.splits if_splits)
  then have t: "lt_lockFiles t path = Some a" "\<not> lf_ro (lt_heap t a)" "lf_file (lt_heap t a) = path"
    using table_reach_ok [OF assms(4) ok] by (auto simp: table_extends_def table_ok_def)
  then show ?thesis by (simp add: lf_IsReadWrite_def call_lock_def GetLockFile_def GetROLockFile_def getLockfile_def)
qed

theorem lock_file_typed_witness:
  "\<exists>s1. GetLockFile ''/l'' True \<lparr>lt_lockFiles = Map.empty, lt_heap = (\<lambda>_. sample_lock), lt_next = 0\<rparr> = (Inr 0, s1)
     \<and> GetLockFile ''/l'' True s1 = (Inr 0, s1) \<and> (\<exists>e. GetROLockFile ''/l'' True s1 = (Inl e, s1))"
proof -
  let ?s = "\<lparr>lt_lockFiles = Map.empty, lt_heap = (\<lambda>_. sample_lock), lt_next = 0\<rparr>"
  obtain s1 where run: "GetLockFile ''/l'' True ?s = (Inr 0, s1)" by (simp add: GetLockFile_def getLockfile_def createLockFileForPath_def)
  have "lt_lockFiles ?s = Map.empty" by simp
  from lock_file_typed [OF this tr_refl run tr_refl] run show ?thesis by blast
qed

section \<open>The mark of the last write\<close>

unbundle bit_operations_syntax

text \<open>
  A mark is 64 bytes; the value \<open>nil\<close> of its field is \<open>None\<close>. Little-endian encoding of \<open>encoding/binary\<close>.
\<close>

type_synonym byte = "8 word"
type_synonym LastWrite = "byte list option"

definition PutUint64 :: "64 word \<Rightarrow> byte list" where
  "PutUint64 v = map (\<lambda>i. ucast (drop_bit (8 * i) v)) [0 ..< 8]"

definition PutUint32 :: "32 word \<Rightarrow> byte list" where
  "PutUint32 v = map (\<lambda>i. ucast (drop_bit (8 * i) v)) [0 ..< 4]"

definition lastWriterIDSize :: nat where
  "lastWriterIDSize = 64"

text \<open>
  What the process and the system provide for a mark: the time in nanoseconds and 44 random bytes. The process has an
  identifier and a counter.
\<close>

definition newLastWrite :: "64 word \<Rightarrow> 64 word \<Rightarrow> 32 word \<Rightarrow> byte list \<Rightarrow> LastWrite res" where
  "newLastWrite tm counter pid random =
     (if length random \<noteq> lastWriterIDSize - 20 then Inl (Panic ''crypto/rand'')
      else Inr (Some (PutUint64 tm @ PutUint64 counter @ PutUint32 pid @ random)))"

definition serialize :: "LastWrite \<Rightarrow> byte list res" where
  "serialize lw = (case lw of None \<Rightarrow> Inl (Panic ''LastWrite.serialize on an uninitialized object'') | Some state \<Rightarrow> Inr state)"

definition equals :: "LastWrite \<Rightarrow> LastWrite \<Rightarrow> bool res" where
  "equals lw lw' =
     (case lw of
        None \<Rightarrow> Inl (Panic ''LastWrite.equals on an uninitialized object'')
      | Some state \<Rightarrow> (case lw' of
            None \<Rightarrow> Inl (Panic ''LastWrite.equals with an uninitialized counterparty'')
          | Some state' \<Rightarrow> Inr (state = state')))"

definition newLastWriteFromData :: "byte list option \<Rightarrow> LastWrite res" where
  "newLastWriteFromData serialized =
     (case serialized of None \<Rightarrow> Inl (Panic ''newLastWriteFromData with nil data'') | Some state \<Rightarrow> Inr (Some state))"

text \<open>
  A process with the file. \<open>m_held\<close> is the lock it holds, \<open>m_lw\<close> the field \<open>lw\<close>. \<open>Pread\<close> and \<open>Pwrite\<close> at offset 0: the number of bytes
  written, or an error.
\<close>

record marker =
  m_held :: "LockType option"
  m_pid :: "32 word"
  m_counter :: "64 word"
  m_lw :: LastWrite
  m_file :: "byte list"

definition AssertLocked :: "(marker, unit) op" where
  "AssertLocked s =
     (if m_held s = None then (Inl (Panic ''internal error: lock is not held by the expected owner''), s) else (Inr (), s))"

definition AssertLockedForWriting :: "(marker, unit) op" where
  "AssertLockedForWriting =
     op_seq AssertLocked (\<lambda>s. if m_held s = Some ReadLock then (Inl (Panic ''internal error: lock is not held for writing''), s) else (Inr (), s))"

definition lock_GetLastWrite :: "bool \<Rightarrow> (marker, LastWrite) op" where
  "lock_GetLastWrite readable =
     op_seq AssertLocked (\<lambda>s.
       if \<not> readable then (Inl ErrIO, s) else (newLastWriteFromData (Some (take lastWriterIDSize (m_file s))), s))"

definition lock_RecordWrite :: "64 word \<Rightarrow> byte list \<Rightarrow> nat option \<Rightarrow> (marker, LastWrite) op" where
  "lock_RecordWrite tm random written =
     op_seq AssertLockedForWriting (\<lambda>s.
       let counter = m_counter s + 1; s1 = s\<lparr>m_counter := counter\<rparr>
       in case and_then (newLastWrite tm counter (m_pid s) random) (\<lambda>lw. and_then (serialize lw) (\<lambda>b. Inr (lw, b))) of
            Inl e \<Rightarrow> (Inl e, s1)
          | Inr (lw, b) \<Rightarrow>
              (case written of
                 None \<Rightarrow> (Inl ErrIO, s1)
               | Some n \<Rightarrow> let s2 = s1\<lparr>m_file := take n b @ drop (min n (length b)) (m_file s1)\<rparr>
                          in if min n (length b) \<noteq> length b then (Inl (ErrFmt ''ENOSPC''), s2) else (Inr lw, s2)))"

definition lock_ModifiedSince :: "bool \<Rightarrow> LastWrite \<Rightarrow> (marker, LastWrite \<times> bool) op" where
  "lock_ModifiedSince readable previous =
     op_seq AssertLocked (op_then (lock_GetLastWrite readable) (\<lambda>current s.
       (and_then (equals previous current) (\<lambda>same. Inr (current, \<not> same)), s)))"

definition lock_Modified :: "bool \<Rightarrow> (marker, bool) op" where
  "lock_Modified readable s =
     (if m_held s = None then (Inl (Panic ''attempted to check last-writer in lockfile without locking it first''), s)
      else op_then (lock_ModifiedSince readable (m_lw s)) (\<lambda>(current, modified).
             op_seq (op_update (\<lambda>s. s\<lparr>m_lw := current\<rparr>)) (op_return modified)) s)"

definition lock_Touch :: "64 word \<Rightarrow> byte list \<Rightarrow> nat option \<Rightarrow> (marker, unit) op" where
  "lock_Touch tm random written =
     op_then (lock_RecordWrite tm random written) (\<lambda>lw s.
       if m_held s = None \<or> m_held s = Some ReadLock
       then (Inl (Panic ''attempted to update last-writer in lockfile without the write lock''), s)
       else (Inr (), s\<lparr>m_lw := lw\<rparr>))"

definition TouchedSince :: "int \<Rightarrow> int option \<Rightarrow> bool" where
  "TouchedSince when mtime = (case mtime of None \<Rightarrow> True | Some m \<Rightarrow> when < m)"

lemma bytes_inj:
  fixes v w :: "'a :: len word"
  assumes "map (\<lambda>i. ucast (drop_bit (8 * i) v) :: byte) [0 ..< k] = map (\<lambda>i. ucast (drop_bit (8 * i) w)) [0 ..< k]" and "LENGTH('a) \<le> 8 * k"
  shows "v = w"
proof (rule bit_word_eqI)
  fix n
  assume "n < LENGTH('a)"
  then have k: "n div 8 < k" using assms(2) by linarith
  have "(ucast (drop_bit (8 * (n div 8)) v) :: byte) = ucast (drop_bit (8 * (n div 8)) w)"
    using k arg_cong [OF assms(1), of "\<lambda>xs. xs ! (n div 8)"] by simp
  then have "bit (ucast (drop_bit (8 * (n div 8)) v) :: byte) (n mod 8) = bit (ucast (drop_bit (8 * (n div 8)) w) :: byte) (n mod 8)" by simp
  then show "bit v n = bit w n" by (simp add: bit_simps)
qed

lemma PutUint_inj: "PutUint64 v = PutUint64 w \<longleftrightarrow> v = w" "PutUint32 a = PutUint32 b \<longleftrightarrow> a = b"
proof -
  have "v = w" if "PutUint64 v = PutUint64 w" by (rule bytes_inj [of _ 8]) (use that in \<open>simp_all only: PutUint64_def\<close>, simp)
  moreover have "a = b" if "PutUint32 a = PutUint32 b" by (rule bytes_inj [of _ 4]) (use that in \<open>simp_all only: PutUint32_def\<close>, simp)
  ultimately show "PutUint64 v = PutUint64 w \<longleftrightarrow> v = w" "PutUint32 a = PutUint32 b \<longleftrightarrow> a = b" by blast+
qed

lemma PutUint_length [simp]: "length (PutUint64 v) = 8" "length (PutUint32 a) = 4"
  by (simp_all add: PutUint64_def PutUint32_def)

text \<open>The bytes of a mark determine what it was made of.\<close>

lemma newLastWrite_inj:
  assumes "newLastWrite tm counter pid random = Inr lw" and "newLastWrite tm' counter' pid' random' = Inr lw"
  shows "tm = tm' \<and> counter = counter' \<and> pid = pid' \<and> random = random'"
  using assms by (auto simp: newLastWrite_def PutUint_inj split: if_splits)

lemma newLastWrite_length: "newLastWrite tm counter pid random = Inr lw \<Longrightarrow> \<exists>b. lw = Some b \<and> length b = lastWriterIDSize"
  by (auto simp: newLastWrite_def lastWriterIDSize_def split: if_splits)

text \<open>
  Writes of several processes, one after the other under the write lock. A write is the identifier of the process, the time, the
  random bytes and the outcome of \<open>Pwrite\<close>; the state is the counters of the processes and the contents of the file.
\<close>

type_synonym attempt = "32 word \<times> 64 word \<times> byte list \<times> nat option"

definition locked_marker :: "LockType \<Rightarrow> 32 word \<Rightarrow> (32 word \<Rightarrow> 64 word) \<times> byte list \<Rightarrow> marker" where
  "locked_marker t pid st = \<lparr>m_held = Some t, m_pid = pid, m_counter = fst st pid, m_lw = None, m_file = snd st\<rparr>"

definition attempt_write :: "attempt \<Rightarrow> (32 word \<Rightarrow> 64 word) \<times> byte list \<Rightarrow> LastWrite res \<times> ((32 word \<Rightarrow> 64 word) \<times> byte list)" where
  "attempt_write e st =
     (case e of (pid, tm, random, written) \<Rightarrow>
        (case lock_RecordWrite tm random written (locked_marker WriteLock pid st) of
           (r, s) \<Rightarrow> (r, ((fst st)(pid := m_counter s), m_file s))))"

fun attempts :: "attempt list \<Rightarrow> (32 word \<Rightarrow> 64 word) \<times> byte list \<Rightarrow> (32 word \<Rightarrow> 64 word) \<times> byte list" where
  "attempts [] st = st"
| "attempts (e # es) st = attempts es (snd (attempt_write e st))"

lemma attempt_counter: "fst (snd (attempt_write (pid, tm, random, written) st)) = (fst st)(pid := fst st pid + 1)"
  by (auto simp: attempt_write_def lock_RecordWrite_def AssertLockedForWriting_def AssertLocked_def locked_marker_def op_seq_def op_then_def
      Let_def split: prod.splits sum.splits option.splits)

lemma attempts_counter: "fst (attempts es st) p = fst st p + word_of_nat (length (filter (\<lambda>e. fst e = p) es))"
proof (induction es arbitrary: st)
  case (Cons e es)
  obtain pid tm random written where "e = (pid, tm, random, written)" by (cases e)
  then show ?case by (simp add: Cons attempt_counter)
qed simp

lemma attempt_recorded:
  assumes "attempt_write (pid, tm, random, written) st = (Inr lw, st')"
  shows "newLastWrite tm (fst st pid + 1) pid random = Inr lw \<and> lw = Some (take lastWriterIDSize (snd st'))"
proof -
  from assms obtain s where run: "lock_RecordWrite tm random written (locked_marker WriteLock pid st) = (Inr lw, s)" and disk: "snd st' = m_file s"
    by (auto simp: attempt_write_def split: prod.splits)
  from run have mark: "newLastWrite tm (fst st pid + 1) pid random = Inr lw"
    by (auto simp: lock_RecordWrite_def AssertLockedForWriting_def AssertLocked_def locked_marker_def op_seq_def op_then_def serialize_def
        Let_def and_then_def split: prod.splits sum.splits option.splits if_splits)
  from newLastWrite_length [OF this] obtain b where b: "lw = Some b" "length b = lastWriterIDSize" by blast
  from run mark b have "\<exists>rest. m_file s = b @ rest"
    by (auto simp: lock_RecordWrite_def AssertLockedForWriting_def AssertLocked_def locked_marker_def op_seq_def op_then_def serialize_def
        Let_def split: option.splits if_splits)
  then have "take lastWriterIDSize (m_file s) = b" using b(2) by auto
  then show ?thesis using mark b disk by simp
qed

lemma modified_since:
  assumes "lw = Some b"
  shows "fst (lock_ModifiedSince True lw (locked_marker t pid st))
    = Inr (Some (take lastWriterIDSize (snd st)), b \<noteq> take lastWriterIDSize (snd st))"
  using assms by (simp add: lock_ModifiedSince_def lock_GetLastWrite_def newLastWriteFromData_def AssertLocked_def locked_marker_def equals_def
      op_seq_def op_then_def)

lemma few_writes:
  assumes "length es < 2 ^ 64" and "n \<le> length es" and "(c :: 64 word) = c + word_of_nat n"
  shows "n = 0"
proof -
  have "(word_of_nat n :: 64 word) = 0" using assms(3) by (metis add_cancel_right_right)
  then have "n mod 2 ^ 64 = 0" by (simp add: word_of_nat_eq_0_iff dvd_eq_mod_eq_0)
  moreover have "n < 2 ^ 64" using assms(1,2) by linarith
  ultimately show ?thesis by simp
qed


lemma full_write: "length random = 44 \<Longrightarrow> \<exists>lw. fst (attempt_write (pid, tm, random, Some 64) st) = Inr lw"
  by (simp add: attempt_write_def lock_RecordWrite_def AssertLockedForWriting_def AssertLocked_def locked_marker_def op_seq_def op_then_def
      newLastWrite_def serialize_def lastWriterIDSize_def Let_def)


end
