(* ===== verification/Spec2Isabelle.thy ===== *)
theory Spec2Isabelle
  imports Override_Xattr User_NS Image_Access Container_Store Layer_Access Storage_Integrity Lock_File
begin

text \<open>
  Verification of \<open>container-libs\<close>, the libraries under \<open>src\<close> that podman, buildah, skopeo and cri-o
  build on: \<open>src/storage\<close> keeps layers, images and containers on disk, \<open>src/image\<close> moves images between
  registries and other places, \<open>src/common\<close> has what the tools share. The development is about
  \<open>src/storage\<close>.

  \<^bold>\<open>The program.\<close> A store consists of three record stores: layers (\<open>storage/layers.go\<close>), images
  (\<open>storage/images.go\<close>) and containers (\<open>storage/containers.go\<close>). Each keeps its records in JSON
  files, has them in memory with indexes by ID, by name, by prefix of the ID and by digest, mount point or
  layer, and shares the files with other processes through a lock file with a last-write mark
  (\<open>storage/pkg/lockfile\<close>). A layer's contents are kept by a graph driver (\<open>storage/drivers\<close>). The ID maps of
  containers come from \<open>storage/pkg/idtools\<close>; \<open>storage/userns.go\<close> chooses them automatically on sets of
  IDs (\<open>storage/idset.go\<close>).

  \<^bold>\<open>Conventions.\<close> A function that returns an error is a function to \<open>go_error + 'a\<close>, a panic is the
  error \<open>Panic\<close>. A method that changes a store is an operation \<open>'s \<Rightarrow> ('a res \<times> 's)\<close>, composed by
  \<open>op_seq\<close>, \<open>op_then\<close>, \<open>op_cleanup\<close> and others of \<open>Store_Base\<close>. Pointers to records are addresses into
  a heap, so that a change through one index is seen through the others. Every call that can fail for
  outside reasons takes its outcome from a stream of faults in the state: theorems about all states are
  theorems about all failures. JSON files are lists of records with the unexported fields dropped.
  Go's \<open>int\<close> is \<open>int\<close> where no value can overflow; fixed-width integers are words or are bounded
  in the statement. Randomly generated IDs are a list of draws given to the operation.

  \<^bold>\<open>Theories.\<close>
  \<^item> \<open>Go_Prelude\<close>, \<open>Go_Strings\<close>: errors, sorting, binary search, and the parts of \<open>strings\<close>,
    \<open>strconv\<close> and \<open>filepath\<close> in use.
  \<^item> \<open>Id_Tools\<close>, \<open>Override_Xattr\<close> (\<open>storage/pkg/idtools\<close>): translation of IDs through maps is a partial
    bijection, parsing and printing of maps and of the ownership attribute are inverse, the choice of a
    free range of subordinate IDs.
  \<^item> \<open>Interval_Set\<close>, \<open>Id_Set\<close> (\<open>storage/idset.go\<close> and the vendored \<open>go-intervals\<close>): the operations
    on sorted intervals are those on sets of IDs. The locale \<open>interval_set\<close> has the laws the ID sets rely on.
  \<^item> \<open>User_NS\<close> (\<open>storage/userns.go\<close>): the maps of an automatic user namespace cover exactly the
    requested IDs and never one that is in use.
  \<^item> \<open>Trunc_Index\<close> (\<open>storage/pkg/truncindex\<close>): lookup by prefix, with the locale \<open>prefix_index\<close>.
  \<^item> \<open>Store_Base\<close>, \<open>Big_Data_Names\<close> (\<open>storage/utils.go\<close>, parts of \<open>storage/store.go\<close>): what the record stores
    share. The locale \<open>record_store\<close> is the contract of their indexes; each store interprets it.
  \<^item> \<open>Image_Store\<close>, \<open>Image_Disk\<close>, \<open>Image_Create\<close>, \<open>Image_Load\<close>, \<open>Image_Access\<close> (\<open>storage/images.go\<close>): the
    index invariant, what is on disk after each call, creation is all or nothing, loading gives a consistent
    store and what was saved, and reading under the locks is fresh.
  \<^item> \<open>Store_Locks\<close>: \<open>startReading\<close> and \<open>startWriting\<close> of the stores against a specification without
    locks, for any other processes in between.
  \<^item> \<open>Lock_File\<close> (\<open>storage/pkg/lockfile\<close>, \<open>storage/internal/rawfilelock\<close>): the lock below these, as steps of goroutines of several
    processes. A writer is alone, a lock keeps its path and mode, and the mark of the last write tells writes apart, which is
    why the stores' marks are plain numbers in \<open>Store_Base\<close>.
  \<^item> \<open>Container_Store\<close> (\<open>storage/containers.go\<close>): the index invariant over two files, and the places where
    names and locks are left in a bad state.
  \<^item> \<open>Layer_Store\<close>, \<open>Layer_Index\<close>, \<open>Layer_Mounts\<close>, \<open>Layer_Access\<close> (\<open>storage/layers.go\<close>): the model for any
    graph driver, the index invariant, mount counts and the end of the unmounting loop, and reading under the
    locks. The driver is a record of operations on a state of its own, and no theorem assumes anything of it
    beyond what its statement says.
  \<^item> \<open>Storage_Base\<close>, \<open>Storage_Create\<close>, \<open>Storage_Delete\<close>, \<open>Storage_Read\<close>, \<open>Storage_Size\<close> (\<open>storage/store.go\<close>): the
    operations across the stores, in the order of the interface \<open>Store\<close>. The state has the three stores, the additional
    ones and their locks; a method called without its lock and a lock taken out of order set a flag.
  \<^item> \<open>Storage_Locking\<close>, \<open>Storage_Discipline\<close>, \<open>Storage_Calls\<close>: the locale \<open>lockable\<close> is the contract of a lock, interpreted on
    each kind of store; every call takes the locks in the documented order and releases them, with the one
    exception of deleting an image from an additional store.
  \<^item> \<open>Storage_Integrity\<close>: what the deletions do to the references between layers, images and containers.

  \<^bold>\<open>Bounds.\<close> Loops over data are structural recursion. The unmounting loop of \<open>deferredDelete\<close> takes a
  number of turns, \<open>mount_turns\<close>, one more than the largest mount count in memory and in the file; it is
  shown that the loop as written ends within them. The loops of \<open>deleteImage\<close>, \<open>ImageSize\<close> and \<open>Dedup\<close> over parents are
  partial functions, so that an endless one has the value \<open>None\<close>. The retry of \<open>layer_read_loop\<close> has the bound of the code. A
  loop over random IDs ends with the list of draws.

  \<^bold>\<open>Not modelled.\<close> \<open>Diff\<close>, which hands out a stream that keeps a lock, and \<open>GetStore\<close>, which sets up the directories; the graph drivers, archives and
  chunked layers, whose substance is the file system and the kernel; the
  transports, copying and signatures of \<open>src/image\<close> and the libraries of \<open>src/common\<close>, which mostly drive
  network services, other programs and the kernel.
\<close>

end
